(* ===== verification/Prelude.thy ===== *)
theory Prelude
  imports Main "HOL-Library.Word"
begin

unbundle bit_operations_syntax

text \<open>
  Shared vocabulary of the development.

  \<^item> Machine integers of the Rust sources as words of their width; an \<open>as\<close> cast
    between them is \<^const>\<open>ucast\<close> (truncation or zero extension), signed comparison
    is \<open><s\<close>.
  \<^item> \<^emph>\<open>Results\<close>: Rust's \<open>Result<T, E>\<close> is \<open>'e +
    'a\<close> with \<^const>\<open>Inl\<close> for \<open>Err\<close>, and the \<open>?\<close>
    operator is \<open>rbind\<close>.
  \<^item> \<^emph>\<open>Bytes\<close>: \<open>to_ne_bytes\<close> (little endian on x86-64),
    \<open>to_be_bytes\<close> and their inverses, with the locale \<open>byte_codec\<close> as the
    contract every fixed-width encoding obeys. The string functions of the Rust standard library are
    in \<open>Rust_Strings\<close>.
\<close>

section \<open>Machine integers\<close>

type_synonym u8 = "8 word"
type_synonym u16 = "16 word"
type_synonym u32 = "32 word"
type_synonym u64 = "64 word"
type_synonym u128 = "128 word"
type_synonym i32 = "32 word"
type_synonym i64 = "64 word"
type_synonym usize = "64 word"

text \<open>Facts that unfold the model's state updates are collected here.\<close>

named_theorems tracker_simps \<open>lookups in the socket tracker after one of its operations\<close>
named_theorems handler_defs \<open>definitions of the syscall handlers\<close>
named_theorems codec_simps \<open>round trips of the byte encodings\<close>

lemma unat_u8: "unat (w :: u8) < 256"
  using unsigned_less [of w, where ?'a = nat] by simp

lemma unat_u16: "unat (w :: u16) < 65536"
  using unsigned_less [of w, where ?'a = nat] by simp

section \<open>Results\<close>

definition rbind :: "'e + 'a \<Rightarrow> ('a \<Rightarrow> 'e + 'b) \<Rightarrow> 'e + 'b" where
  "rbind r f = (case r of Inl e \<Rightarrow> Inl e | Inr x \<Rightarrow> f x)"

definition map_err :: "('e \<Rightarrow> 'f) \<Rightarrow> 'e + 'a \<Rightarrow> 'f + 'a" where
  "map_err f r = (case r of Inl e \<Rightarrow> Inl (f e) | Inr x \<Rightarrow> Inr x)"

definition ok_or :: "'e \<Rightarrow> 'a option \<Rightarrow> 'e + 'a" where
  "ok_or e x = (case x of None \<Rightarrow> Inl e | Some y \<Rightarrow> Inr y)"

definition is_ok :: "'e + 'a \<Rightarrow> bool" where
  "is_ok r = (case r of Inl _ \<Rightarrow> False | Inr _ \<Rightarrow> True)"

lemma rbind_simps [simp]:
  "rbind (Inl e) f = Inl e"
  "rbind (Inr x) f = f x"
  by (simp_all add: rbind_def)

lemma map_err_simps [simp]:
  "map_err f (Inl e) = Inl (f e)"
  "map_err f (Inr x) = Inr x"
  by (simp_all add: map_err_def)

lemma ok_or_simps [simp]:
  "ok_or e None = Inl e"
  "ok_or e (Some y) = Inr y"
  by (simp_all add: ok_or_def)

lemma is_ok_simps [simp]:
  "is_ok (Inl e) = False"
  "is_ok (Inr x) = True"
  by (simp_all add: is_ok_def)

lemma rbind_eq_Inr: "rbind r f = Inr y \<longleftrightarrow> (\<exists>x. r = Inr x \<and> f x = Inr y)"
  by (cases r) auto

lemma rbind_eq_Inl: "rbind r f = Inl e \<longleftrightarrow> r = Inl e \<or> (\<exists>x. r = Inr x \<and> f x = Inl e)"
  by (cases r) auto

lemma map_err_eq_Inr [simp]: "map_err f r = Inr x \<longleftrightarrow> r = Inr x"
  by (cases r) auto

lemma map_err_eq_Inl: "map_err f r = Inl e \<longleftrightarrow> (\<exists>e'. r = Inl e' \<and> e = f e')"
  by (cases r) auto

lemma ok_or_eq_Inr [simp]: "ok_or e x = Inr y \<longleftrightarrow> x = Some y"
  by (cases x) auto

section \<open>Fixed-width byte encodings\<close>

text \<open>
  The contract of an encoding of a type into exactly \<open>n\<close> bytes: encodings have that length,
  decoding inverts encoding, and every byte string of that length is an encoding.
\<close>

locale byte_codec =
  fixes enc :: "'a \<Rightarrow> u8 list"
    and dec :: "u8 list \<Rightarrow> 'a"
    and n :: nat
  assumes length_enc: "length (enc x) = n"
    and dec_enc: "dec (enc x) = x"
    and enc_dec: "length bs = n \<Longrightarrow> enc (dec bs) = bs"
begin

lemma enc_inj: "enc x = enc y \<longleftrightarrow> x = y"
  by (metis dec_enc)

lemma dec_inj: "length bs = n \<Longrightarrow> length cs = n \<Longrightarrow> dec bs = dec cs \<longleftrightarrow> bs = cs"
  by (metis enc_dec)

lemma dec_take: "dec (take n (enc x @ rest)) = x"
  by (simp add: length_enc dec_enc)

lemma drop_enc: "drop n (enc x @ rest) = rest"
  by (simp add: length_enc)

lemma framed_inj: "enc x @ rest = enc y @ rest' \<longleftrightarrow> x = y \<and> rest = rest'"
  by (metis append_eq_append_conv dec_enc length_enc)

end

text \<open>Little-endian bytes of a word, and back.\<close>

fun from_le :: "u8 list \<Rightarrow> 'a::len word" where
  "from_le [] = 0"
| "from_le (b # bs) = ucast b OR push_bit 8 (from_le bs)"

definition to_le :: "nat \<Rightarrow> 'a::len word \<Rightarrow> u8 list" where
  "to_le n w = map (\<lambda>i. ucast (drop_bit (8 * i) w)) [0..<n]"

lemma length_to_le [simp]: "length (to_le n w) = n"
  by (simp add: to_le_def)

lemma nth_to_le: "i < n \<Longrightarrow> to_le n w ! i = ucast (drop_bit (8 * i) w)"
  by (simp add: to_le_def)

lemma bit_from_le:
  "bit (from_le bs :: 'a::len word) i \<longleftrightarrow>
     i < LENGTH('a) \<and> i div 8 < length bs \<and> bit (bs ! (i div 8)) (i mod 8)"
proof (induction bs arbitrary: i)
  case Nil
  then show ?case by simp
next
  case (Cons b bs)
  show ?case
  proof (cases "i < 8")
    case True
    then show ?thesis by (auto simp: bit_simps)
  next
    case False
    then obtain j where j: "i = j + 8" by (metis add.commute le_add_diff_inverse not_less)
    have "\<not> bit b i" using False bit_imp_le_length [of b i] by auto
    moreover have "(j + 8) div 8 = Suc (j div 8)" by simp
    ultimately show ?thesis using False by (auto simp: j bit_simps Cons.IH)
  qed
qed

lemma from_le_to_le:
  assumes "LENGTH('a) \<le> 8 * n"
  shows "from_le (to_le n w) = (w :: 'a::len word)"
proof (rule bit_word_eqI)
  fix i assume i: "i < LENGTH('a)"
  then have "i div 8 < n" using assms by (simp add: div_less_iff_less_mult mult.commute)
  then show "bit (from_le (to_le n w) :: 'a word) i = bit w i"
    using i by (simp add: bit_from_le nth_to_le bit_simps)
qed

lemma to_le_from_le:
  assumes "length bs = n" and "8 * n \<le> LENGTH('a)"
  shows "to_le n (from_le bs :: 'a::len word) = bs"
proof (rule nth_equalityI)
  show "length (to_le n (from_le bs :: 'a word)) = length bs" using assms(1) by simp
next
  fix i assume "i < length (to_le n (from_le bs :: 'a word))"
  then have i: "i < n" by simp
  show "to_le n (from_le bs :: 'a word) ! i = bs ! i"
  proof (rule bit_word_eqI)
    fix j assume j: "j < LENGTH(8)"
    then have "8 * i + j < LENGTH('a)" using i assms(2) by simp
    moreover have "(8 * i + j) div 8 = i" "(8 * i + j) mod 8 = j" using j by auto
    ultimately show "bit (to_le n (from_le bs :: 'a word) ! i) j = bit (bs ! i) j"
      using i j assms(1) by (simp add: nth_to_le bit_simps bit_from_le)
  qed
qed

text \<open>
  The conversions the sources call: \<open>to_ne_bytes\<close> and \<open>from_ne_bytes\<close> are
  little endian on x86-64, the only architecture the tracer supports; ports and addresses travel big
  endian.
\<close>

definition u16_to_ne_bytes :: "u16 \<Rightarrow> u8 list" where
  "u16_to_ne_bytes = to_le 2"

definition u16_from_ne_bytes :: "u8 list \<Rightarrow> u16" where
  "u16_from_ne_bytes = from_le"

definition u16_to_be_bytes :: "u16 \<Rightarrow> u8 list" where
  "u16_to_be_bytes w = rev (to_le 2 w)"

definition u16_from_be_bytes :: "u8 list \<Rightarrow> u16" where
  "u16_from_be_bytes bs = from_le (rev bs)"

definition u64_to_ne_bytes :: "u64 \<Rightarrow> u8 list" where
  "u64_to_ne_bytes = to_le 8"

definition u64_from_ne_bytes :: "u8 list \<Rightarrow> u64" where
  "u64_from_ne_bytes = from_le"

definition u32_to_be_bytes :: "u32 \<Rightarrow> u8 list" where
  "u32_to_be_bytes w = rev (to_le 4 w)"

definition u32_from_be_bytes :: "u8 list \<Rightarrow> u32" where
  "u32_from_be_bytes bs = from_le (rev bs)"

definition u128_to_be_bytes :: "u128 \<Rightarrow> u8 list" where
  "u128_to_be_bytes w = rev (to_le 16 w)"

definition u128_from_be_bytes :: "u8 list \<Rightarrow> u128" where
  "u128_from_be_bytes bs = from_le (rev bs)"

interpretation u16_ne: byte_codec u16_to_ne_bytes u16_from_ne_bytes 2
  by unfold_locales
    (simp_all add: u16_to_ne_bytes_def u16_from_ne_bytes_def from_le_to_le to_le_from_le)

interpretation u16_be: byte_codec u16_to_be_bytes u16_from_be_bytes 2
  by unfold_locales
    (simp_all add: u16_to_be_bytes_def u16_from_be_bytes_def from_le_to_le to_le_from_le)

interpretation u32_be: byte_codec u32_to_be_bytes u32_from_be_bytes 4
  by unfold_locales
    (simp_all add: u32_to_be_bytes_def u32_from_be_bytes_def from_le_to_le to_le_from_le)

interpretation u64_ne: byte_codec u64_to_ne_bytes u64_from_ne_bytes 8
  by unfold_locales
    (simp_all add: u64_to_ne_bytes_def u64_from_ne_bytes_def from_le_to_le to_le_from_le)

interpretation u128_be: byte_codec u128_to_be_bytes u128_from_be_bytes 16
  by unfold_locales
    (simp_all add: u128_to_be_bytes_def u128_from_be_bytes_def from_le_to_le to_le_from_le)

lemmas codec_lengths [simp] =
  u16_ne.length_enc u16_be.length_enc u32_be.length_enc u64_ne.length_enc u128_be.length_enc

lemmas codec_inverses [codec_simps] =
  u16_ne.dec_enc u16_be.dec_enc u32_be.dec_enc u64_ne.dec_enc u128_be.dec_enc

section \<open>Lists and maps\<close>

lemma take_append_length [simp]: "n = length xs \<Longrightarrow> take n (xs @ ys) = xs"
  by simp

text \<open>\<open>retain\<close> on a hash map keeps the entries whose key satisfies the predicate.\<close>

definition retain_keys :: "('k \<Rightarrow> bool) \<Rightarrow> ('k \<rightharpoonup> 'v) \<Rightarrow> ('k \<rightharpoonup> 'v)" where
  "retain_keys P m = (\<lambda>k. if P k then m k else None)"

lemma retain_keys_apply [simp]: "retain_keys P m k = (if P k then m k else None)"
  by (simp add: retain_keys_def)

lemma dom_retain_keys: "dom (retain_keys P m) = {k \<in> dom m. P k}"
  by (auto simp: dom_def)

lemma finite_dom_retain_keys [simp]: "finite (dom m) \<Longrightarrow> finite (dom (retain_keys P m))"
  by (simp add: dom_retain_keys)

lemma ran_retain_keys: "ran (retain_keys P m) \<subseteq> ran m"
  by (auto simp: ran_def split: if_splits)

lemma ran_upd_subset: "ran (m(k \<mapsto> v)) \<subseteq> insert v (ran m)"
  by (auto simp: ran_def split: if_splits)

lemma ran_del_subset: "ran (m(k := None)) \<subseteq> ran m"
  by (auto simp: ran_def split: if_splits)

lemma ucast_up_u32_inj: "(ucast (a :: u32) :: u64) = ucast b \<Longrightarrow> a = b"
proof -
  assume eq: "(ucast a :: u64) = ucast b"
  have "ucast (ucast w :: u64) = w" for w :: u32
    by (rule bit_word_eqI) (auto simp: bit_simps dest: bit_imp_le_length)
  then show "a = b" using eq by metis
qed

end
