(* ===== verification/Rust_Strings.thy ===== *)
theory Rust_Strings
  imports Prelude
begin

text \<open>
  The string functions of the Rust standard library that the sources call: \<open>trim\<close>,
  \<open>lines\<close>, \<open>split\<close>, \<open>split_whitespace\<close>,
  \<open>split_once\<close>, \<open>strip_prefix\<close>, \<open>strip_suffix\<close>,
  \<open>contains\<close>, \<open>eq_ignore_ascii_case\<close>, integer parsing
  (\<open>FromStr\<close>) and integer formatting. A string is the list of the bytes of its UTF-8
  encoding; white space is the \<open>White_Space\<close> property of Unicode, of which
  \<open>white_spaces\<close> lists the encodings. The lemmas are the round trips and the splitting
  laws that the parsers rely on.
\<close>

section \<open>Trimming, splitting, searching\<close>

text \<open>
  The encodings of the white space characters: U+0009 to U+000D and U+0020 (one byte), U+0085, U+00A0,
  U+1680, U+2000 to U+200A, U+2028, U+2029, U+202F, U+205F and U+3000.
\<close>

definition is_whitespace :: "char \<Rightarrow> bool" where
  "is_whitespace c = ((of_char c :: nat) \<in> {9, 10, 11, 12, 13, 32})"

definition white_spaces :: "string list" where
  "white_spaces =
     map (\<lambda>n. [char_of n]) [9, 10, 11, 12, 13, 32 :: nat] @
     map (map char_of)
       ([[0xC2, 0x85], [0xC2, 0xA0], [0xE1, 0x9A, 0x80]] @
        map (\<lambda>n. [0xE2, 0x80, n]) [0x80..<0x8B] @
        [[0xE2, 0x80, 0xA8], [0xE2, 0x80, 0xA9], [0xE2, 0x80, 0xAF], [0xE2, 0x81, 0x9F], [0xE3, 0x80, 0x80 :: nat]])"

text \<open>The white space character at the start of a string, if there is one; the search on \<open>map rev\<close> finds one at the end.\<close>

definition white_start :: "string list \<Rightarrow> string \<Rightarrow> string option" where
  "white_start ws s = List.find (\<lambda>w. take (length w) s = w) ws"

fun skip_white :: "string list \<Rightarrow> string \<Rightarrow> string" where
  "skip_white ws [] = []"
| "skip_white ws (c # cs) =
     (case white_start ws (c # cs) of
        None \<Rightarrow> c # cs
      | Some w \<Rightarrow> skip_white ws (drop (length w - 1) cs))"

definition trim :: "string \<Rightarrow> string" where
  "trim s = rev (skip_white (map rev white_spaces) (rev (skip_white white_spaces s)))"

definition strip_prefix :: "string \<Rightarrow> string \<Rightarrow> string option" where
  "strip_prefix p s = (if take (length p) s = p then Some (drop (length p) s) else None)"

definition strip_suffix :: "string \<Rightarrow> string \<Rightarrow> string option" where
  "strip_suffix p s =
     (if length p \<le> length s \<and> drop (length s - length p) s = p
      then Some (take (length s - length p) s) else None)"

definition newline :: char where
  "newline = char_of (10 :: nat)"

definition carriage_return :: char where
  "carriage_return = char_of (13 :: nat)"

fun split_acc :: "char \<Rightarrow> string \<Rightarrow> string \<Rightarrow> string list" where
  "split_acc sep cur [] = [cur]"
| "split_acc sep cur (c # cs) =
     (if c = sep then cur # split_acc sep [] cs else split_acc sep (cur @ [c]) cs)"

definition split :: "char \<Rightarrow> string \<Rightarrow> string list" where
  "split sep s = split_acc sep [] s"

definition strip_cr :: "string \<Rightarrow> string" where
  "strip_cr s = (if s \<noteq> [] \<and> last s = carriage_return then butlast s else s)"

fun lines_acc :: "string \<Rightarrow> string \<Rightarrow> string list" where
  "lines_acc cur [] = (if cur = [] then [] else [cur])"
| "lines_acc cur (c # cs) =
     (if c = newline then strip_cr cur # lines_acc [] cs else lines_acc (cur @ [c]) cs)"

definition lines :: "string \<Rightarrow> string list" where
  "lines s = lines_acc [] s"

fun words_acc :: "string \<Rightarrow> string \<Rightarrow> string list" where
  "words_acc cur [] = (if cur = [] then [] else [cur])"
| "words_acc cur (c # cs) =
     (case white_start white_spaces (c # cs) of
        None \<Rightarrow> words_acc (cur @ [c]) cs
      | Some w \<Rightarrow>
          if cur = [] then words_acc [] (drop (length w - 1) cs)
          else cur # words_acc [] (drop (length w - 1) cs))"

definition split_whitespace :: "string \<Rightarrow> string list" where
  "split_whitespace s = words_acc [] s"

fun split_once :: "char \<Rightarrow> string \<Rightarrow> (string \<times> string) option" where
  "split_once sep [] = None"
| "split_once sep (c # cs) =
     (if c = sep then Some ([], cs)
      else (case split_once sep cs of None \<Rightarrow> None | Some (a, b) \<Rightarrow> Some (c # a, b)))"

fun contains_str :: "string \<Rightarrow> string \<Rightarrow> bool" where
  "contains_str pat [] = (pat = [])"
| "contains_str pat (c # cs) = (take (length pat) (c # cs) = pat \<or> contains_str pat cs)"

definition to_ascii_lowercase :: "char \<Rightarrow> char" where
  "to_ascii_lowercase c =
     (let n = (of_char c :: nat) in if 65 \<le> n \<and> n \<le> 90 then char_of (n + 32) else c)"

definition eq_ignore_ascii_case :: "string \<Rightarrow> string \<Rightarrow> bool" where
  "eq_ignore_ascii_case s t = (map to_ascii_lowercase s = map to_ascii_lowercase t)"

fun join :: "string \<Rightarrow> string list \<Rightarrow> string" where
  "join sep [] = []"
| "join sep [s] = s"
| "join sep (s # t # ts) = s @ sep @ join sep (t # ts)"

section \<open>Numbers\<close>

definition digit_char :: "nat \<Rightarrow> char" where
  "digit_char d = char_of (if d < 10 then 48 + d else 87 + d)"

definition upper_digit_char :: "nat \<Rightarrow> char" where
  "upper_digit_char d = char_of (if d < 10 then 48 + d else 55 + d)"

text \<open>\<open>char::to_digit\<close>: decimal digits, and for a radix above ten the letters of either case.\<close>

definition to_digit :: "nat \<Rightarrow> char \<Rightarrow> nat option" where
  "to_digit radix c =
     (let n = (of_char c :: nat);
          d = (if 48 \<le> n \<and> n \<le> 57 then n - 48
               else if 97 \<le> n \<and> n \<le> 122 then n - 87
               else if 65 \<le> n \<and> n \<le> 90 then n - 55 else radix)
      in if d < radix then Some d else None)"

fun show_nat :: "nat \<Rightarrow> string" where
  "show_nat n = (if n < 10 then [digit_char n] else show_nat (n div 10) @ [digit_char (n mod 10)])"

declare show_nat.simps [simp del]

definition show_i32 :: "i32 \<Rightarrow> string" where
  "show_i32 w =
     (if sint w < 0 then CHR ''-'' # show_nat (nat (- sint w)) else show_nat (nat (sint w)))"

fun show_hex :: "nat \<Rightarrow> string" where
  "show_hex n = (if n < 16 then [digit_char n] else show_hex (n div 16) @ [digit_char (n mod 16)])"

declare show_hex.simps [simp del]

text \<open>\<open>{:0nX}\<close> of a value with at most \<open>n\<close> hexadecimal digits: exactly \<open>n\<close> of them.\<close>

fun upper_hex :: "nat \<Rightarrow> nat \<Rightarrow> string" where
  "upper_hex 0 v = []"
| "upper_hex (Suc n) v = upper_hex n (v div 16) @ [upper_digit_char (v mod 16)]"

text \<open>\<open>{:02x}\<close> of a byte.\<close>

definition lower_hex_u8 :: "u8 \<Rightarrow> string" where
  "lower_hex_u8 b = [digit_char (unat b div 16), digit_char (unat b mod 16)]"

fun parse_digits :: "nat \<Rightarrow> string \<Rightarrow> nat option" where
  "parse_digits acc [] = Some acc"
| "parse_digits acc (c # cs) =
     (case to_digit 10 c of None \<Rightarrow> None | Some d \<Rightarrow> parse_digits (acc * 10 + d) cs)"

text \<open>
  \<open>str::parse\<close> for an unsigned type with maximum \<open>bound\<close>: an empty string,
  a lone sign, a non-digit and an overflow are errors, a leading plus sign is accepted.
\<close>

definition parse_unsigned :: "nat \<Rightarrow> string \<Rightarrow> nat option" where
  "parse_unsigned bound s =
     (let ds = (if s \<noteq> [] \<and> hd s = CHR ''+'' then tl s else s)
      in if ds = [] then None
         else (case parse_digits 0 ds of None \<Rightarrow> None
               | Some v \<Rightarrow> if v \<le> bound then Some v else None))"

definition parse_u8 :: "string \<Rightarrow> u8 option" where
  "parse_u8 s = map_option of_nat (parse_unsigned 255 s)"

definition parse_u32 :: "string \<Rightarrow> u32 option" where
  "parse_u32 s = map_option of_nat (parse_unsigned 4294967295 s)"

definition parse_i32 :: "string \<Rightarrow> i32 option" where
  "parse_i32 s =
     (if s \<noteq> [] \<and> hd s = CHR ''-''
      then (if tl s = [] then None
            else (case parse_digits 0 (tl s) of None \<Rightarrow> None
                  | Some v \<Rightarrow> if v \<le> 2147483648 then Some (- of_nat v) else None))
      else map_option of_nat (parse_unsigned 2147483647 s))"

section \<open>Laws\<close>

lemma of_char_digit_char [simp]:
  "d < 10 \<Longrightarrow> (of_char (digit_char d) :: nat) = 48 + d"
  by (simp add: digit_char_def)

lemma to_digit_digit_char: "d < 10 \<Longrightarrow> to_digit 10 (digit_char d) = Some d"
  by (simp add: to_digit_def Let_def)

lemma show_nat_nonempty [simp]: "show_nat n \<noteq> []"
  by (subst show_nat.simps) simp

lemma parse_digits_append:
  "parse_digits acc (s @ t) =
     (case parse_digits acc s of None \<Rightarrow> None | Some v \<Rightarrow> parse_digits v t)"
  by (induction s arbitrary: acc) (auto split: option.splits)

lemma parse_show_nat: "parse_digits 0 (show_nat n) = Some n"
proof (induction n rule: show_nat.induct)
  case (1 n)
  show ?case
  proof (cases "n < 10")
    case True
    then show ?thesis by (simp add: show_nat.simps [of n] to_digit_digit_char)
  next
    case False
    with "1.IH" have "parse_digits 0 (show_nat (n div 10)) = Some (n div 10)" by simp
    with False show ?thesis
      by (simp add: show_nat.simps [of n] parse_digits_append to_digit_digit_char)
  qed
qed

lemma show_nat_chars: "c \<in> set (show_nat n) \<Longrightarrow> 48 \<le> (of_char c :: nat) \<and> (of_char c :: nat) \<le> 57"
proof (induction n rule: show_nat.induct)
  case (1 n)
  show ?case
  proof (cases "n < 10")
    case True
    with "1.prems" show ?thesis by (simp add: show_nat.simps [of n])
  next
    case False
    with "1.prems" have "c \<in> set (show_nat (n div 10)) \<or> c = digit_char (n mod 10)"
      by (auto simp: show_nat.simps [of n])
    then show ?thesis
    proof
      assume "c \<in> set (show_nat (n div 10))"
      then show ?thesis by (rule "1.IH" [OF False])
    next
      assume "c = digit_char (n mod 10)"
      then show ?thesis by simp
    qed
  qed
qed

lemma show_nat_notin:
  "\<not> (48 \<le> (of_char c :: nat) \<and> (of_char c :: nat) \<le> 57) \<Longrightarrow> c \<notin> set (show_nat n)"
  using show_nat_chars by blast

lemma hd_show_nat: "48 \<le> (of_char (hd (show_nat n)) :: nat) \<and> (of_char (hd (show_nat n)) :: nat) \<le> 57"
  by (rule show_nat_chars [of "hd (show_nat n)" n]) simp

lemma parse_unsigned_show_nat: "n \<le> bound \<Longrightarrow> parse_unsigned bound (show_nat n) = Some n"
  using hd_show_nat [of n] by (auto simp: parse_unsigned_def Let_def parse_show_nat)

lemma parse_unsigned_bound: "parse_unsigned bound s = Some v \<Longrightarrow> v \<le> bound"
  by (auto simp: parse_unsigned_def Let_def split: option.splits if_splits)

lemma parse_u8_show: "parse_u8 (show_nat (unat (w :: u8))) = Some w"
proof -
  have "unat w < 2 ^ LENGTH(8)" by (rule unsigned_less)
  then show ?thesis by (simp add: parse_u8_def parse_unsigned_show_nat)
qed

lemma sint_i32_bounds: "- 2147483648 \<le> sint (w :: i32)" "sint (w :: i32) \<le> 2147483647"
  using sint_range_size [of w] by (simp_all add: word_size)

lemma parse_i32_show: "parse_i32 (show_i32 w) = Some w"
proof (cases "sint w < 0")
  case True
  have "nat (- sint w) \<le> 2147483648" using sint_i32_bounds(1) [of w] by simp
  moreover have "- word_of_nat (nat (- sint w)) = (w :: i32)"
    using True by (simp flip: of_int_minus)
  ultimately show ?thesis using True by (simp add: parse_i32_def show_i32_def parse_show_nat)
next
  case False
  have "nat (sint w) \<le> 2147483647" using sint_i32_bounds(2) [of w] by simp
  moreover have "word_of_nat (nat (sint w)) = (w :: i32)" using False by simp
  ultimately show ?thesis using False hd_show_nat [of "nat (sint w)"]
    by (auto simp: parse_i32_def show_i32_def parse_unsigned_show_nat)
qed

lemma strip_prefix_append [simp]: "strip_prefix p (p @ s) = Some s"
  by (simp add: strip_prefix_def)

lemma strip_prefix_Some: "strip_prefix p s = Some t \<longleftrightarrow> s = p @ t"
  by (auto simp: strip_prefix_def) (metis append_take_drop_id)

lemma strip_suffix_append [simp]: "strip_suffix p (s @ p) = Some s"
  by (simp add: strip_suffix_def)

lemma strip_suffix_Some: "strip_suffix p s = Some t \<longleftrightarrow> s = t @ p"
  by (auto simp: strip_suffix_def) (metis append_take_drop_id)

lemma contains_str_iff: "contains_str pat s \<longleftrightarrow> (\<exists>a b. s = a @ pat @ b)"
proof (induction s)
  case Nil
  then show ?case by simp
next
  case (Cons c cs)
  have "take (length pat) (c # cs) = pat \<longleftrightarrow> (\<exists>b. c # cs = pat @ b)"
    by (metis append_take_drop_id append_eq_conv_conj)
  moreover have "(\<exists>a b. c # cs = a @ pat @ b) \<longleftrightarrow>
      (\<exists>b. c # cs = pat @ b) \<or> (\<exists>a b. cs = a @ pat @ b)"
    by (metis Cons_eq_append_conv append_Cons append_Nil)
  ultimately show ?case using Cons.IH by simp
qed

lemma split_first: "sep \<notin> set a \<Longrightarrow> split sep (a @ sep # b) = a # split sep b"
proof -
  have "split_acc sep cur (a @ sep # b) = (cur @ a) # split_acc sep [] b" if "sep \<notin> set a" for cur
    using that by (induction a arbitrary: cur) auto
  then show "sep \<notin> set a \<Longrightarrow> ?thesis" by (simp add: split_def)
qed

lemma split_once_append: "sep \<notin> set a \<Longrightarrow> split_once sep (a @ sep # b) = Some (a, b)"
  by (induction a) auto

lemma split_once_None: "split_once sep s = None \<longleftrightarrow> sep \<notin> set s"
  by (induction s) (auto split: option.splits)

lemma lines_acc_line:
  assumes "newline \<notin> set l"
  shows "lines_acc cur (l @ newline # rest) = strip_cr (cur @ l) # lines_acc [] rest"
  using assms by (induction l arbitrary: cur) auto

lemma lines_Cons:
  assumes "newline \<notin> set l"
  shows "lines (l @ newline # rest) = strip_cr l # lines rest"
  using lines_acc_line [OF assms, of "[]"] by (simp add: lines_def)

lemma lines_concat:
  "list_all (\<lambda>l. newline \<notin> set l) pre \<Longrightarrow>
     lines (concat (map (\<lambda>l. l @ [newline]) pre) @ s) = map strip_cr pre @ lines s"
  by (induction pre) (simp_all add: lines_Cons)

lemma control_chars: "newline = CHR 0x0A" "carriage_return = CHR 0x0D" "char_of (9 :: nat) = CHR 0x09"
  by (simp_all add: newline_def carriage_return_def char_of_def bit_0)

lemma strip_cr_id: "carriage_return \<notin> set s \<Longrightarrow> strip_cr s = s"
  by (metis last_in_set strip_cr_def)

text \<open>ASCII characters are white space or no part of any.\<close>

definition plain_char :: "char \<Rightarrow> bool" where
  "plain_char c \<longleftrightarrow> (of_char c :: nat) < 128 \<and> \<not> is_whitespace c"

lemma white_spaces_ends:
  "w \<in> set white_spaces \<Longrightarrow> w \<noteq> [] \<and> \<not> plain_char (hd w) \<and> \<not> plain_char (last w)"
proof -
  have "list_all (\<lambda>w. w \<noteq> [] \<and> \<not> plain_char (hd w) \<and> \<not> plain_char (last w)) white_spaces"
    by (simp add: white_spaces_def plain_char_def is_whitespace_def upt_rec)
  then show "w \<in> set white_spaces \<Longrightarrow> ?thesis" by (simp add: list_all_iff)
qed

lemma white_start_plain:
  assumes "plain_char c"
  shows "white_start white_spaces (c # s) = None" and "white_start (map rev white_spaces) (c # s) = None"
proof -
  have hd: "hd w = c" if "take (length w) (c # s) = w" "w \<noteq> []" for w
    using that by (metis hd_take length_greater_0_conv list.sel(1))
  show "white_start white_spaces (c # s) = None"
    using hd white_spaces_ends assms by (fastforce simp: white_start_def find_None_iff)
  have "take (length w) (c # s) \<noteq> rev w" if "w \<in> set white_spaces" for w
    using hd [of "rev w"] white_spaces_ends [OF that] assms by (auto simp: hd_rev)
  then show "white_start (map rev white_spaces) (c # s) = None"
    by (auto simp: white_start_def find_None_iff)
qed

lemma white_start_blank:
  assumes "is_whitespace b"
  shows "white_start white_spaces (b # s) = Some [b]"
proof -
  have "List.find (\<lambda>w. take (length w) (b # s) = w) (map (\<lambda>n. [char_of (n :: nat)]) ns @ more) = Some [b]"
    if "b \<in> char_of ` set ns" for ns more
    using that by (induction ns) auto
  moreover have "b \<in> char_of ` set [9, 10, 11, 12, 13, 32 :: nat]"
    using assms char_of_char [of b] unfolding is_whitespace_def by (metis image_eqI set_simps)
  ultimately show ?thesis by (simp only: white_start_def white_spaces_def)
qed

lemma words_acc_word:
  assumes "\<forall>c\<in>set w. plain_char c" and "is_whitespace b" and "cur @ w \<noteq> []"
  shows "words_acc cur (w @ b # rest) = (cur @ w) # words_acc [] rest"
  using assms by (induction w arbitrary: cur) (auto simp: white_start_plain white_start_blank)

lemma split_whitespace_word:
  assumes "\<forall>c\<in>set w. plain_char c" and "is_whitespace b" and "w \<noteq> []"
  shows "split_whitespace (w @ b # rest) = w # split_whitespace rest"
  using words_acc_word [OF assms(1,2), of "[]"] assms(3) by (simp add: split_whitespace_def)

lemma split_whitespace_blank: "is_whitespace b \<Longrightarrow> split_whitespace (b # rest) = split_whitespace rest"
  by (simp add: split_whitespace_def white_start_blank)

lemma skip_white_plain:
  assumes "\<forall>c\<in>set s. plain_char c"
  shows "skip_white white_spaces s = s" and "skip_white (map rev white_spaces) s = s"
  using assms by (cases s; simp add: white_start_plain)+

lemma trim_plain: "\<forall>c\<in>set s. plain_char c \<Longrightarrow> trim s = s"
  by (simp add: trim_def skip_white_plain)

lemma trim_leading: "is_whitespace b \<Longrightarrow> trim (b # s) = trim s"
  by (simp add: trim_def white_start_blank)

lemma show_nat_plain: "\<forall>c\<in>set (show_nat n). plain_char c"
  by (fastforce simp: plain_char_def is_whitespace_def dest: show_nat_chars)

lemma show_i32_plain: "\<forall>c\<in>set (show_i32 w). plain_char c"
  using show_nat_plain by (auto simp: show_i32_def plain_char_def is_whitespace_def)

end
