(* ===== verification/Errors.thy ===== *)
theory Errors
  imports Prelude
begin

text \<open>
  \<open>src/error.rs\<close>: the error enumeration of the crate and its exit codes. An operating
  system error number is the \<open>i32\<close> that \<open>errno\<close> holds; an
  \<open>io::Error\<close> carries one or is raised by the library itself (an unexpected end of file,
  or another message).
\<close>

type_synonym errno = i32

definition ESRCH :: errno where "ESRCH = 3"
definition EINTR :: errno where "EINTR = 4"
definition ECHILD :: errno where "ECHILD = 10"
definition EINVAL :: errno where "EINVAL = 22"
definition EAFNOSUPPORT :: errno where "EAFNOSUPPORT = 97"

lemmas errno_defs = ESRCH_def EINTR_def ECHILD_def EINVAL_def EAFNOSUPPORT_def

datatype io_error = Os_Error errno | Unexpected_Eof | Io_Other string

fun raw_os_error :: "io_error \<Rightarrow> errno option" where
  "raw_os_error (Os_Error e) = Some e"
| "raw_os_error Unexpected_Eof = None"
| "raw_os_error (Io_Other s) = None"

datatype error =
    NoProxy
  | InvalidProxyUrl string
  | Fork errno
  | Ptrace errno
  | Exec io_error
  | Wait errno
  | MemoryRead errno
  | MemoryWrite errno
  | UnknownAddressFamily u16
  | ProxyConnect io_error
  | HttpProxy string
  | SocksProxy string
  | Io io_error
  | InvalidArgument string
  | NulByte nat "u8 list"

fun exit_code :: "error \<Rightarrow> i32" where
  "exit_code NoProxy = 0"
| "exit_code (InvalidProxyUrl _) = 2"
| "exit_code (ProxyConnect _) = 69"
| "exit_code (Ptrace _) = 77"
| "exit_code (Exec _) = 126"
| "exit_code _ = 1"

text \<open>The two tests of \<open>trace_loop.rs\<close> for a vanished tracee.\<close>

definition is_esrch_io :: "io_error \<Rightarrow> bool" where
  "is_esrch_io err = (raw_os_error err = Some ESRCH)"

definition is_esrch_nix :: "errno \<Rightarrow> bool" where
  "is_esrch_nix err = (err = ESRCH)"

end
