(* ===== verification/Seccomp.thy ===== *)
theory Seccomp
  imports Rust_Strings Errors
begin

text \<open>
  \<open>src/tracer/seccomp.rs\<close>: the seccomp filter program the child installs before it
  executes the target, its installation and the kernel version test.

  The filter is data, a list of classic BPF instructions; the machine that runs it is the kernel's.
  It is a parameter \<open>run\<close> of the theorems, with the documented behaviour of the
  instructions used (\<open>linux/bpf_common.h\<close>) as the predicate \<open>bpf_machine\<close>,
  over the documented layout of \<open>struct seccomp_data\<close> (\<open>linux/seccomp.h\<close>).
  \<open>bpf_run\<close> is a machine that has this behaviour. The theorems compute the verdict of
  the filter on every system call. Two constants of the source do not have their documented values:
  the instruction called \<open>BPF_JSET\<close> is the kernel's \<open>BPF_JGT\<close>, and the
  offset taken for \<open>args[1]\<close> is the upper half of \<open>args[0]\<close>; the verdict
  shows the consequences.
\<close>

section \<open>The code\<close>

text \<open>The constants of the modules \<open>sys\<close>, \<open>af\<close>, \<open>sock\<close> and \<open>clone_flags\<close>.\<close>

definition sys_CLOSE :: u32 where "sys_CLOSE = 3"
definition sys_SOCKET :: u32 where "sys_SOCKET = 41"
definition sys_CONNECT :: u32 where "sys_CONNECT = 42"
definition sys_CLONE :: u32 where "sys_CLONE = 56"
definition sys_CLONE3 :: u32 where "sys_CLONE3 = 435"
definition af_INET :: u32 where "af_INET = 2"
definition af_INET6 :: u32 where "af_INET6 = 10"
definition sock_STREAM :: u32 where "sock_STREAM = 1"
definition flag_CLONE_UNTRACED :: u32 where "flag_CLONE_UNTRACED = 0x00800000"

lemmas filter_consts =
  sys_CLOSE_def sys_SOCKET_def sys_CONNECT_def sys_CLONE_def sys_CLONE3_def af_INET_def af_INET6_def
  sock_STREAM_def flag_CLONE_UNTRACED_def

record sock_filter =
  f_code :: u16
  f_jt :: u8
  f_jf :: u8
  f_k :: u32

definition BPF_LD :: u16 where "BPF_LD = 0x00"
definition BPF_W :: u16 where "BPF_W = 0x00"
definition BPF_ABS :: u16 where "BPF_ABS = 0x20"
definition BPF_JMP :: u16 where "BPF_JMP = 0x05"
definition BPF_JEQ :: u16 where "BPF_JEQ = 0x10"
definition BPF_JSET :: u16 where "BPF_JSET = 0x20"
definition BPF_K :: u16 where "BPF_K = 0x00"
definition BPF_RET :: u16 where "BPF_RET = 0x06"

lemmas bpf_codes =
  BPF_LD_def BPF_W_def BPF_ABS_def BPF_JMP_def BPF_JEQ_def BPF_JSET_def BPF_K_def BPF_RET_def

definition bpf_stmt :: "u16 \<Rightarrow> u32 \<Rightarrow> sock_filter" where
  "bpf_stmt c v = \<lparr>f_code = c, f_jt = 0, f_jf = 0, f_k = v\<rparr>"

definition bpf_jump :: "u16 \<Rightarrow> u32 \<Rightarrow> u8 \<Rightarrow> u8 \<Rightarrow> sock_filter" where
  "bpf_jump c v t f = \<lparr>f_code = c, f_jt = t, f_jf = f, f_k = v\<rparr>"

text \<open>The filter of \<open>install_filter\<close>, with the system call numbers, families and flags it names.\<close>

definition seccomp_filter :: "sock_filter list" where
  "seccomp_filter =
     [bpf_stmt (BPF_LD OR BPF_W OR BPF_ABS) 0,
      bpf_jump (BPF_JMP OR BPF_JEQ OR BPF_K) sys_CLOSE 12 0,
      bpf_jump (BPF_JMP OR BPF_JEQ OR BPF_K) sys_CONNECT 11 0,
      bpf_jump (BPF_JMP OR BPF_JEQ OR BPF_K) sys_CLONE3 10 0,
      bpf_jump (BPF_JMP OR BPF_JEQ OR BPF_K) sys_CLONE 2 0,
      bpf_jump (BPF_JMP OR BPF_JEQ OR BPF_K) sys_SOCKET 3 0,
      bpf_stmt (BPF_RET OR BPF_K) 0x7fff0000,
      bpf_stmt (BPF_LD OR BPF_W OR BPF_ABS) 16,
      bpf_jump (BPF_JMP OR BPF_JSET OR BPF_K) flag_CLONE_UNTRACED 5 6,
      bpf_stmt (BPF_LD OR BPF_W OR BPF_ABS) 16,
      bpf_jump (BPF_JMP OR BPF_JEQ OR BPF_K) af_INET 1 0,
      bpf_jump (BPF_JMP OR BPF_JEQ OR BPF_K) af_INET6 0 3,
      bpf_stmt (BPF_LD OR BPF_W OR BPF_ABS) 20,
      bpf_jump (BPF_JMP OR BPF_JSET OR BPF_K) sock_STREAM 0 1,
      bpf_stmt (BPF_RET OR BPF_K) 0x7ff00000,
      bpf_stmt (BPF_RET OR BPF_K) 0x7fff0000]"

text \<open>The two calls of \<open>prctl\<close> that install a filter, on the state of the child process.\<close>

record 'c prctl_calls =
  no_new_privs :: "'c \<Rightarrow> (errno + unit) \<times> 'c"
  set_seccomp :: "'c \<Rightarrow> sock_filter list \<Rightarrow> (errno + unit) \<times> 'c"

definition install_filter :: "'c prctl_calls \<Rightarrow> 'c \<Rightarrow> (io_error + unit) \<times> 'c" where
  "install_filter sys c =
     (case no_new_privs sys c of
        (Inl e, c1) \<Rightarrow> (Inl (Os_Error e), c1)
      | (Inr _, c1) \<Rightarrow>
          (case set_seccomp sys c1 seccomp_filter of
             (Inl e, c2) \<Rightarrow> (Inl (Os_Error e), c2)
           | (Inr _, c2) \<Rightarrow> (Inr (), c2)))"

text \<open>\<open>release\<close> is what \<open>uname\<close> reports up to the first zero byte, \<open>None\<close> when the call fails.\<close>

definition is_available :: "string option \<Rightarrow> bool" where
  "is_available release =
     (case release of
        None \<Rightarrow> True
      | Some s \<Rightarrow>
          (case split (CHR ''.'') s of
             p0 # p1 # rest \<Rightarrow>
               (case (parse_u32 p0, parse_u32 p1) of
                  (Some major, Some minor) \<Rightarrow> 4 < major \<or> major = 4 \<and> 8 \<le> minor
                | _ \<Rightarrow> True)
           | _ \<Rightarrow> True))"

section \<open>The machine\<close>

record seccomp_data =
  sd_nr :: u32
  sd_arch :: u32
  sd_ip :: u64
  sd_args :: "u64 list"

definition low_half :: "u64 \<Rightarrow> u32" where "low_half w = ucast w"
definition high_half :: "u64 \<Rightarrow> u32" where "high_half w = ucast (drop_bit 32 w)"

text \<open>The 32-bit word of \<open>struct seccomp_data\<close> at a byte offset, on a little-endian machine.\<close>

definition data_word :: "seccomp_data \<Rightarrow> u32 \<Rightarrow> u32" where
  "data_word d off =
     (if off = 0 then sd_nr d
      else if off = 4 then sd_arch d
      else if off = 8 then low_half (sd_ip d)
      else if off = 12 then high_half (sd_ip d)
      else let arg = sd_args d ! ((unat off - 16) div 8)
           in if unat off mod 8 = 0 then low_half arg else high_half arg)"

text \<open>
  \<open>run prog d pc acc\<close> is the value the machine returns when it continues at instruction
  \<open>pc\<close> with accumulator \<open>acc\<close>. The instructions by their kernel codes:
  \<open>LD W ABS\<close> 0x20, \<open>JEQ K\<close> 0x15, \<open>JGT K\<close> 0x25, \<open>JSET
  K\<close> 0x45, \<open>RET K\<close> 0x06.
\<close>

type_synonym bpf_exec = "sock_filter list \<Rightarrow> seccomp_data \<Rightarrow> nat \<Rightarrow> u32 \<Rightarrow> u32"

definition bpf_machine :: "bpf_exec \<Rightarrow> bool" where
  "bpf_machine run \<longleftrightarrow>
     (\<forall>prog d pc acc i. pc < length prog \<longrightarrow> i = prog ! pc \<longrightarrow>
        (f_code i = 0x20 \<longrightarrow> run prog d pc acc = run prog d (pc + 1) (data_word d (f_k i))) \<and>
        (f_code i = 0x15 \<longrightarrow>
           run prog d pc acc = run prog d (pc + 1 + unat (if acc = f_k i then f_jt i else f_jf i)) acc) \<and>
        (f_code i = 0x25 \<longrightarrow>
           run prog d pc acc = run prog d (pc + 1 + unat (if f_k i < acc then f_jt i else f_jf i)) acc) \<and>
        (f_code i = 0x45 \<longrightarrow>
           run prog d pc acc = run prog d (pc + 1 + unat (if acc AND f_k i \<noteq> 0 then f_jt i else f_jf i)) acc) \<and>
        (f_code i = 0x06 \<longrightarrow> run prog d pc acc = f_k i))"

function bpf_run :: bpf_exec where
  "bpf_run prog d pc acc =
     (if length prog \<le> pc then 0
      else let i = prog ! pc
           in if f_code i = 0x20 then bpf_run prog d (pc + 1) (data_word d (f_k i))
              else if f_code i = 0x15 then bpf_run prog d (pc + 1 + unat (if acc = f_k i then f_jt i else f_jf i)) acc
              else if f_code i = 0x25 then bpf_run prog d (pc + 1 + unat (if f_k i < acc then f_jt i else f_jf i)) acc
              else if f_code i = 0x45
              then bpf_run prog d (pc + 1 + unat (if acc AND f_k i \<noteq> 0 then f_jt i else f_jf i)) acc
              else if f_code i = 0x06 then f_k i
              else 0)"
  by pat_completeness auto
termination by (relation "measure (\<lambda>(prog, d, pc, acc). length prog - pc)") auto

declare bpf_run.simps [simp del]

lemma bpf_run_machine: "bpf_machine bpf_run"
  unfolding bpf_machine_def
  by (intro allI impI conjI; subst bpf_run.simps; simp add: Let_def)

lemma instruction_codes:
  "BPF_LD OR BPF_W OR BPF_ABS = 0x20" "BPF_JMP OR BPF_JEQ OR BPF_K = 0x15"
  "BPF_JMP OR BPF_JSET OR BPF_K = 0x25" "BPF_RET OR BPF_K = 0x06"
  by (simp_all add: bpf_codes)

text \<open>The rules of the machine in the form of the instructions of the source.\<close>

lemma bpf_load:
  assumes "bpf_machine run" and "pc < length prog" and "prog ! pc = bpf_stmt 0x20 v"
  shows "run prog d pc acc = run prog d (Suc pc) (data_word d v)"
  using assms unfolding bpf_machine_def bpf_stmt_def by (simp add: Let_def)

lemma bpf_jeq:
  assumes "bpf_machine run" and "pc < length prog" and "prog ! pc = bpf_jump 0x15 v t f"
  shows "run prog d pc acc = run prog d (if acc = v then Suc pc + unat t else Suc pc + unat f) acc"
  using assms unfolding bpf_machine_def bpf_jump_def by simp

lemma bpf_jgt:
  assumes "bpf_machine run" and "pc < length prog" and "prog ! pc = bpf_jump 0x25 v t f"
  shows "run prog d pc acc = run prog d (if v < acc then Suc pc + unat t else Suc pc + unat f) acc"
  using assms unfolding bpf_machine_def bpf_jump_def by simp

lemma bpf_ret:
  assumes "bpf_machine run" and "pc < length prog" and "prog ! pc = bpf_stmt 0x06 v"
  shows "run prog d pc acc = v"
  using assms unfolding bpf_machine_def bpf_stmt_def by simp

lemma filter_length: "length seccomp_filter = 16"
  by (simp add: seccomp_filter_def)

lemma filter_nth:
  "seccomp_filter ! 0 = bpf_stmt 0x20 0"
  "seccomp_filter ! Suc 0 = bpf_jump 0x15 3 12 0"
  "seccomp_filter ! 2 = bpf_jump 0x15 42 11 0"
  "seccomp_filter ! 3 = bpf_jump 0x15 435 10 0"
  "seccomp_filter ! 4 = bpf_jump 0x15 56 2 0"
  "seccomp_filter ! 5 = bpf_jump 0x15 41 3 0"
  "seccomp_filter ! 6 = bpf_stmt 0x06 0x7fff0000"
  "seccomp_filter ! 7 = bpf_stmt 0x20 16"
  "seccomp_filter ! 8 = bpf_jump 0x25 0x00800000 5 6"
  "seccomp_filter ! 9 = bpf_stmt 0x20 16"
  "seccomp_filter ! 10 = bpf_jump 0x15 2 1 0"
  "seccomp_filter ! 11 = bpf_jump 0x15 10 0 3"
  "seccomp_filter ! 12 = bpf_stmt 0x20 20"
  "seccomp_filter ! 13 = bpf_jump 0x25 1 0 1"
  "seccomp_filter ! 14 = bpf_stmt 0x06 0x7ff00000"
  "seccomp_filter ! 15 = bpf_stmt 0x06 0x7fff0000"
  by (simp_all add: seccomp_filter_def filter_consts instruction_codes)

text \<open>One rule per instruction of the filter.\<close>

lemma filter_rules:
  assumes m: "bpf_machine run"
  shows "run seccomp_filter d 0 acc = run seccomp_filter d (Suc 0) (data_word d 0)"
    and "run seccomp_filter d (Suc 0) acc = run seccomp_filter d (if acc = 3 then 14 else 2) acc"
    and "run seccomp_filter d 2 acc = run seccomp_filter d (if acc = 42 then 14 else 3) acc"
    and "run seccomp_filter d 3 acc = run seccomp_filter d (if acc = 435 then 14 else 4) acc"
    and "run seccomp_filter d 4 acc = run seccomp_filter d (if acc = 56 then 7 else 5) acc"
    and "run seccomp_filter d 5 acc = run seccomp_filter d (if acc = 41 then 9 else 6) acc"
    and "run seccomp_filter d 6 acc = 0x7fff0000"
    and "run seccomp_filter d 7 acc = run seccomp_filter d 8 (data_word d 16)"
    and "run seccomp_filter d 8 acc = run seccomp_filter d (if 0x00800000 < acc then 14 else 15) acc"
    and "run seccomp_filter d 9 acc = run seccomp_filter d 10 (data_word d 16)"
    and "run seccomp_filter d 10 acc = run seccomp_filter d (if acc = 2 then 12 else 11) acc"
    and "run seccomp_filter d 11 acc = run seccomp_filter d (if acc = 10 then 12 else 15) acc"
    and "run seccomp_filter d 12 acc = run seccomp_filter d 13 (data_word d 20)"
    and "run seccomp_filter d 13 acc = run seccomp_filter d (if 1 < acc then 14 else 15) acc"
    and "run seccomp_filter d 14 acc = 0x7ff00000"
    and "run seccomp_filter d 15 acc = 0x7fff0000"
  using bpf_load [OF m _ filter_nth(1), of d acc]
    bpf_jeq [OF m _ filter_nth(2), of d acc]
    bpf_jeq [OF m _ filter_nth(3), of d acc]
    bpf_jeq [OF m _ filter_nth(4), of d acc]
    bpf_jeq [OF m _ filter_nth(5), of d acc]
    bpf_jeq [OF m _ filter_nth(6), of d acc]
    bpf_ret [OF m _ filter_nth(7), of d acc]
    bpf_load [OF m _ filter_nth(8), of d acc]
    bpf_jgt [OF m _ filter_nth(9), of d acc]
    bpf_load [OF m _ filter_nth(10), of d acc]
    bpf_jeq [OF m _ filter_nth(11), of d acc]
    bpf_jeq [OF m _ filter_nth(12), of d acc]
    bpf_load [OF m _ filter_nth(13), of d acc]
    bpf_jgt [OF m _ filter_nth(14), of d acc]
    bpf_ret [OF m _ filter_nth(15), of d acc]
    bpf_ret [OF m _ filter_nth(16), of d acc]
  by (simp_all add: filter_length flip: numeral_2_eq_2)

section \<open>The verdict\<close>

text \<open>The calls the filter reports to the tracer.\<close>

definition filter_traces :: "seccomp_data \<Rightarrow> bool" where
  "filter_traces d \<longleftrightarrow>
     sd_nr d \<in> {3, 42, 435} \<or>
     sd_nr d = 56 \<and> 0x00800000 < low_half (sd_args d ! 0) \<or>
     sd_nr d = 41 \<and> low_half (sd_args d ! 0) \<in> {2, 10} \<and> 1 < high_half (sd_args d ! 0)"

lemma filter_run:
  assumes "bpf_machine run"
  shows "run seccomp_filter d 0 0 = (if filter_traces d then 0x7ff00000 else 0x7fff0000)"
proof -
  have w: "data_word d 0 = sd_nr d" "data_word d 16 = low_half (sd_args d ! 0)"
    "data_word d 20 = high_half (sd_args d ! 0)"
    by (simp_all add: data_word_def Let_def)
  show ?thesis by (auto simp: filter_rules [OF assms] w filter_traces_def)
qed

lemma bit_le_word:
  fixes w :: u32
  assumes "bit w n" shows "2 ^ n \<le> w"
proof -
  have "w AND 2 ^ n = 2 ^ n"
    using assms by (intro bit_word_eqI) (auto simp: bit_simps)
  then show ?thesis using word_and_le2 [of w "2 ^ n"] by simp
qed

lemma filter_traces_clone:
  assumes "sd_nr d = 56" and "sd_args d ! 0 AND 0x00800000 \<noteq> 0"
  shows "filter_traces d \<longleftrightarrow> low_half (sd_args d ! 0) \<noteq> 0x00800000"
proof -
  have "bit (sd_args d ! 0) 23"
    using assms(2) and_exp_eq_0_iff_not_bit [of "sd_args d ! 0" 23] by simp
  then have "bit (low_half (sd_args d ! 0)) 23" by (simp add: low_half_def bit_ucast_iff)
  then have "0x00800000 \<le> low_half (sd_args d ! 0)" using bit_le_word by fastforce
  then show ?thesis using assms(1) by (auto simp: filter_traces_def)
qed

section \<open>Properties\<close>

text \<open>
  C18. The filter's verdict on every system call: \<open>close\<close>, \<open>connect\<close> and
  \<open>clone3\<close> are always reported to the tracer, and everything but \<open>clone\<close>
  and \<open>socket\<close> otherwise never is. \<open>clone\<close> is reported when the lower half
  of its flags exceeds \<open>CLONE_UNTRACED\<close> as a number, and \<open>socket\<close> when its
  domain is IPv4 or IPv6 and the upper half of its domain argument exceeds 1.
\<close>

theorem seccomp_filter_verdict:
  assumes "bpf_machine run"
  shows "run seccomp_filter d 0 0 =
    (if sd_nr d \<in> {3, 42, 435} \<or>
        sd_nr d = 56 \<and> 0x00800000 < low_half (sd_args d ! 0) \<or>
        sd_nr d = 41 \<and> low_half (sd_args d ! 0) \<in> {2, 10} \<and> 1 < high_half (sd_args d ! 0)
     then 0x7ff00000 else 0x7fff0000)"
  using filter_run [OF assms] by (simp add: filter_traces_def)

theorem seccomp_filter_verdict_witness:
  "bpf_run seccomp_filter \<lparr>sd_nr = 42, sd_arch = 0, sd_ip = 0, sd_args = [5, 4096, 16]\<rparr> 0 0 = 0x7ff00000"
  using seccomp_filter_verdict [OF bpf_run_machine,
      of "\<lparr>sd_nr = 42, sd_arch = 0, sd_ip = 0, sd_args = [5, 4096, 16]\<rparr>"] by simp

text \<open>
  On a release string that starts with a major and a minor number, the filter is used exactly
  from version 4.8 on.
\<close>

lemma kernel_version_test:
  assumes "maj < 2 ^ 32" and "mn < 2 ^ 32"
  shows "is_available (Some (show_nat maj @ CHR ''.'' # show_nat mn @ CHR ''.'' # rest)) \<longleftrightarrow>
    4 < maj \<or> maj = 4 \<and> 8 \<le> mn"
proof -
  have dot: "CHR ''.'' \<notin> set (show_nat n)" for n by (rule show_nat_notin) simp
  have p: "parse_u32 (show_nat n) = Some (of_nat n)" if "n < 2 ^ 32" for n
    using that by (simp add: parse_u32_def parse_unsigned_show_nat)
  have u: "unat (of_nat n :: u32) = n" if "n < 2 ^ 32" for n using that by (simp add: unat_of_nat)
  have "(4 :: u32) < of_nat maj \<longleftrightarrow> 4 < maj" "(of_nat maj :: u32) = 4 \<longleftrightarrow> maj = 4"
    "(8 :: u32) \<le> of_nat mn \<longleftrightarrow> 8 \<le> mn"
    using u [OF assms(1)] u [OF assms(2)]
    by (simp_all add: word_less_nat_alt word_le_nat_alt word_unat_eq_iff)
  then show ?thesis
    by (simp add: is_available_def split_first [OF dot] p [OF assms(1)] p [OF assms(2)])
qed

end
