(* ===== verification/Net_Types.thy ===== *)
theory Net_Types
  imports Rust_Strings
begin

text \<open>
  The part of Rust's \<open>std::net\<close> the sources use: IP addresses, socket addresses, the
  predicates \<open>is_loopback\<close> and \<open>is_unspecified\<close>, and the textual forms
  (\<open>Display\<close> and \<open>FromStr\<close>). An \<open>Ipv4Addr\<close> is its
  \<open>u32\<close> value and an \<open>Ipv6Addr\<close> its \<open>u128\<close> value, as
  \<open>u32::from\<close> and \<open>u128::from\<close> give them; \<open>octets\<close> are the
  big-endian bytes. The parsers follow the recursive-descent parser of the standard library, group by
  group. The lemmas show that printing and parsing an IPv4 address or IPv4 socket address are
  inverse.
\<close>

section \<open>Addresses\<close>

type_synonym ipv4 = u32
type_synonym ipv6 = u128

datatype ip_addr = IpV4 ipv4 | IpV6 ipv6

datatype socket_addr =
    SockV4 (v4_ip: ipv4) (v4_port: u16)
  | SockV6 (v6_ip: ipv6) (v6_port: u16) (v6_flowinfo: u32) (v6_scope_id: u32)

fun sa_ip :: "socket_addr \<Rightarrow> ip_addr" where
  "sa_ip (SockV4 a p) = IpV4 a"
| "sa_ip (SockV6 a p fl sc) = IpV6 a"

fun sa_port :: "socket_addr \<Rightarrow> u16" where
  "sa_port (SockV4 a p) = p"
| "sa_port (SockV6 a p fl sc) = p"

fun is_v6 :: "socket_addr \<Rightarrow> bool" where
  "is_v6 (SockV4 a p) = False"
| "is_v6 (SockV6 a p fl sc) = True"

text \<open>\<open>SocketAddr::new\<close>.\<close>

fun socket_addr_new :: "ip_addr \<Rightarrow> u16 \<Rightarrow> socket_addr" where
  "socket_addr_new (IpV4 a) p = SockV4 a p"
| "socket_addr_new (IpV6 a) p = SockV6 a p 0 0"

definition v4_octets :: "ipv4 \<Rightarrow> u8 list" where
  "v4_octets = u32_to_be_bytes"

definition v4_from_octets :: "u8 list \<Rightarrow> ipv4" where
  "v4_from_octets = u32_from_be_bytes"

definition v6_octets :: "ipv6 \<Rightarrow> u8 list" where
  "v6_octets = u128_to_be_bytes"

definition v6_from_octets :: "u8 list \<Rightarrow> ipv6" where
  "v6_from_octets = u128_from_be_bytes"

interpretation v4_oct: byte_codec v4_octets v4_from_octets 4
  unfolding v4_octets_def v4_from_octets_def by (rule u32_be.byte_codec_axioms)

interpretation v6_oct: byte_codec v6_octets v6_from_octets 16
  unfolding v6_octets_def v6_from_octets_def by (rule u128_be.byte_codec_axioms)

lemmas octets_length [simp] = v4_oct.length_enc v6_oct.length_enc
lemmas octets_inverse [codec_simps] = v4_oct.dec_enc v6_oct.dec_enc

fun is_loopback :: "ip_addr \<Rightarrow> bool" where
  "is_loopback (IpV4 a) = (v4_octets a ! 0 = 127)"
| "is_loopback (IpV6 a) = (a = 1)"

fun is_unspecified :: "ip_addr \<Rightarrow> bool" where
  "is_unspecified (IpV4 a) = (a = 0)"
| "is_unspecified (IpV6 a) = (a = 0)"

lemma v4_octets_nth: "i < 4 \<Longrightarrow> v4_octets a ! i = ucast (drop_bit (8 * (3 - i)) a)"
  by (simp add: v4_octets_def u32_to_be_bytes_def rev_nth nth_to_le Suc_diff_Suc numeral_3_eq_3
      flip: numeral_3_eq_3)

lemma is_loopback_v4_iff: "is_loopback (IpV4 a) \<longleftrightarrow> drop_bit 24 a = 127"
proof -
  have "ucast (drop_bit 24 a) = (127 :: u8) \<longleftrightarrow> drop_bit 24 a = (127 :: u32)"
  proof
    assume *: "ucast (drop_bit 24 a) = (127 :: u8)"
    have "drop_bit 24 a = take_bit 8 (drop_bit 24 a)"
      by (rule bit_eqI) (auto simp: bit_simps dest: bit_imp_le_length)
    also have "\<dots> = ucast (ucast (drop_bit 24 a) :: u8)"
      by (rule bit_eqI) (auto simp: bit_simps)
    finally show "drop_bit 24 a = 127" using * by simp
  qed simp
  then show ?thesis by (simp add: v4_octets_nth)
qed

section \<open>Display\<close>

definition show_ipv4 :: "ipv4 \<Rightarrow> string" where
  "show_ipv4 a = join ''.'' (map (\<lambda>b. show_nat (unat b)) (v4_octets a))"

definition v6_segments :: "ipv6 \<Rightarrow> u16 list" where
  "v6_segments a = map (\<lambda>i. ucast (drop_bit (16 * (7 - i)) a)) [0..<8]"

definition v6_from_segments :: "u16 list \<Rightarrow> ipv6" where
  "v6_from_segments gs = foldl (\<lambda>acc g. push_bit 16 acc OR ucast g) 0 gs"

definition is_ipv4_mapped :: "ipv6 \<Rightarrow> bool" where
  "is_ipv4_mapped a = (drop_bit 32 a = 0xffff)"

text \<open>The first longest run of zero segments: its start and its length.\<close>

fun zero_span :: "nat \<Rightarrow> nat \<times> nat \<Rightarrow> nat \<times> nat \<Rightarrow> u16 list \<Rightarrow> nat \<times> nat" where
  "zero_span i longest current [] = longest"
| "zero_span i longest current (g # gs) =
     (if g = 0
      then (let cur = (if snd current = 0 then (i, 1) else (fst current, snd current + 1))
            in zero_span (i + 1) (if snd cur > snd longest then cur else longest) cur gs)
      else zero_span (i + 1) longest (0, 0) gs)"

definition show_groups :: "u16 list \<Rightarrow> string" where
  "show_groups gs = join '':'' (map (\<lambda>g. show_hex (unat g)) gs)"

definition show_ipv6 :: "ipv6 \<Rightarrow> string" where
  "show_ipv6 a =
     (if is_ipv4_mapped a then ''::ffff:'' @ show_ipv4 (ucast a)
      else (let gs = v6_segments a; z = zero_span 0 (0, 0) (0, 0) gs
            in if snd z > 1
               then show_groups (take (fst z) gs) @ ''::'' @ show_groups (drop (fst z + snd z) gs)
               else show_groups gs))"

fun show_socket_addr :: "socket_addr \<Rightarrow> string" where
  "show_socket_addr (SockV4 a p) = show_ipv4 a @ '':'' @ show_nat (unat p)"
| "show_socket_addr (SockV6 a p fl sc) =
     (if sc = 0 then ''['' @ show_ipv6 a @ '']:'' @ show_nat (unat p)
      else ''['' @ show_ipv6 a @ ''%'' @ show_nat (unat sc) @ '']:'' @ show_nat (unat p))"

section \<open>FromStr\<close>

text \<open>
  A reader takes the remaining input and gives the value read with what is left, or \<open>None\<close>
  with the input untouched (\<open>read_atomically\<close>).
\<close>

type_synonym 'a reader = "string \<Rightarrow> ('a \<times> string) option"

definition is_digit :: "nat \<Rightarrow> char \<Rightarrow> bool" where
  "is_digit radix c = (to_digit radix c \<noteq> None)"

definition digits_value :: "nat \<Rightarrow> string \<Rightarrow> nat" where
  "digits_value radix ds =
     foldl (\<lambda>acc c. acc * radix + (case to_digit radix c of None \<Rightarrow> 0 | Some d \<Rightarrow> d)) 0 ds"

definition read_number :: "nat \<Rightarrow> nat option \<Rightarrow> bool \<Rightarrow> nat \<Rightarrow> nat reader" where
  "read_number radix max_digits allow_zero_prefix bound s =
     (let ds = takeWhile (is_digit radix) s; rest = dropWhile (is_digit radix) s
      in if (case max_digits of None \<Rightarrow> False | Some m \<Rightarrow> length ds > m) then None
         else if ds = [] then None
         else if \<not> allow_zero_prefix \<and> hd ds = CHR ''0'' \<and> length ds > 1 then None
         else if digits_value radix ds > bound then None
         else Some (digits_value radix ds, rest))"

definition read_given_char :: "char \<Rightarrow> unit reader" where
  "read_given_char c s = (case s of [] \<Rightarrow> None | d # rest \<Rightarrow> if d = c then Some ((), rest) else None)"

definition read_separator :: "char \<Rightarrow> nat \<Rightarrow> 'a reader \<Rightarrow> 'a reader" where
  "read_separator sep i inner s =
     (if i > 0 then (case read_given_char sep s of None \<Rightarrow> None | Some (_, rest) \<Rightarrow> inner rest)
      else inner s)"

fun read_ipv4_groups :: "nat \<Rightarrow> nat \<Rightarrow> u8 list reader" where
  "read_ipv4_groups 0 i s = Some ([], s)"
| "read_ipv4_groups (Suc n) i s =
     (case read_separator CHR ''.'' i (read_number 10 (Some 3) False 255) s of
        None \<Rightarrow> None
      | Some (v, rest) \<Rightarrow>
          (case read_ipv4_groups n (i + 1) rest of
             None \<Rightarrow> None
           | Some (vs, rest') \<Rightarrow> Some (of_nat v # vs, rest')))"

definition read_ipv4_addr :: "ipv4 reader" where
  "read_ipv4_addr s =
     (case read_ipv4_groups 4 0 s of None \<Rightarrow> None
      | Some (gs, rest) \<Rightarrow> Some (v4_from_octets gs, rest))"

text \<open>
  \<open>read_groups limit i\<close> reads groups \<open>i, \<dots>, limit - 1\<close> of an IPv6
  address; a trailing embedded IPv4 address fills two groups. It never fails: it stops at the first
  unreadable group.
\<close>

fun read_groups :: "nat \<Rightarrow> nat \<Rightarrow> nat \<Rightarrow> string \<Rightarrow> u16 list \<times> bool \<times> string" where
  "read_groups 0 limit i s = ([], False, s)"
| "read_groups (Suc n) limit i s =
     (case (if i < limit - 1 then read_separator CHR '':'' i read_ipv4_addr s else None) of
        Some (v4, rest) \<Rightarrow>
          ([u16_from_be_bytes (take 2 (v4_octets v4)), u16_from_be_bytes (drop 2 (v4_octets v4))],
           True, rest)
      | None \<Rightarrow>
          (case read_separator CHR '':'' i (read_number 16 (Some 4) True 65535) s of
             None \<Rightarrow> ([], False, s)
           | Some (g, rest) \<Rightarrow>
               (case read_groups n limit (i + 1) rest of
                  (gs, v4, rest') \<Rightarrow> (of_nat g # gs, v4, rest'))))"

definition read_ipv6_addr :: "ipv6 reader" where
  "read_ipv6_addr s =
     (case read_groups 8 8 0 s of
        (head, head_ipv4, rest) \<Rightarrow>
          if length head = 8 then Some (v6_from_segments head, rest)
          else if head_ipv4 then None
          else (case read_given_char CHR '':'' rest of None \<Rightarrow> None
                | Some (_, rest1) \<Rightarrow>
                    (case read_given_char CHR '':'' rest1 of None \<Rightarrow> None
                     | Some (_, rest2) \<Rightarrow>
                         (let limit = 8 - (length head + 1)
                          in case read_groups limit limit 0 rest2 of
                               (tail, _, rest3) \<Rightarrow>
                                 Some (v6_from_segments
                                         (head @ replicate (8 - length head - length tail) 0 @ tail),
                                       rest3)))))"

definition parse_with :: "'a reader \<Rightarrow> string \<Rightarrow> 'a option" where
  "parse_with inner s =
     (case inner s of None \<Rightarrow> None | Some (v, rest) \<Rightarrow> if rest = [] then Some v else None)"

definition read_ip_addr :: "ip_addr reader" where
  "read_ip_addr s =
     (case read_ipv4_addr s of Some (a, rest) \<Rightarrow> Some (IpV4 a, rest)
      | None \<Rightarrow> map_option (\<lambda>(a, rest). (IpV6 a, rest)) (read_ipv6_addr s))"

definition parse_ip_addr :: "string \<Rightarrow> ip_addr option" where
  "parse_ip_addr = parse_with read_ip_addr"

definition read_port :: "u16 reader" where
  "read_port s =
     (case read_given_char CHR '':'' s of None \<Rightarrow> None
      | Some (_, rest) \<Rightarrow>
          map_option (\<lambda>(v, r). (of_nat v, r)) (read_number 10 None True 65535 rest))"

definition read_scope_id :: "u32 reader" where
  "read_scope_id s =
     (case read_given_char CHR ''%'' s of None \<Rightarrow> None
      | Some (_, rest) \<Rightarrow>
          map_option (\<lambda>(v, r). (of_nat v, r)) (read_number 10 None True 4294967295 rest))"

definition read_socket_addr_v4 :: "socket_addr reader" where
  "read_socket_addr_v4 s =
     (case read_ipv4_addr s of None \<Rightarrow> None
      | Some (a, rest) \<Rightarrow> map_option (\<lambda>(p, r). (SockV4 a p, r)) (read_port rest))"

definition read_socket_addr_v6 :: "socket_addr reader" where
  "read_socket_addr_v6 s =
     (case read_given_char CHR ''['' s of None \<Rightarrow> None
      | Some (_, r1) \<Rightarrow>
     (case read_ipv6_addr r1 of None \<Rightarrow> None
      | Some (a, r2) \<Rightarrow>
     (case (case read_scope_id r2 of Some x \<Rightarrow> x | None \<Rightarrow> (0, r2)) of
        (sc, r3) \<Rightarrow>
     (case read_given_char CHR '']'' r3 of None \<Rightarrow> None
      | Some (_, r4) \<Rightarrow> map_option (\<lambda>(p, r). (SockV6 a p 0 sc, r)) (read_port r4)))))"

definition parse_socket_addr :: "string \<Rightarrow> socket_addr option" where
  "parse_socket_addr = parse_with (\<lambda>s.
     case read_socket_addr_v4 s of Some x \<Rightarrow> Some x | None \<Rightarrow> read_socket_addr_v6 s)"

section \<open>Printing and parsing IPv4 addresses are inverse\<close>

lemma is_digit_10_iff: "is_digit 10 c \<longleftrightarrow> 48 \<le> (of_char c :: nat) \<and> (of_char c :: nat) \<le> 57"
  by (auto simp: is_digit_def to_digit_def Let_def)

lemma show_nat_digits: "\<forall>c\<in>set (show_nat n). is_digit 10 c"
  using show_nat_chars by (auto simp: is_digit_10_iff)

lemma digits_value_snoc:
  "digits_value r (ds @ [c]) =
     digits_value r ds * r + (case to_digit r c of None \<Rightarrow> 0 | Some d \<Rightarrow> d)"
  by (simp add: digits_value_def)

lemma digits_value_show_nat: "digits_value 10 (show_nat n) = n"
proof (induction n rule: show_nat.induct)
  case (1 n)
  show ?case
  proof (cases "n < 10")
    case True
    then show ?thesis
      by (simp add: show_nat.simps [of n] digits_value_def to_digit_digit_char)
  next
    case False
    with "1.IH" show ?thesis
      by (simp add: show_nat.simps [of n] digits_value_snoc to_digit_digit_char)
  qed
qed

lemma hd_show_nat_zero: "hd (show_nat n) = CHR ''0'' \<Longrightarrow> length (show_nat n) \<le> 1"
proof (induction n rule: show_nat.induct)
  case (1 n)
  show ?case
  proof (cases "n < 10")
    case True
    then show ?thesis by (simp add: show_nat.simps [of n])
  next
    case False
    let ?m = "n div 10"
    have hd: "hd (show_nat ?m) = CHR ''0''"
      using "1.prems" False by (simp add: show_nat.simps [of n])
    with "1.IH" False have len: "length (show_nat ?m) \<le> 1" by simp
    then have m: "?m < 10"
      by (rule contrapos_pp) (simp add: show_nat.simps [of ?m])
    then have "(of_char (digit_char ?m) :: nat) = of_char (CHR ''0'')"
      using hd by (simp add: show_nat.simps [of ?m])
    then have "?m = 0" using m by simp
    with False show ?thesis by simp
  qed
qed

lemma length_show_nat_3:
  assumes "n < 1000"
  shows "length (show_nat n) \<le> 3"
proof -
  have "show_nat n = (if n < 10 then [digit_char n]
      else if n div 10 < 10 then [digit_char (n div 10), digit_char (n mod 10)]
      else [digit_char (n div 10 div 10), digit_char (n div 10 mod 10), digit_char (n mod 10)])"
    using assms
    by (simp add: show_nat.simps [of n] show_nat.simps [of "n div 10"]
        show_nat.simps [of "n div 10 div 10"])
  then show ?thesis by (simp split: if_splits)
qed

lemma takeWhile_show_nat:
  assumes "rest = [] \<or> \<not> is_digit 10 (hd rest)"
  shows "takeWhile (is_digit 10) (show_nat n @ rest) = show_nat n"
    and "dropWhile (is_digit 10) (show_nat n @ rest) = rest"
proof -
  have "takeWhile (is_digit 10) rest = []" "dropWhile (is_digit 10) rest = rest"
    using assms by (cases rest; auto)+
  then show "takeWhile (is_digit 10) (show_nat n @ rest) = show_nat n"
    and "dropWhile (is_digit 10) (show_nat n @ rest) = rest"
    using show_nat_digits [of n] by (auto simp: takeWhile_append2 dropWhile_append2)
qed

lemma read_number_show_nat:
  assumes "rest = [] \<or> \<not> is_digit 10 (hd rest)" and "n \<le> bound"
    and "case m of None \<Rightarrow> True | Some k \<Rightarrow> length (show_nat n) \<le> k"
  shows "read_number 10 m z bound (show_nat n @ rest) = Some (n, rest)"
  using assms(2,3) hd_show_nat_zero [of n]
  by (auto simp: read_number_def Let_def takeWhile_show_nat [OF assms(1)]
      digits_value_show_nat split: option.splits)

lemma read_octet:
  assumes "rest = [] \<or> \<not> is_digit 10 (hd rest)"
  shows "read_number 10 (Some 3) False 255 (show_nat (unat (b :: u8)) @ rest) =
           Some (unat b, rest)"
proof -
  have "unat b < 2 ^ LENGTH(8)" by (rule unsigned_less)
  then show ?thesis using length_show_nat_3 [of "unat b"] assms by (simp add: read_number_show_nat)
qed

lemma v4_octets_list: "\<exists>a b c d. v4_octets x = [a, b, c, d]"
proof -
  have "length (v4_octets x) = Suc (Suc (Suc (Suc 0)))" by simp
  then show ?thesis by (simp add: length_Suc_conv del: octets_length) blast
qed

lemma dot_not_digit [simp]: "\<not> is_digit 10 CHR ''.''" "\<not> is_digit 10 CHR '':''"
  by (simp_all add: is_digit_10_iff)

lemma read_show_ipv4:
  assumes "rest = [] \<or> \<not> is_digit 10 (hd rest)"
  shows "read_ipv4_addr (show_ipv4 x @ rest) = Some (x, rest)"
proof -
  obtain a b c d where oct: "v4_octets x = [a, b, c, d]" using v4_octets_list by blast
  have x: "v4_from_octets [a, b, c, d] = x" using v4_oct.dec_enc [of x] by (simp add: oct)
  have four: "(4 :: nat) = Suc (Suc (Suc (Suc 0)))" by simp
  have "read_ipv4_groups 4 0 (show_ipv4 x @ rest) = Some ([a, b, c, d], rest)"
    unfolding four using assms
    by (simp add: show_ipv4_def oct read_separator_def read_given_char_def read_octet)
  then show ?thesis by (simp add: read_ipv4_addr_def x)
qed

lemma parse_show_ipv4: "parse_ip_addr (show_ipv4 x) = Some (IpV4 x)"
  using read_show_ipv4 [of "[]" x]
  by (simp add: parse_ip_addr_def parse_with_def read_ip_addr_def)

lemma parse_show_socket_v4: "parse_socket_addr (show_socket_addr (SockV4 x p)) = Some (SockV4 x p)"
proof -
  have "unat p < 2 ^ LENGTH(16)" by (rule unsigned_less)
  then have p: "unat p \<le> 65535" by simp
  have port: "read_port (CHR '':'' # show_nat (unat p)) = Some (p, [])"
    using read_number_show_nat [of "[]" "unat p" 65535 None True] p
    by (simp add: read_port_def read_given_char_def)
  have "read_ipv4_addr (show_ipv4 x @ CHR '':'' # show_nat (unat p)) =
      Some (x, CHR '':'' # show_nat (unat p))"
    by (rule read_show_ipv4) simp
  then show ?thesis
    by (simp add: parse_socket_addr_def parse_with_def read_socket_addr_v4_def port)
qed

end
