(* ===== verification/Ipv6_Text.thy ===== *)
theory Ipv6_Text
  imports Net_Types
begin

text \<open>
  Printing and parsing IPv6 addresses are inverse: the readers of \<open>Net_Types\<close> give back
  every address from its \<open>Display\<close> form, with a run of zero groups compressed and with
  an embedded IPv4 address. With the IPv4 case of \<open>Net_Types\<close> this gives the round trip
  for IP addresses and socket addresses; a printed socket address has no flow information, which
  comes back as zero.
\<close>

section \<open>Hexadecimal numbers\<close>

lemma digit_char_16:
  assumes "d < 16"
  shows "to_digit 16 (digit_char d) = Some d" and "digit_char d \<noteq> CHR ''.''"
proof -
  have d: "(of_char (digit_char d) :: nat) = (if d < 10 then 48 + d else 87 + d)"
    using assms by (auto simp: digit_char_def)
  then show "to_digit 16 (digit_char d) = Some d" using assms by (auto simp: to_digit_def Let_def)
  have "(of_char (digit_char d) :: nat) \<noteq> of_char CHR ''.''" unfolding d using assms by simp
  then show "digit_char d \<noteq> CHR ''.''" by metis
qed

lemma show_hex_nonempty [simp]: "show_hex n \<noteq> []"
  by (subst show_hex.simps) simp

lemma show_hex_digits: "c \<in> set (show_hex n) \<Longrightarrow> \<exists>d < 16. c = digit_char d"
proof (induction n rule: show_hex.induct)
  case (1 n)
  show ?case
  proof (cases "n < 16")
    case True
    then show ?thesis using "1.prems" by (simp add: show_hex.simps [of n]) blast
  next
    case False
    then have "c \<in> set (show_hex (n div 16)) \<or> c = digit_char (n mod 16)"
      using "1.prems" by (auto simp: show_hex.simps [of n])
    then show ?thesis using "1.IH" [OF False] mod_less_divisor [of 16 n] by (metis zero_less_numeral)
  qed
qed

lemma show_hex_is_digit: "c \<in> set (show_hex n) \<Longrightarrow> is_digit 16 c"
  using show_hex_digits digit_char_16(1) by (fastforce simp: is_digit_def)

lemma digits_value_show_hex: "digits_value 16 (show_hex n) = n"
proof (induction n rule: show_hex.induct)
  case (1 n)
  show ?case
  proof (cases "n < 16")
    case True
    then show ?thesis by (simp add: show_hex.simps [of n] digits_value_def digit_char_16)
  next
    case False
    with "1.IH" show ?thesis by (simp add: show_hex.simps [of n] digits_value_snoc digit_char_16)
  qed
qed

lemma length_show_hex: "n < 16 ^ Suc k \<Longrightarrow> length (show_hex n) \<le> Suc k"
proof (induction k arbitrary: n)
  case (Suc k)
  then have "n div 16 < 16 ^ Suc k" by (auto intro: less_mult_imp_div_less)
  then show ?case using Suc.IH [of "n div 16"] by (simp add: show_hex.simps [of n])
qed (simp add: show_hex.simps)

text \<open>A text after which no group can go on.\<close>

definition group_end :: "string \<Rightarrow> bool" where
  "group_end s \<longleftrightarrow> s = [] \<or> \<not> is_digit 16 (hd s) \<and> hd s \<noteq> CHR ''.''"

lemma colon_not_hex [simp]: "\<not> is_digit 16 CHR '':''"
  by (simp add: is_digit_def to_digit_def)

lemma group_end_colon [simp]: "group_end (CHR '':'' # s)"
  by (simp add: group_end_def)

lemma takeWhile_show_hex:
  assumes "group_end rest"
  shows "takeWhile (is_digit 16) (show_hex n @ rest) = show_hex n"
    and "dropWhile (is_digit 16) (show_hex n @ rest) = rest"
proof -
  have "takeWhile (is_digit 16) rest = []" "dropWhile (is_digit 16) rest = rest"
    using assms by (cases rest; auto simp: group_end_def)+
  then show "takeWhile (is_digit 16) (show_hex n @ rest) = show_hex n"
    and "dropWhile (is_digit 16) (show_hex n @ rest) = rest"
    using show_hex_is_digit [of _ n] by (auto simp: takeWhile_append2 dropWhile_append2)
qed

lemma read_group:
  assumes "group_end rest"
  shows "read_number 16 (Some 4) True 65535 (show_hex (unat (g :: u16)) @ rest) = Some (unat g, rest)"
proof -
  have g: "unat g < 2 ^ LENGTH(16)" by (rule unsigned_less)
  then have "length (show_hex (unat g)) \<le> Suc 3" by (intro length_show_hex) simp
  then show ?thesis using g
    by (simp add: read_number_def Let_def takeWhile_show_hex [OF assms] digits_value_show_hex)
qed

text \<open>Where no dot follows the decimal digits, there is no IPv4 address.\<close>

lemma read_ipv4_no_dot:
  assumes "dropWhile (is_digit 10) s = [] \<or> hd (dropWhile (is_digit 10) s) \<noteq> CHR ''.''"
  shows "read_ipv4_addr s = None"
proof -
  have four: "(4 :: nat) = Suc (Suc (Suc (Suc 0)))" by simp
  have "read_ipv4_groups 4 0 s = None"
  proof (cases "read_number 10 (Some 3) False 255 s")
    case None
    then show ?thesis by (simp add: four read_separator_def)
  next
    case (Some a)
    then obtain v where v: "read_number 10 (Some 3) False 255 s = Some (v, dropWhile (is_digit 10) s)"
      by (auto simp: read_number_def Let_def split: if_splits)
    then show ?thesis using assms
      by (cases "dropWhile (is_digit 10) s") (simp_all add: four read_separator_def read_given_char_def)
  qed
  then show ?thesis by (simp add: read_ipv4_addr_def)
qed

lemma hex_not_ipv4:
  assumes rest: "group_end rest"
  shows "read_ipv4_addr (show_hex n @ rest) = None"
proof (rule read_ipv4_no_dot)
  let ?d = "dropWhile (is_digit 10)"
  have chars: "c \<noteq> CHR ''.''" if "c \<in> set (show_hex n)" for c using that show_hex_digits digit_char_16(2) by metis
  have "?d rest = rest"
    using rest by (cases rest) (auto simp: group_end_def is_digit_def to_digit_def Let_def split: if_splits)
  moreover have "hd (?d (show_hex n)) \<in> set (show_hex n)" if "?d (show_hex n) \<noteq> []"
    using that by (meson hd_in_set set_dropWhileD)
  ultimately show "?d (show_hex n @ rest) = [] \<or> hd (?d (show_hex n @ rest)) \<noteq> CHR ''.''"
    using rest chars by (auto simp: group_end_def dropWhile_append)
qed

lemma colon_not_ipv4: "read_ipv4_addr (CHR '':'' # s) = None"
  by (rule read_ipv4_no_dot) simp

section \<open>Groups\<close>

text \<open>The groups after the first one.\<close>

definition more_groups :: "u16 list \<Rightarrow> string" where
  "more_groups gs = concat (map (\<lambda>g. '':'' @ show_hex (unat g)) gs)"

lemma show_groups_Cons: "show_groups (g # gs) = show_hex (unat g) @ more_groups gs"
  by (induction gs arbitrary: g) (simp_all add: show_groups_def more_groups_def)

text \<open>What stops the reader before all groups are read: the end, or a double colon.\<close>

definition groups_end :: "string \<Rightarrow> bool" where
  "groups_end s \<longleftrightarrow> group_end s \<and> (s \<noteq> [] \<and> hd s = CHR '':'' \<longrightarrow> tl s \<noteq> [] \<and> hd (tl s) = CHR '':'')"

lemma groups_end_double [simp]: "groups_end (CHR '':'' # CHR '':'' # s)"
  by (simp add: groups_end_def)

lemma read_number_none: "s = [] \<or> \<not> is_digit r (hd s) \<Longrightarrow> read_number r m z b s = None"
  by (cases s) (auto simp: read_number_def)

lemma group_end_more: "group_end rest \<Longrightarrow> group_end (more_groups gs @ rest)"
  by (cases gs) (simp_all add: more_groups_def)

lemma group_end_not_ipv4: "group_end s \<Longrightarrow> read_ipv4_addr s = None"
  by (rule read_ipv4_no_dot, cases s)
    (auto simp: group_end_def is_digit_def to_digit_def Let_def split: if_splits)

lemma read_groups_stop:
  assumes "groups_end rest"
  shows "read_groups n limit i rest = ([], False, rest)"
proof (cases n)
  case (Suc m)
  have e: "group_end rest" using assms by (simp add: groups_end_def)
  show ?thesis
  proof (cases "i > 0 \<and> rest \<noteq> [] \<and> hd rest = CHR '':''")
    case True
    then obtain s where "rest = CHR '':'' # CHR '':'' # s"
      using assms by (cases rest; cases "tl rest") (auto simp: groups_end_def)
    then show ?thesis using True Suc
      by (simp add: read_separator_def read_given_char_def colon_not_ipv4 read_number_none)
  next
    case False
    have "read_separator CHR '':'' i read_ipv4_addr rest = None"
      using False group_end_not_ipv4 [OF e]
      by (auto simp: read_separator_def read_given_char_def split: list.splits)
    moreover have "read_separator CHR '':'' i (read_number 16 (Some 4) True 65535) rest = None"
      using False read_number_none [of rest 16] e
      by (auto simp: read_separator_def read_given_char_def group_end_def split: list.splits)
    ultimately show ?thesis using Suc by simp
  qed
qed simp

lemma read_more_groups:
  assumes "0 < i" and "group_end rest"
  shows "length gs \<le> n \<Longrightarrow> length gs < n \<longrightarrow> groups_end rest \<Longrightarrow>
    read_groups n limit i (more_groups gs @ rest) = (gs, False, rest)"
  using assms(1)
proof (induction gs arbitrary: n i)
  case Nil
  then show ?case using read_groups_stop [of rest n limit i] by (cases "n = 0") (auto simp: more_groups_def)
next
  case (Cons g gs)
  obtain m where n: "n = Suc m" using Cons.prems(1) by (cases n) auto
  let ?more = "more_groups gs @ rest"
  have e: "group_end ?more" using assms(2) by (rule group_end_more)
  have t: "more_groups (g # gs) @ rest = CHR '':'' # show_hex (unat g) @ ?more" by (simp add: more_groups_def)
  have "read_groups m limit (i + 1) ?more = (gs, False, rest)"
    using Cons.IH [of m "i + 1"] Cons.prems n by simp
  then show ?case using Cons.prems(3) n
    by (simp add: t read_separator_def read_given_char_def hex_not_ipv4 [OF e] read_group [OF e])
qed

lemma read_show_groups:
  assumes "group_end rest" and "length gs \<le> n" and "length gs < n \<longrightarrow> groups_end rest"
  shows "read_groups n limit 0 (show_groups gs @ rest) = (gs, False, rest)"
proof (cases gs)
  case Nil
  then show ?thesis using assms(3) read_groups_stop [of rest n limit 0]
    by (cases "n = 0") (auto simp: show_groups_def)
next
  case (Cons g hs)
  obtain m where n: "n = Suc m" using assms(2) Cons by (cases n) auto
  let ?more = "more_groups hs @ rest"
  have e: "group_end ?more" using assms(1) by (rule group_end_more)
  have "read_groups m limit (Suc 0) ?more = (hs, False, rest)"
    using assms n Cons by (intro read_more_groups) auto
  then show ?thesis using Cons n
    by (simp add: show_groups_Cons read_separator_def hex_not_ipv4 [OF e] read_group [OF e])
qed

section \<open>Segments\<close>

lemma next_segment:
  "push_bit 16 (drop_bit (m + 16) a) OR ucast (ucast (drop_bit m a) :: u16) = drop_bit m (a :: ipv6)"
proof (rule bit_word_eqI)
  fix n assume n: "n < LENGTH(128)"
  show "bit (push_bit 16 (drop_bit (m + 16) a) OR ucast (ucast (drop_bit m a) :: u16)) n = bit (drop_bit m a) n"
  proof (cases "n < 16")
    case True
    then show ?thesis using n by (auto simp: bit_simps)
  next
    case False
    then obtain k where "n = 16 + k" by (metis le_add_diff_inverse not_less)
    then show ?thesis using n by (auto simp: bit_simps add.assoc)
  qed
qed

lemma v6_segments_list:
  "v6_segments a = map (\<lambda>m. ucast (drop_bit m a)) [112, 96, 80, 64, 48, 32, 16, 0]"
  by (simp add: v6_segments_def upt_rec)

lemma length_v6_segments [simp]: "length (v6_segments a) = 8"
  by (simp add: v6_segments_def)

lemma v6_segments_inverse: "v6_from_segments (v6_segments a) = a"
proof -
  have top: "ucast (ucast (drop_bit 112 a) :: u16) = drop_bit 112 a"
    using next_segment [of 112 a] by (simp add: drop_bit_word_beyond)
  show ?thesis
    using next_segment [of 96 a] next_segment [of 80 a] next_segment [of 64 a] next_segment [of 48 a]
      next_segment [of 32 a] next_segment [of 16 a] next_segment [of 0 a] top
    by (simp add: v6_from_segments_def v6_segments_list)
qed

text \<open>The two groups of an embedded IPv4 address.\<close>

lemma v4_halves:
  "u16_from_be_bytes (take 2 (v4_octets w)) = ucast (drop_bit 16 w)"
  "u16_from_be_bytes (drop 2 (v4_octets w)) = ucast w"
proof -
  have "ucast (drop_bit 8 (ucast (drop_bit 16 w) :: u16)) = (ucast (drop_bit 24 w) :: u8)"
    "ucast (ucast (drop_bit 16 w) :: u16) = (ucast (drop_bit 16 w) :: u8)"
    "ucast (drop_bit 8 (ucast w :: u16)) = (ucast (drop_bit 8 w) :: u8)"
    "ucast (ucast w :: u16) = (ucast w :: u8)"
    by (rule bit_eqI; auto simp: bit_simps)+
  then have "take 2 (v4_octets w) = u16_to_be_bytes (ucast (drop_bit 16 w))"
    "drop 2 (v4_octets w) = u16_to_be_bytes (ucast w)"
    by (simp_all add: v4_octets_def u32_to_be_bytes_def u16_to_be_bytes_def to_le_def upt_rec)
  then show "u16_from_be_bytes (take 2 (v4_octets w)) = ucast (drop_bit 16 w)"
    "u16_from_be_bytes (drop 2 (v4_octets w)) = ucast w"
    by (simp_all add: u16_be.dec_enc)
qed

lemma mapped_segments:
  assumes "is_ipv4_mapped a"
  shows "v6_segments a = replicate 5 0 @ [0xffff, ucast (drop_bit 16 (ucast a :: ipv4)), ucast (ucast a :: ipv4)]"
proof -
  have a: "drop_bit 32 a = 0xffff" using assms by (simp add: is_ipv4_mapped_def)
  have up: "drop_bit (n + 32) a = drop_bit n 0xffff" for n using a drop_bit_drop_bit [of n 32 a] by simp
  have "drop_bit 112 a = 0" "drop_bit 96 a = 0" "drop_bit 80 a = 0" "drop_bit 64 a = 0" "drop_bit 48 a = 0"
    using up [of 80] up [of 64] up [of 48] up [of 32] up [of 16] by simp_all
  moreover have "ucast (drop_bit 16 (ucast a :: ipv4)) = (ucast (drop_bit 16 a) :: u16)"
    "ucast (ucast a :: ipv4) = (ucast a :: u16)"
    by (rule bit_eqI; auto simp: bit_simps)+
  moreover have "replicate 5 (0 :: u16) = [0, 0, 0, 0, 0]" by (simp add: eval_nat_numeral)
  ultimately show ?thesis using a by (simp add: v6_segments_list)
qed

section \<open>The run of zeros\<close>

definition zeros_at :: "u16 list \<Rightarrow> nat \<times> nat \<Rightarrow> bool" where
  "zeros_at gs z \<longleftrightarrow> fst z + snd z \<le> length gs \<and> (\<forall>k < snd z. gs ! (fst z + k) = 0)"

lemma zero_span_sound:
  assumes "zeros_at (ps @ gs) longest" and "zeros_at (ps @ gs) current"
    and "snd current \<noteq> 0 \<Longrightarrow> fst current + snd current = length ps"
  shows "zeros_at (ps @ gs) (zero_span (length ps) longest current gs)"
  using assms
proof (induction gs arbitrary: ps longest current)
  case (Cons g gs)
  define cur where "cur = (if snd current = 0 then (length ps, 1) else (fst current, snd current + 1))"
  show ?case
  proof (cases "g = 0")
    case True
    have cur: "zeros_at ((ps @ [g]) @ gs) cur"
    proof (cases "snd current = 0")
      case False
      then have "fst current + snd current = length ps" by (rule Cons.prems(3))
      then have "(ps @ [g] @ gs) ! (fst current + snd current) = 0" using True by (simp add: nth_append)
      then show ?thesis
        using Cons.prems(2) False \<open>fst current + snd current = length ps\<close>
        by (auto simp: zeros_at_def cur_def less_Suc_eq)
    qed (simp add: zeros_at_def cur_def True)
    have "fst cur + snd cur = length (ps @ [g])" using Cons.prems(3) by (auto simp: cur_def)
    moreover have "zeros_at ((ps @ [g]) @ gs) (if snd cur > snd longest then cur else longest)"
      using cur Cons.prems(1) by simp
    ultimately show ?thesis
      using Cons.IH [of "ps @ [g]" _ cur] cur True by (simp add: Let_def cur_def [symmetric])
  next
    case False
    then show ?thesis using Cons.IH [of "ps @ [g]" longest "(0, 0)"] Cons.prems(1)
      by (simp add: zeros_at_def)
  qed
qed simp

lemma zeros_expand:
  assumes "zeros_at gs (z, n)"
  shows "take z gs @ replicate n 0 @ drop (z + n) gs = gs"
proof -
  have "take n (drop z gs) = replicate n 0"
    using assms by (intro nth_equalityI) (auto simp: zeros_at_def)
  then show ?thesis by (metis append_take_drop_id drop_drop add.commute)
qed

section \<open>Reading back what is printed\<close>

lemma read_ipv6_plain:
  assumes "group_end rest" and "length gs = 8"
  shows "read_ipv6_addr (show_groups gs @ rest) = Some (v6_from_segments gs, rest)"
  using read_show_groups [of rest gs 8 8] assms by (simp add: read_ipv6_addr_def)

lemma read_ipv6_compressed:
  assumes "groups_end rest" and "length hs + length ts < 8 - 1"
  shows "read_ipv6_addr (show_groups hs @ ''::'' @ show_groups ts @ rest) =
    Some (v6_from_segments (hs @ replicate (8 - length hs - length ts) 0 @ ts), rest)"
proof -
  have e: "group_end rest" using assms(1) by (simp add: groups_end_def)
  have h: "read_groups 8 8 0 (show_groups hs @ ''::'' @ show_groups ts @ rest) =
      (hs, False, ''::'' @ show_groups ts @ rest)"
    using assms(2) by (intro read_show_groups) auto
  have "read_groups n n 0 (show_groups ts @ rest) = (ts, False, rest)" if "length ts < n" for n
    using assms(1) e that by (intro read_show_groups) auto
  from this [of "8 - (length hs + 1)"] show ?thesis
    using assms(2) h by (simp add: read_ipv6_addr_def read_given_char_def Let_def)
qed

lemma read_ipv6_mapped:
  assumes "is_ipv4_mapped a" and "group_end rest"
  shows "read_ipv6_addr (''::ffff:'' @ show_ipv4 (ucast a) @ rest) = Some (a, rest)"
proof -
  let ?v4 = "ucast a :: ipv4" and ?t = "'':'' @ show_ipv4 (ucast a) @ rest"
  have dec: "rest = [] \<or> \<not> is_digit 10 (hd rest)"
    using assms(2) by (auto simp: group_end_def is_digit_def to_digit_def Let_def split: if_splits)
  have ffff: "show_hex (unat (0xffff :: u16)) = ''ffff''"
    by (simp add: show_hex.simps digit_char_def char_of_def bit_0)
  have e: "group_end ?t" by simp
  have g: "read_number 16 (Some 4) True 65535 (''ffff'' @ ?t) = Some (0xffff, ?t)"
    "read_ipv4_addr (''ffff'' @ ?t) = None"
    using read_group [OF e, where g = "0xffff"] hex_not_ipv4 [OF e, where n = "unat (0xffff :: u16)"] unfolding ffff by simp_all
  have "read_groups (Suc (Suc n)) 7 0 (''ffff'' @ ?t) =
      ([0xffff, ucast (drop_bit 16 ?v4), ucast ?v4], True, rest)" for n
    using g read_show_ipv4 [OF dec, of ?v4] by (simp add: read_separator_def read_given_char_def v4_halves)
  from this [of 5] have "read_groups 7 7 0 (''ffff'' @ ?t) =
      ([0xffff, ucast (drop_bit 16 ?v4), ucast ?v4], True, rest)" by simp
  moreover have "read_groups 8 8 0 (''::'' @ ''ffff'' @ ?t) = ([], False, ''::'' @ ''ffff'' @ ?t)"
    by (rule read_groups_stop) simp
  moreover have "v6_from_segments (replicate 5 0 @ [0xffff, ucast (drop_bit 16 ?v4), ucast ?v4]) = a"
    using mapped_segments [OF assms(1)] v6_segments_inverse [of a] by simp
  ultimately show ?thesis by (simp add: read_ipv6_addr_def read_given_char_def Let_def)
qed

lemma read_show_ipv6:
  assumes "groups_end rest"
  shows "read_ipv6_addr (show_ipv6 a @ rest) = Some (a, rest)"
proof -
  have e: "group_end rest" using assms by (simp add: groups_end_def)
  define gs where "gs = v6_segments a"
  obtain z n where zn: "zero_span 0 (0, 0) (0, 0) gs = (z, n)" by fastforce
  have len: "length gs = 8" by (simp add: gs_def)
  have zeros: "zeros_at gs (z, n)" using zero_span_sound [of "[]" gs "(0, 0)" "(0, 0)"] zn by (simp add: zeros_at_def)
  consider "is_ipv4_mapped a" | "\<not> is_ipv4_mapped a" "n > 1" | "\<not> is_ipv4_mapped a" "\<not> n > 1" by blast
  then show ?thesis
  proof cases
    case 1
    then show ?thesis using read_ipv6_mapped [OF 1 e] by (simp add: show_ipv6_def)
  next
    case 2
    have zn8: "z + n \<le> 8" using zeros len by (simp add: zeros_at_def)
    have lens: "length (take z gs) = z" "length (drop (z + n) gs) = 8 - (z + n)" using zn8 len by simp_all
    have "take z gs @ replicate (8 - z - (8 - (z + n))) 0 @ drop (z + n) gs = gs"
      using zeros_expand [OF zeros] zn8 by simp
    moreover have "read_ipv6_addr (show_groups (take z gs) @ ''::'' @ show_groups (drop (z + n) gs) @ rest) =
        Some (v6_from_segments (take z gs @ replicate (8 - length (take z gs) - length (drop (z + n) gs)) 0 @
          drop (z + n) gs), rest)"
      using 2(2) zn8 lens by (intro read_ipv6_compressed [OF assms]) linarith
    ultimately show ?thesis
      using 2 zn v6_segments_inverse [of a] lens by (simp add: show_ipv6_def Let_def gs_def)
  next
    case 3
    then show ?thesis
      using zn read_ipv6_plain [OF e len] v6_segments_inverse [of a] by (simp add: show_ipv6_def Let_def gs_def)
  qed
qed

lemma show_groups_not_ipv4: "group_end rest \<Longrightarrow> read_ipv4_addr (show_groups gs @ rest) = None"
proof (cases gs)
  case (Cons g hs)
  assume "group_end rest"
  then have "group_end (more_groups hs @ rest)" by (rule group_end_more)
  then show ?thesis using hex_not_ipv4 by (simp add: Cons show_groups_Cons)
qed (simp add: show_groups_def group_end_not_ipv4)

lemma show_ipv6_not_ipv4:
  assumes "group_end rest"
  shows "read_ipv4_addr (show_ipv6 a @ rest) = None"
  using assms by (simp add: show_ipv6_def Let_def colon_not_ipv4 show_groups_not_ipv4)

text \<open>\<open>Display\<close> of \<open>IpAddr\<close>.\<close>

fun show_ip_addr :: "ip_addr \<Rightarrow> string" where
  "show_ip_addr (IpV4 a) = show_ipv4 a"
| "show_ip_addr (IpV6 a) = show_ipv6 a"

lemma group_end_not_decimal: "group_end s \<Longrightarrow> s = [] \<or> \<not> is_digit 10 (hd s)"
  by (auto simp: group_end_def is_digit_def to_digit_def Let_def split: if_splits)

lemma read_show_ip_addr:
  assumes "groups_end rest"
  shows "read_ip_addr (show_ip_addr ip @ rest) = Some (ip, rest)"
proof -
  have e: "group_end rest" using assms by (simp add: groups_end_def)
  show ?thesis
    by (cases ip)
      (simp_all add: read_ip_addr_def read_show_ipv4 [OF group_end_not_decimal [OF e]]
        read_show_ipv6 [OF assms] show_ipv6_not_ipv4 [OF e])
qed

lemma parse_show_ip_addr: "parse_ip_addr (show_ip_addr ip) = Some ip"
  using read_show_ip_addr [of "[]" ip]
  by (simp add: parse_ip_addr_def parse_with_def groups_end_def group_end_def)

lemma set_join: "set (join sep ss) \<subseteq> set sep \<union> (\<Union>s \<in> set ss. set s)"
  by (induction sep ss rule: join.induct) auto

lemma show_ip_addr_chars:
  assumes "c \<in> set (show_ip_addr ip)"
  shows "is_digit 16 c \<or> c = CHR ''.'' \<or> c = CHR '':''"
proof -
  have nat: "is_digit 16 c" if "c \<in> set (show_nat n)" for n
    using show_nat_chars [OF that] by (auto simp: is_digit_def to_digit_def Let_def)
  have v4: "is_digit 16 c \<or> c = CHR ''.''" if "c \<in> set (show_ipv4 a)" for a
    using that set_join [of "''.''"] nat unfolding show_ipv4_def by fastforce
  have gs: "is_digit 16 c \<or> c = CHR '':''" if "c \<in> set (show_groups gs)" for gs
    using that set_join [of "'':''"] show_hex_is_digit unfolding show_groups_def by fastforce
  have "is_digit 16 CHR ''f''" by (simp add: is_digit_def to_digit_def)
  then show ?thesis using assms v4 gs by (cases ip) (auto simp: show_ipv6_def Let_def split: if_splits)
qed

lemma read_port_show: "read_port ('':'' @ show_nat (unat (p :: u16))) = Some (p, [])"
proof -
  have "unat p < 2 ^ LENGTH(16)" by (rule unsigned_less)
  then show ?thesis
    using read_number_show_nat [of "[]" "unat p" 65535 None True] by (simp add: read_port_def read_given_char_def)
qed

lemma read_scope_show:
  assumes "rest = [] \<or> \<not> is_digit 10 (hd rest)"
  shows "read_scope_id (''%'' @ show_nat (unat (sc :: u32)) @ rest) = Some (sc, rest)"
proof -
  have "unat sc < 2 ^ LENGTH(32)" by (rule unsigned_less)
  then show ?thesis
    using read_number_show_nat [OF assms, of "unat sc" 4294967295 None True]
    by (simp add: read_scope_id_def read_given_char_def)
qed

text \<open>What a printed socket address says: everything but the flow information.\<close>

fun without_flowinfo :: "socket_addr \<Rightarrow> socket_addr" where
  "without_flowinfo (SockV4 a p) = SockV4 a p"
| "without_flowinfo (SockV6 a p fl sc) = SockV6 a p 0 sc"

lemma parse_show_socket_addr: "parse_socket_addr (show_socket_addr d) = Some (without_flowinfo d)"
proof (cases d)
  case (SockV4 a p)
  then show ?thesis using parse_show_socket_v4 by simp
next
  case (SockV6 a p fl sc)
  let ?tail = "'']:'' @ show_nat (unat p)"
  have not4: "read_ipv4_addr (CHR ''['' # s) = None" for s
    by (rule read_ipv4_no_dot) (simp add: is_digit_10_iff)
  have ends: "groups_end (CHR ''%'' # s)" "groups_end (CHR '']'' # s)" for s
    by (simp_all add: groups_end_def group_end_def is_digit_def to_digit_def)
  have port: "read_port (CHR '':'' # show_nat (unat p)) = Some (p, [])" using read_port_show [of p] by simp
  show ?thesis
  proof (cases "sc = 0")
    case True
    then show ?thesis
      using SockV6 read_show_ipv6 [OF ends(2), of a "'':'' @ show_nat (unat p)"] port
      by (simp add: parse_socket_addr_def parse_with_def read_socket_addr_v4_def not4 read_socket_addr_v6_def
          read_given_char_def read_scope_id_def)
  next
    case False
    have "read_scope_id (CHR ''%'' # show_nat (unat sc) @ ?tail) = Some (sc, ?tail)"
      using read_scope_show [of ?tail sc] by (simp add: is_digit_10_iff)
    then show ?thesis
      using SockV6 False read_show_ipv6 [OF ends(1), of a "show_nat (unat sc) @ ?tail"] port
      by (simp add: parse_socket_addr_def parse_with_def read_socket_addr_v4_def not4 read_socket_addr_v6_def
          read_given_char_def)
  qed
qed

end
