(* ===== verification/No_Proxy.thy ===== *)
theory No_Proxy
  imports Ipv6_Text Errors
begin

text \<open>
  \<open>src/no_proxy.rs\<close>: the rules of \<open>--no-proxy\<close>. \<open>parse\<close> turns
  the comma-separated parts into rules, \<open>should_bypass\<close> decides for a destination. Name
  resolution (\<open>to_socket_addrs\<close>) asks a service outside the program and is the parameter
  \<open>resolve\<close>.

  The locale \<open>cidr_matcher\<close> is the contract of prefix matching for one address width; it
  is interpreted for \<open>contains_v4\<close> and \<open>contains_v6\<close>. The lemmas show that
  the mask computation is prefix comparison, that a network is the interval of its addresses, that
  parsing fails exactly on a malformed CIDR part, and that rule lists compose as disjunction.
\<close>

section \<open>The code\<close>

record ip_net =
  addr :: ip_addr
  prefix_len :: u8

datatype no_proxy_rule = Any | Loopback | IpExact ip_addr | IpCidr ip_net

record no_proxy =
  rules :: "no_proxy_rule list"
  unsupported_suffix_patterns :: "string list"
  unresolved_hostnames :: "string list"

definition contains_v4 :: "ipv4 \<Rightarrow> ipv4 \<Rightarrow> u8 \<Rightarrow> bool" where
  "contains_v4 network ip plen =
     (let mask = (if plen = 0 then 0 else push_bit (unat (32 - plen)) (- 1))
      in (network AND mask) = (ip AND mask))"

definition contains_v6 :: "ipv6 \<Rightarrow> ipv6 \<Rightarrow> u8 \<Rightarrow> bool" where
  "contains_v6 network ip plen =
     (let mask = (if plen = 0 then 0 else push_bit (unat (128 - plen)) (- 1))
      in (network AND mask) = (ip AND mask))"

definition net_contains :: "ip_net \<Rightarrow> ip_addr \<Rightarrow> bool" where
  "net_contains net ip =
     (case (addr net, ip) of
        (IpV4 n, IpV4 i) \<Rightarrow> contains_v4 n i (prefix_len net)
      | (IpV6 n, IpV6 i) \<Rightarrow> contains_v6 n i (prefix_len net)
      | _ \<Rightarrow> False)"

fun max_prefix :: "ip_addr \<Rightarrow> u8" where
  "max_prefix (IpV4 _) = 32"
| "max_prefix (IpV6 _) = 128"

definition invalid_cidr :: "string \<Rightarrow> error" where
  "invalid_cidr raw = InvalidArgument (''invalid no-proxy CIDR: '' @ raw)"

definition parse_cidr :: "string \<Rightarrow> error + ip_net" where
  "parse_cidr raw =
     rbind (ok_or (invalid_cidr raw) (split_once CHR ''/'' raw)) (\<lambda>(a, p).
     rbind (ok_or (invalid_cidr raw) (parse_ip_addr a)) (\<lambda>ad.
     rbind (ok_or (invalid_cidr raw) (parse_u8 p)) (\<lambda>plen.
       if plen > max_prefix ad then Inl (invalid_cidr raw)
       else Inr \<lparr>addr = ad, prefix_len = plen\<rparr>)))"

definition push_rule :: "no_proxy_rule \<Rightarrow> no_proxy \<Rightarrow> no_proxy" where
  "push_rule r np = np\<lparr>rules := rules np @ [r]\<rparr>"

text \<open>One turn of the loop over the parts.\<close>

definition parse_part ::
  "(string \<Rightarrow> io_error + socket_addr list) \<Rightarrow> no_proxy \<Rightarrow> string \<Rightarrow> error + no_proxy" where
  "parse_part resolve np raw =
     (let part = trim raw
      in if part = [] then Inr np
         else if part = ''*'' then Inr (push_rule Any np)
         else if eq_ignore_ascii_case part ''localhost'' then Inr (push_rule Loopback np)
         else (case parse_ip_addr part of
                 Some ip \<Rightarrow> Inr (push_rule (IpExact ip) np)
               | None \<Rightarrow>
                   if CHR ''/'' \<in> set part
                   then rbind (parse_cidr part) (\<lambda>net. Inr (push_rule (IpCidr net) np))
                   else if hd part = CHR ''.''
                   then Inr (np\<lparr>unsupported_suffix_patterns :=
                                  unsupported_suffix_patterns np @ [part]\<rparr>)
                   else (case resolve part of
                           Inr addrs \<Rightarrow>
                             if addrs = []
                             then Inr (np\<lparr>unresolved_hostnames := unresolved_hostnames np @ [part]\<rparr>)
                             else Inr (fold (\<lambda>a. push_rule (IpExact (sa_ip a))) addrs np)
                         | Inl _ \<Rightarrow>
                             Inr (np\<lparr>unresolved_hostnames := unresolved_hostnames np @ [part]\<rparr>))))"

fun parse_parts ::
  "(string \<Rightarrow> io_error + socket_addr list) \<Rightarrow> no_proxy \<Rightarrow> string list \<Rightarrow> error + no_proxy" where
  "parse_parts resolve np [] = Inr np"
| "parse_parts resolve np (raw # parts) =
     rbind (parse_part resolve np raw) (\<lambda>np'. parse_parts resolve np' parts)"

definition empty_no_proxy :: no_proxy where
  "empty_no_proxy =
     \<lparr>rules = [], unsupported_suffix_patterns = [], unresolved_hostnames = []\<rparr>"

definition no_proxy_parse ::
  "(string \<Rightarrow> io_error + socket_addr list) \<Rightarrow> string list \<Rightarrow> error + no_proxy" where
  "no_proxy_parse resolve parts = parse_parts resolve empty_no_proxy parts"

fun rule_matches :: "socket_addr \<Rightarrow> no_proxy_rule \<Rightarrow> bool" where
  "rule_matches dest Any = True"
| "rule_matches dest Loopback = is_loopback (sa_ip dest)"
| "rule_matches dest (IpExact ip) = (sa_ip dest = ip)"
| "rule_matches dest (IpCidr net) = net_contains net (sa_ip dest)"

definition should_bypass :: "no_proxy \<Rightarrow> socket_addr \<Rightarrow> bool" where
  "should_bypass np dest = list_ex (rule_matches dest) (rules np)"

definition no_proxy_is_empty :: "no_proxy \<Rightarrow> bool" where
  "no_proxy_is_empty np =
     (rules np = [] \<and> unsupported_suffix_patterns np = [] \<and> unresolved_hostnames np = [])"

section \<open>Prefix matching\<close>

lemma mask_compare:
  "((a :: 'a::len word) AND NOT (mask k)) = (b AND NOT (mask k)) \<longleftrightarrow>
     drop_bit k a = drop_bit k b"
proof
  assume *: "a AND NOT (mask k) = b AND NOT (mask k)"
  show "drop_bit k a = drop_bit k b"
  proof (rule bit_word_eqI)
    fix i
    assume "i < LENGTH('a)"
    show "bit (drop_bit k a) i = bit (drop_bit k b) i"
      using arg_cong [OF *, of "\<lambda>w. bit w (k + i)"]
      by (auto simp: bit_simps dest: bit_imp_le_length)
  qed
next
  assume *: "drop_bit k a = drop_bit k b"
  show "a AND NOT (mask k) = b AND NOT (mask k)"
  proof (rule bit_word_eqI)
    fix i
    assume "i < LENGTH('a)"
    then show "bit (a AND NOT (mask k)) i = bit (b AND NOT (mask k)) i"
      using arg_cong [OF *, of "\<lambda>w. bit w (i - k)"] by (auto simp: bit_simps)
  qed
qed

lemma drop_bit_length: "drop_bit LENGTH('a) (w :: 'a::len word) = 0"
  by (rule bit_word_eqI) (auto simp: bit_simps dest: bit_imp_le_length)

lemma drop_bit_eq_iff_unat:
  "drop_bit k a = drop_bit k (b :: 'a::len word) \<longleftrightarrow> unat a div 2 ^ k = unat b div 2 ^ k"
  by (simp only: word_unat_eq_iff unat_drop_bit_eq) (simp only: drop_bit_eq_div)

lemma div_eq_iff_interval:
  fixes a b m :: nat
  assumes "0 < m"
  shows "a div m = b div m \<longleftrightarrow> a div m * m \<le> b \<and> b < (a div m + 1) * m"
  using assms
  by (metis Suc_eq_plus1 div_nat_eqI div_times_less_eq_dividend dividend_less_div_times
      mult.commute mult_Suc add.commute)

text \<open>
  What a prefix matcher promises: an address belongs to a network exactly when the leading
  \<open>plen\<close> bits agree.
\<close>

locale cidr_matcher =
  fixes contains :: "'a::len word \<Rightarrow> 'a word \<Rightarrow> u8 \<Rightarrow> bool"
  assumes contains_iff:
    "unat plen \<le> LENGTH('a) \<Longrightarrow>
       contains network ip plen \<longleftrightarrow>
         drop_bit (LENGTH('a) - unat plen) network = drop_bit (LENGTH('a) - unat plen) ip"
begin

lemma contains_refl: "unat plen \<le> LENGTH('a) \<Longrightarrow> contains ip ip plen"
  by (simp add: contains_iff)

lemma contains_zero: "contains network ip 0"
  by (simp add: contains_iff drop_bit_length)

lemma contains_full: "unat plen = LENGTH('a) \<Longrightarrow> contains network ip plen \<longleftrightarrow> network = ip"
  by (simp add: contains_iff)

lemma contains_shorter:
  assumes "contains network ip plen" and "unat plen' \<le> unat plen" and "unat plen \<le> LENGTH('a)"
  shows "contains network ip plen'"
proof -
  let ?k = "LENGTH('a) - unat plen" and ?d = "unat plen - unat plen'"
  have "drop_bit ?d (drop_bit ?k network) = drop_bit ?d (drop_bit ?k ip)"
    using assms by (simp add: contains_iff)
  moreover have "?d + ?k = LENGTH('a) - unat plen'" using assms(2,3) by simp
  ultimately show ?thesis using assms(2,3) by (simp add: contains_iff)
qed

lemma contains_trans:
  "unat plen \<le> LENGTH('a) \<Longrightarrow> contains a b plen \<Longrightarrow> contains b c plen \<Longrightarrow> contains a c plen"
  by (simp add: contains_iff)

text \<open>
  The addresses of a network form the interval from its base address, the network with the host
  bits cleared, of length two to the number of host bits.
\<close>

lemma contains_interval:
  assumes "unat plen \<le> LENGTH('a)"
  shows "contains network ip plen \<longleftrightarrow>
    unat network div 2 ^ (LENGTH('a) - unat plen) * 2 ^ (LENGTH('a) - unat plen) \<le> unat ip \<and>
    unat ip < (unat network div 2 ^ (LENGTH('a) - unat plen) + 1) * 2 ^ (LENGTH('a) - unat plen)"
  unfolding contains_iff [OF assms] drop_bit_eq_iff_unat by (rule div_eq_iff_interval) simp

end

interpretation v4_net: cidr_matcher contains_v4
proof
  fix plen :: u8 and network ip :: ipv4
  assume p: "unat plen \<le> LENGTH(32)"
  then have "unat (32 - plen) = 32 - unat plen" by (simp add: unat_sub word_le_nat_alt)
  then show "contains_v4 network ip plen \<longleftrightarrow>
      drop_bit (LENGTH(32) - unat plen) network = drop_bit (LENGTH(32) - unat plen) ip"
    using drop_bit_length [of network] drop_bit_length [of ip]
    by (simp add: contains_v4_def Let_def mask_compare)
qed

interpretation v6_net: cidr_matcher contains_v6
proof
  fix plen :: u8 and network ip :: ipv6
  assume p: "unat plen \<le> LENGTH(128)"
  then have "unat (128 - plen) = 128 - unat plen" by (simp add: unat_sub word_le_nat_alt)
  then show "contains_v6 network ip plen \<longleftrightarrow>
      drop_bit (LENGTH(128) - unat plen) network = drop_bit (LENGTH(128) - unat plen) ip"
    using drop_bit_length [of network] drop_bit_length [of ip]
    by (simp add: contains_v6_def Let_def mask_compare)
qed

section \<open>Parsing rules\<close>

text \<open>
  Every network that \<open>parse_cidr\<close> accepts has a prefix that fits its address, so the
  shift in \<open>contains_v4\<close> and \<open>contains_v6\<close> never overflows.
\<close>

fun rule_ok :: "no_proxy_rule \<Rightarrow> bool" where
  "rule_ok (IpCidr net) = (prefix_len net \<le> max_prefix (addr net))"
| "rule_ok _ = True"

definition no_proxy_ok :: "no_proxy \<Rightarrow> bool" where
  "no_proxy_ok np = list_all rule_ok (rules np)"

lemma parse_cidr_ok: "parse_cidr raw = Inr net \<Longrightarrow> prefix_len net \<le> max_prefix (addr net)"
  by (auto simp: parse_cidr_def rbind_eq_Inr split: if_splits)

lemma parse_cidr_error: "parse_cidr raw = Inl e \<Longrightarrow> e = invalid_cidr raw"
  by (auto simp: parse_cidr_def rbind_eq_Inl ok_or_def split: if_splits option.splits)

lemma rules_push_rules:
  "rules (fold (\<lambda>a. push_rule (f a)) xs np) = rules np @ map f xs"
  "unsupported_suffix_patterns (fold (\<lambda>a. push_rule (f a)) xs np) = unsupported_suffix_patterns np"
  "unresolved_hostnames (fold (\<lambda>a. push_rule (f a)) xs np) = unresolved_hostnames np"
  by (induction xs arbitrary: np) (auto simp: push_rule_def)

lemma parse_part_frame:
  "parse_part resolve np raw =
     rbind (parse_part resolve empty_no_proxy raw) (\<lambda>d.
       Inr \<lparr>rules = rules np @ rules d,
            unsupported_suffix_patterns =
              unsupported_suffix_patterns np @ unsupported_suffix_patterns d,
            unresolved_hostnames = unresolved_hostnames np @ unresolved_hostnames d\<rparr>)"
  by (auto simp: parse_part_def Let_def empty_no_proxy_def push_rule_def rbind_def
      rules_push_rules no_proxy.equality rules_push_rules [unfolded push_rule_def]
      intro!: no_proxy.equality split: sum.splits option.splits)

text \<open>A part is rejected exactly when it is not an address, has a slash and is no valid CIDR.\<close>

definition bad_part :: "string \<Rightarrow> bool" where
  "bad_part raw =
     (let part = trim raw
      in part \<noteq> [] \<and> part \<noteq> ''*'' \<and> \<not> eq_ignore_ascii_case part ''localhost'' \<and>
         parse_ip_addr part = None \<and> CHR ''/'' \<in> set part \<and> \<not> is_ok (parse_cidr part))"

text \<open>What a part contributes when it is not rejected.\<close>

definition part_result :: "(string \<Rightarrow> io_error + socket_addr list) \<Rightarrow> string \<Rightarrow> no_proxy" where
  "part_result resolve raw =
     (case parse_part resolve empty_no_proxy raw of Inr np \<Rightarrow> np | Inl _ \<Rightarrow> empty_no_proxy)"

lemma parse_part_bad: "bad_part raw \<Longrightarrow> parse_part resolve np raw = Inl (invalid_cidr (trim raw))"
  by (auto simp: bad_part_def parse_part_def Let_def is_ok_def rbind_def
      dest: parse_cidr_error split: sum.splits)

lemma parse_part_good:
  assumes "\<not> bad_part raw"
  shows "\<exists>d. parse_part resolve np raw = Inr d"
  using assms
  by (auto simp: bad_part_def parse_part_def Let_def is_ok_def rbind_def split: sum.splits option.splits)

lemma parse_part_cases:
  "parse_part resolve np raw =
     (if bad_part raw then Inl (invalid_cidr (trim raw))
      else Inr \<lparr>rules = rules np @ rules (part_result resolve raw),
                unsupported_suffix_patterns = unsupported_suffix_patterns np @
                  unsupported_suffix_patterns (part_result resolve raw),
                unresolved_hostnames = unresolved_hostnames np @
                  unresolved_hostnames (part_result resolve raw)\<rparr>)"
proof (cases "bad_part raw")
  case True
  then show ?thesis by (simp add: parse_part_bad)
next
  case False
  then obtain d where "parse_part resolve empty_no_proxy raw = Inr d"
    using parse_part_good by blast
  with False show ?thesis
    by (simp add: parse_part_frame [of resolve np raw] part_result_def)
qed

lemma parse_parts_spec:
  "parse_parts resolve np parts =
     (case find bad_part parts of
        Some raw \<Rightarrow> Inl (invalid_cidr (trim raw))
      | None \<Rightarrow>
          Inr \<lparr>rules = rules np @ concat (map (rules \<circ> part_result resolve) parts),
               unsupported_suffix_patterns = unsupported_suffix_patterns np @
                 concat (map (unsupported_suffix_patterns \<circ> part_result resolve) parts),
               unresolved_hostnames = unresolved_hostnames np @
                 concat (map (unresolved_hostnames \<circ> part_result resolve) parts)\<rparr>)"
  by (induction parts arbitrary: np) (auto simp: parse_part_cases split: option.splits)

lemma part_result_ok: "no_proxy_ok (part_result resolve raw)"
  by (auto simp: part_result_def parse_part_def Let_def empty_no_proxy_def push_rule_def
      no_proxy_ok_def rbind_def rules_push_rules list_all_iff
      dest: parse_cidr_ok split: sum.splits option.splits if_splits)

lemma no_proxy_parse_Inr:
  "no_proxy_parse resolve parts = Inr np \<Longrightarrow>
     rules np = concat (map (rules \<circ> part_result resolve) parts)"
  by (auto simp: no_proxy_parse_def parse_parts_spec empty_no_proxy_def split: option.splits)

section \<open>Textual CIDR rules\<close>

fun ip_width :: "ip_addr \<Rightarrow> nat" where
  "ip_width (IpV4 a) = 32"
| "ip_width (IpV6 a) = 128"

fun ip_value :: "ip_addr \<Rightarrow> nat" where
  "ip_value (IpV4 a) = unat a"
| "ip_value (IpV6 a) = unat a"

definition cidr_text :: "ip_addr \<Rightarrow> nat \<Rightarrow> string" where
  "cidr_text ip n = show_ip_addr ip @ CHR ''/'' # show_nat n"

lemma cidr_text_plain: "\<forall>c\<in>set (cidr_text ip n). plain_char c"
proof
  fix c
  assume "c \<in> set (cidr_text ip n)"
  then have "is_digit 16 c \<or> is_digit 10 c \<or> c = CHR ''.'' \<or> c = CHR '':'' \<or> c = CHR ''/''"
    using show_ip_addr_chars [of c ip] show_nat_digits [of n] by (auto simp: cidr_text_def)
  then show "plain_char c"
    by (auto simp: is_digit_def to_digit_def Let_def plain_char_def is_whitespace_def split: if_splits)
qed

lemma cidr_text_not_ip: "parse_ip_addr (cidr_text ip n) = None"
proof -
  have "groups_end (CHR ''/'' # show_nat n)"
    by (simp add: groups_end_def group_end_def is_digit_def to_digit_def)
  from read_show_ip_addr [OF this, of ip] show ?thesis
    by (simp add: parse_ip_addr_def parse_with_def cidr_text_def)
qed

lemma ip_width_u8: "n \<le> ip_width ip \<Longrightarrow> unat (of_nat n :: u8) = n"
  by (cases ip) (simp_all add: unat_of_nat)

lemma parse_cidr_text:
  assumes "n \<le> ip_width ip"
  shows "parse_cidr (cidr_text ip n) = Inr \<lparr>addr = ip, prefix_len = of_nat n\<rparr>"
proof -
  have "CHR ''/'' \<notin> set (show_ip_addr ip)"
    using show_ip_addr_chars [of "CHR ''/''" ip] by (auto simp: is_digit_def to_digit_def)
  then have "split_once CHR ''/'' (cidr_text ip n) = Some (show_ip_addr ip, show_nat n)"
    unfolding cidr_text_def by (rule split_once_append)
  moreover have "parse_u8 (show_nat n) = Some (of_nat n)"
    using assms by (cases ip) (simp_all add: parse_u8_def parse_unsigned_show_nat)
  moreover have "\<not> (of_nat n :: u8) > max_prefix ip"
    using assms ip_width_u8 [OF assms] by (cases ip) (simp_all add: word_less_nat_alt)
  ultimately show ?thesis by (simp add: parse_cidr_def parse_show_ip_addr)
qed

lemma parse_part_cidr_text:
  assumes "n \<le> ip_width ip"
  shows "parse_part resolve np (cidr_text ip n) =
    Inr (push_rule (IpCidr \<lparr>addr = ip, prefix_len = of_nat n\<rparr>) np)"
proof -
  have slash: "CHR ''/'' \<in> set (cidr_text ip n)" by (simp add: cidr_text_def)
  have "CHR ''/'' \<in> set (map to_ascii_lowercase (cidr_text ip n))"
    using slash by (force simp: to_ascii_lowercase_def)
  then have "\<not> eq_ignore_ascii_case (cidr_text ip n) ''localhost''"
    by (auto simp: eq_ignore_ascii_case_def to_ascii_lowercase_def simp del: set_map)
  moreover have "cidr_text ip n \<noteq> ''*''" using slash by auto
  ultimately show ?thesis
    using trim_plain [OF cidr_text_plain] cidr_text_not_ip parse_cidr_text [OF assms] slash
    by (auto simp: parse_part_def Let_def)
qed

text \<open>The matcher on addresses of either family: the same family and the same interval.\<close>

lemma net_contains_interval:
  fixes h :: nat
  assumes "n \<le> ip_width network" and "h = ip_width network - n"
  shows "net_contains \<lparr>addr = network, prefix_len = of_nat n\<rparr> ip \<longleftrightarrow>
    ip_width ip = ip_width network \<and>
    ip_value network div 2 ^ h * 2 ^ h \<le> ip_value ip \<and> ip_value ip < (ip_value network div 2 ^ h + 1) * 2 ^ h"
  using v4_net.contains_interval [of "of_nat n"] v6_net.contains_interval [of "of_nat n"] assms ip_width_u8 [OF assms(1)]
  by (cases network; cases ip) (simp_all add: net_contains_def)

section \<open>What a part means\<close>

text \<open>
  \<open>address/n\<close>: an address, a slash, and a decimal number that is no larger than the
  width of the address. A part with a slash that is neither this nor an address is malformed.
\<close>

definition cidr_reads :: "string \<Rightarrow> ip_addr \<Rightarrow> nat \<Rightarrow> bool" where
  "cidr_reads part ip n \<longleftrightarrow>
     (\<exists>a p. part = a @ CHR ''/'' # p \<and> CHR ''/'' \<notin> set a \<and> parse_ip_addr a = Some ip \<and>
        parse_unsigned 255 p = Some n \<and> n \<le> ip_width ip)"

definition malformed :: "string \<Rightarrow> bool" where
  "malformed part \<longleftrightarrow>
     CHR ''/'' \<in> set part \<and> parse_ip_addr part = None \<and> (\<nexists>ip n. cidr_reads part ip n)"

text \<open>A part that is left to be a pattern or a host name.\<close>

definition host_part :: "string \<Rightarrow> bool" where
  "host_part part \<longleftrightarrow>
     part \<noteq> [] \<and> part \<noteq> ''*'' \<and> map to_ascii_lowercase part \<noteq> ''localhost'' \<and>
     parse_ip_addr part = None \<and> CHR ''/'' \<notin> set part"

definition only_rules :: "no_proxy_rule list \<Rightarrow> no_proxy" where
  "only_rules rs = \<lparr>rules = rs, unsupported_suffix_patterns = [], unresolved_hostnames = []\<rparr>"

inductive part_means :: "(string \<Rightarrow> io_error + socket_addr list) \<Rightarrow> string \<Rightarrow> no_proxy \<Rightarrow> bool" for resolve where
  nothing: "part_means resolve [] (only_rules [])"
| any: "part_means resolve ''*'' (only_rules [Any])"
| localhost: "map to_ascii_lowercase part = ''localhost'' \<Longrightarrow> part_means resolve part (only_rules [Loopback])"
| address: "parse_ip_addr part = Some ip \<Longrightarrow> part_means resolve part (only_rules [IpExact ip])"
| network: "cidr_reads part ip n \<Longrightarrow>
    part_means resolve part (only_rules [IpCidr \<lparr>addr = ip, prefix_len = of_nat n\<rparr>])"
| suffix: "host_part part \<Longrightarrow> hd part = CHR ''.'' \<Longrightarrow>
    part_means resolve part (empty_no_proxy\<lparr>unsupported_suffix_patterns := [part]\<rparr>)"
| host: "host_part part \<Longrightarrow> hd part \<noteq> CHR ''.'' \<Longrightarrow> resolve part = Inr addrs \<Longrightarrow> addrs \<noteq> [] \<Longrightarrow>
    part_means resolve part (only_rules (map (\<lambda>a. IpExact (sa_ip a)) addrs))"
| unresolved: "host_part part \<Longrightarrow> hd part \<noteq> CHR ''.'' \<Longrightarrow> (\<nexists>addrs. resolve part = Inr addrs \<and> addrs \<noteq> []) \<Longrightarrow>
    part_means resolve part (empty_no_proxy\<lparr>unresolved_hostnames := [part]\<rparr>)"

lemma split_once_iff: "split_once sep s = Some (a, b) \<longleftrightarrow> s = a @ sep # b \<and> sep \<notin> set a"
proof
  show "split_once sep s = Some (a, b) \<Longrightarrow> s = a @ sep # b \<and> sep \<notin> set a"
  proof (induction s arbitrary: a)
    case (Cons c s)
    then show ?case by (cases "c = sep") (auto split: option.splits)
  qed simp
qed (simp add: split_once_append)

lemma prefix_fits: "n \<le> 255 \<Longrightarrow> (of_nat n :: u8) > max_prefix ip \<longleftrightarrow> ip_width ip < n"
  by (cases ip) (simp_all add: word_less_nat_alt unat_of_nat)

lemma parse_cidr_reads:
  "parse_cidr part = Inr net \<longleftrightarrow> (\<exists>ip n. cidr_reads part ip n \<and> net = \<lparr>addr = ip, prefix_len = of_nat n\<rparr>)"
proof
  assume "parse_cidr part = Inr net"
  then obtain a p ip n where ap: "split_once CHR ''/'' part = Some (a, p)" "parse_ip_addr a = Some ip"
    "parse_unsigned 255 p = Some n" "\<not> (of_nat n :: u8) > max_prefix ip" "net = \<lparr>addr = ip, prefix_len = of_nat n\<rparr>"
    by (auto simp: parse_cidr_def rbind_eq_Inr ok_or_def parse_u8_def split: if_splits option.splits)
  moreover have "n \<le> ip_width ip"
    using ap(4) prefix_fits [OF parse_unsigned_bound [OF ap(3)], of ip] by simp
  ultimately show "\<exists>ip n. cidr_reads part ip n \<and> net = \<lparr>addr = ip, prefix_len = of_nat n\<rparr>"
    unfolding cidr_reads_def split_once_iff by blast
next
  assume "\<exists>ip n. cidr_reads part ip n \<and> net = \<lparr>addr = ip, prefix_len = of_nat n\<rparr>"
  then obtain a p ip n where "part = a @ CHR ''/'' # p" "CHR ''/'' \<notin> set a" and p: "parse_ip_addr a = Some ip"
    "parse_unsigned 255 p = Some n" "n \<le> ip_width ip" "net = \<lparr>addr = ip, prefix_len = of_nat n\<rparr>"
    unfolding cidr_reads_def by blast
  then have "split_once CHR ''/'' part = Some (a, p)" by (simp add: split_once_iff)
  then show "parse_cidr part = Inr net"
    using p prefix_fits [OF parse_unsigned_bound [OF p(2)], of ip] by (simp add: parse_cidr_def parse_u8_def)
qed

lemma localhost_no_slash: "map to_ascii_lowercase part = ''localhost'' \<Longrightarrow> CHR ''/'' \<notin> set part"
proof
  assume lower: "map to_ascii_lowercase part = ''localhost''" and "CHR ''/'' \<in> set part"
  then have "to_ascii_lowercase CHR ''/'' \<in> set ''localhost''" by (metis image_eqI set_map)
  then show False by (simp add: to_ascii_lowercase_def)
qed

lemma eq_ignore_localhost:
  "eq_ignore_ascii_case part ''localhost'' \<longleftrightarrow> map to_ascii_lowercase part = ''localhost''"
  by (simp add: eq_ignore_ascii_case_def to_ascii_lowercase_def)

lemma slash_part:
  assumes "CHR ''/'' \<in> set (trim raw)"
  shows "trim raw \<noteq> []" and "trim raw \<noteq> ''*''" and "\<not> eq_ignore_ascii_case (trim raw) ''localhost''"
proof -
  show "trim raw \<noteq> []" using assms by (rule contrapos_pn) simp
  show "trim raw \<noteq> ''*''" using assms by (rule contrapos_pn) simp
  show "\<not> eq_ignore_ascii_case (trim raw) ''localhost''"
    unfolding eq_ignore_localhost by (rule notI, drule localhost_no_slash) (use assms in contradiction)
qed

lemma bad_part_malformed: "bad_part raw \<longleftrightarrow> malformed (trim raw)"
proof -
  have "(\<exists>ip n. cidr_reads part ip n) \<longleftrightarrow> (\<exists>net. parse_cidr part = Inr net)" for part
    unfolding parse_cidr_reads by blast
  then have "(\<exists>ip n. cidr_reads part ip n) \<longleftrightarrow> is_ok (parse_cidr part)" for part
    by (cases "parse_cidr part") (auto simp: is_ok_def)
  then show ?thesis
    using slash_part [of raw]
    by (cases "CHR ''/'' \<in> set (trim raw)") (simp_all add: bad_part_def malformed_def Let_def)
qed

lemma part_result_means:
  assumes "\<not> bad_part raw"
  shows "part_means resolve (trim raw) (part_result resolve raw)"
proof -
  let ?part = "trim raw"
  note local = eq_ignore_localhost [of ?part]
  have rules: "fold (\<lambda>a. push_rule (IpExact (sa_ip a))) addrs empty_no_proxy =
      only_rules (map (\<lambda>a. IpExact (sa_ip a)) addrs)" for addrs
    using rules_push_rules [of "\<lambda>a. IpExact (sa_ip a)" addrs empty_no_proxy]
    by (intro no_proxy.equality) (simp_all add: empty_no_proxy_def only_rules_def)
  have push: "push_rule r empty_no_proxy = only_rules [r]" "only_rules [] = empty_no_proxy" for r
    by (simp_all add: push_rule_def empty_no_proxy_def only_rules_def)
  note run = part_result_def parse_part_def Let_def
  define E S L D where "E \<longleftrightarrow> ?part = []" and "S \<longleftrightarrow> ?part = ''*''"
    and "L \<longleftrightarrow> eq_ignore_ascii_case ?part ''localhost''" and "D \<longleftrightarrow> CHR ''/'' \<in> set ?part"
  note tests = E_def S_def L_def D_def
  have "host_part ?part \<longleftrightarrow> \<not> E \<and> \<not> S \<and> \<not> L \<and> parse_ip_addr ?part = None \<and> \<not> D"
    by (simp only: host_part_def tests local)
  then consider E | S | L "\<not> E" "\<not> S" | ip where "parse_ip_addr ?part = Some ip" "\<not> E" "\<not> S" "\<not> L"
    | "parse_ip_addr ?part = None" D | "host_part ?part"
    by (cases "parse_ip_addr ?part") blast+
  then show ?thesis
    unfolding tests
  proof cases
    case 3
    then have "part_means resolve ?part (only_rules [Loopback])" unfolding local by (intro part_means.localhost)
    then show ?thesis using 3 by (simp add: run push)
  next
    case 5
    then have ne: "?part \<noteq> []" "?part \<noteq> ''*''" "\<not> eq_ignore_ascii_case ?part ''localhost''"
      using slash_part [of raw] by simp_all
    then have "is_ok (parse_cidr ?part)" using assms 5 by (simp add: bad_part_def Let_def)
    then obtain x where x: "parse_cidr ?part = Inr x" by (cases "parse_cidr ?part") (simp_all add: is_ok_def)
    then obtain ip n where net: "cidr_reads ?part ip n" "parse_cidr ?part = Inr \<lparr>addr = ip, prefix_len = of_nat n\<rparr>"
      unfolding parse_cidr_reads by blast
    show ?thesis using 5 ne net(2) part_means.network [OF net(1)] by (simp add: run push(1))
  next
    case 6
    then have ne: "?part \<noteq> []" "?part \<noteq> ''*''" "\<not> eq_ignore_ascii_case ?part ''localhost''"
      "parse_ip_addr ?part = None" "CHR ''/'' \<notin> set ?part"
      unfolding local host_part_def by simp_all
    show ?thesis
    proof (cases "hd ?part = CHR ''.''")
      case True
      then show ?thesis using ne part_means.suffix [OF 6 True] by (simp add: run empty_no_proxy_def)
    next
      case False
      show ?thesis
      proof (cases "\<exists>addrs. resolve ?part = Inr addrs \<and> addrs \<noteq> []")
        case True
        then obtain addrs where "resolve ?part = Inr addrs" "addrs \<noteq> []" by blast
        then show ?thesis using ne False part_means.host [OF 6 False] by (simp add: run rules)
      next
        case no: False
        then show ?thesis using ne False part_means.unresolved [of ?part resolve, OF 6 False no]
          by (cases "resolve ?part") (auto simp: run empty_no_proxy_def)
      qed
    qed
  qed (use part_means.nothing part_means.any part_means.address in \<open>simp_all add: run push\<close>)
qed

section \<open>Properties\<close>

text \<open>
  C19. What the rules on the command line mean. Each part is stripped of white space. Parsing fails
  exactly when some part is malformed, has a slash and is not an address, a slash and a number up to
  the address's width, and the error names the first such part. Otherwise the result is, in order,
  what each part means: nothing for an empty one; every destination for \<open>*\<close>; the
  loopback addresses for \<open>localhost\<close> in any case; an address or a network for its text;
  and for anything else, a pattern that is reported as not supported when it starts with a dot, and
  otherwise the addresses that the name resolves to, or a name that is reported as unresolved.
\<close>

theorem no_proxy_parse_spec:
  "case no_proxy_parse resolve parts of
     Inl e \<Rightarrow>
       \<exists>pre raw post. parts = pre @ raw # post \<and> malformed (trim raw) \<and> (\<forall>p \<in> set pre. \<not> malformed (trim p)) \<and>
         e = InvalidArgument (''invalid no-proxy CIDR: '' @ trim raw)
   | Inr np \<Rightarrow>
       (\<forall>p \<in> set parts. \<not> malformed (trim p)) \<and>
       (\<exists>cs. list_all2 (part_means resolve) (map trim parts) cs \<and>
          np = \<lparr>rules = concat (map rules cs),
                unsupported_suffix_patterns = concat (map unsupported_suffix_patterns cs),
                unresolved_hostnames = concat (map unresolved_hostnames cs)\<rparr>)"
proof (cases "find bad_part parts")
  case None
  then have good: "\<not> bad_part p" if "p \<in> set parts" for p using that by (auto simp: find_None_iff)
  let ?cs = "map (part_result resolve) parts"
  have "list_all2 (part_means resolve) (map trim parts) ?cs"
    using good part_result_means by (auto simp: list_all2_conv_all_nth)
  then show ?thesis
    using None good parse_parts_spec [of resolve empty_no_proxy parts]
    by (auto simp: no_proxy_parse_def empty_no_proxy_def bad_part_malformed intro!: exI [of _ ?cs])
next
  case (Some raw)
  then obtain n where n: "n < length parts" "bad_part (parts ! n)" "raw = parts ! n" "\<And>m. m < n \<Longrightarrow> \<not> bad_part (parts ! m)"
    by (auto simp: find_Some_iff)
  then have "parts = take n parts @ raw # drop (Suc n) parts" "\<forall>p \<in> set (take n parts). \<not> bad_part p"
    by (simp_all add: id_take_nth_drop [symmetric]) (auto simp: in_set_conv_nth)
  then show ?thesis
    using Some n(2,3) parse_parts_spec [of resolve empty_no_proxy parts]
    by (auto simp: no_proxy_parse_def bad_part_malformed invalid_cidr_def)
qed

lemma parse_sample_rules:
  "no_proxy_parse resolve [''*'', cidr_text (IpV4 0x0A000000) 8] =
     Inr (only_rules [Any, IpCidr \<lparr>addr = IpV4 0x0A000000, prefix_len = 8\<rparr>])"
proof -
  have "trim ''*'' = ''*''" by (rule trim_plain) (simp add: plain_char_def is_whitespace_def)
  then show ?thesis
    by (simp add: no_proxy_parse_def parse_part_cidr_text)
      (simp add: parse_part_def push_rule_def empty_no_proxy_def only_rules_def)
qed

theorem no_proxy_parse_spec_witness:
  "\<exists>cs. list_all2 (part_means (\<lambda>h. Inr [])) (map trim [''*'', cidr_text (IpV4 0x0A000000) 8]) cs \<and>
     concat (map rules cs) = [Any, IpCidr \<lparr>addr = IpV4 0x0A000000, prefix_len = 8\<rparr>]"
  using no_proxy_parse_spec [where resolve = "\<lambda>h. Inr []" and parts = "[''*'', cidr_text (IpV4 0x0A000000) 8]"]
  unfolding parse_sample_rules by (auto simp: only_rules_def)

text \<open>
  C39. Every rule set that parsing yields is well formed: no CIDR rule has a prefix longer than
  its address, so the mask shifts of the matcher stay in range.
\<close>

theorem no_proxy_parse_ok:
  assumes "no_proxy_parse resolve parts = Inr np"
  shows "no_proxy_ok np"
  using part_result_ok [of resolve]
  by (auto simp: no_proxy_ok_def no_proxy_parse_Inr [OF assms] list_all_iff)

theorem no_proxy_parse_ok_witness:
  "no_proxy_ok (only_rules [Any, IpCidr \<lparr>addr = IpV4 0x0A000000, prefix_len = 8\<rparr>])"
  by (rule no_proxy_parse_ok [OF parse_sample_rules [where resolve = "\<lambda>h. Inr []"]])

text \<open>
  C20. A textual rule \<open>address/n\<close>, for IPv4 and for IPv6 in any of its printed forms,
  bypasses exactly the destinations of the same family in the interval of addresses that share the
  first \<open>n\<close> bits with it, at any port. In particular an IPv4 rule does not bypass an
  IPv4-mapped IPv6 destination.
\<close>

theorem cidr_rule_interval:
  fixes h :: nat
  assumes "n \<le> ip_width network" and "h = ip_width network - n"
  shows "\<exists>np. no_proxy_parse resolve [cidr_text network n] = Inr np \<and>
    (\<forall>dest. should_bypass np dest \<longleftrightarrow>
       ip_width (sa_ip dest) = ip_width network \<and>
       ip_value network div 2 ^ h * 2 ^ h \<le> ip_value (sa_ip dest) \<and>
       ip_value (sa_ip dest) < (ip_value network div 2 ^ h + 1) * 2 ^ h)"
proof -
  let ?net = "\<lparr>addr = network, prefix_len = of_nat n :: u8\<rparr>"
  let ?np = "push_rule (IpCidr ?net) empty_no_proxy"
  have "no_proxy_parse resolve [cidr_text network n] = Inr ?np"
    using assms(1) by (simp add: no_proxy_parse_def parse_part_cidr_text)
  moreover have "should_bypass ?np dest \<longleftrightarrow> net_contains ?net (sa_ip dest)" for dest
    by (cases dest) (auto simp: should_bypass_def push_rule_def empty_no_proxy_def)
  ultimately show ?thesis using net_contains_interval [OF assms] by simp
qed

theorem cidr_rule_interval_witness:
  "\<exists>np. no_proxy_parse (\<lambda>h. Inr []) [cidr_text (IpV4 0x0A000000) 8] = Inr np \<and>
     should_bypass np (SockV4 0x0A636363 443) \<and> \<not> should_bypass np (SockV4 0x0B000000 443) \<and>
     \<not> should_bypass np (SockV6 0xFFFF0A636363 443 0 0)"
  using cidr_rule_interval [of 8 "IpV4 0x0A000000" 24 "\<lambda>h. Inr []"] by auto

end
