(* ===== verification/Procfs.thy ===== *)
theory Procfs
  imports Net_Types Errors
begin

text \<open>
  The functions of \<open>src/socket/tracker.rs\<close> that read the proc file system. What the
  kernel answers is the record \<open>procfs\<close>, an argument of every function: the text of a
  file (\<open>fs::read_to_string\<close>), the lines of an opened file
  (\<open>BufReader::lines\<close>), the target of a symbolic link, the existence of a path and the
  entries of a directory. \<open>None\<close> is a failed call.

  The lemmas relate the parsers to the kernel's documented formats: the \<open>Tgid\<close> line of
  \<open>/proc/<tid>/status\<close>, the rows of \<open>/proc/net/tcp\<close> (addresses printed as
  the native-endian value of the network-order word) and the \<open>socket:[inode]\<close> links
  under \<open>/proc/<pid>/fd\<close>.
\<close>

section \<open>The code\<close>

record procfs =
  read_to_string :: "string \<Rightarrow> string option"
  open_lines :: "string \<Rightarrow> (io_error + string) list option"
  read_link :: "string \<Rightarrow> string option"
  path_exists :: "string \<Rightarrow> bool"
  read_dir :: "string \<Rightarrow> (io_error + string) list option"

text \<open>The \<open>format!\<close> expressions that build the paths and the link text.\<close>

definition proc_path :: "i32 \<Rightarrow> string" where
  "proc_path pid = ''/proc/'' @ show_i32 pid"

definition status_path :: "i32 \<Rightarrow> string" where
  "status_path tid = ''/proc/'' @ show_i32 tid @ ''/status''"

definition fd_dir_path :: "i32 \<Rightarrow> string" where
  "fd_dir_path pid = ''/proc/'' @ show_i32 pid @ ''/fd''"

definition fd_path :: "i32 \<Rightarrow> string \<Rightarrow> string" where
  "fd_path pid name = ''/proc/'' @ show_i32 pid @ ''/fd/'' @ name"

definition socket_link :: "string \<Rightarrow> string" where
  "socket_link inode = ''socket:['' @ inode @ '']''"

text \<open>The loop over the lines of the status file: the first line with the prefix decides.\<close>

fun tgid_of_lines :: "string list \<Rightarrow> i32 option" where
  "tgid_of_lines [] = None"
| "tgid_of_lines (line # rest) =
     (case strip_prefix ''Tgid:'' line of
        Some v \<Rightarrow> parse_i32 (trim v)
      | None \<Rightarrow> tgid_of_lines rest)"

definition read_tgid_from_proc_status :: "procfs \<Rightarrow> i32 \<Rightarrow> i32 option" where
  "read_tgid_from_proc_status fs tid =
     (case read_to_string fs (status_path tid) of
        None \<Rightarrow> None
      | Some status \<Rightarrow> tgid_of_lines (lines status))"

definition process_exists :: "procfs \<Rightarrow> i32 \<Rightarrow> bool" where
  "process_exists fs pid = path_exists fs (proc_path pid)"

text \<open>\<open>read_tgid_from_proc_status(tid).unwrap_or(tid)\<close>.\<close>

definition tgid_or_self :: "procfs \<Rightarrow> i32 \<Rightarrow> i32" where
  "tgid_or_self fs tid = (case read_tgid_from_proc_status fs tid of Some g \<Rightarrow> g | None \<Rightarrow> tid)"

definition read_socket_inode :: "procfs \<Rightarrow> i32 \<Rightarrow> i32 \<Rightarrow> string option" where
  "read_socket_inode fs pid fd =
     (let tgid = tgid_or_self fs pid
      in case read_link fs (fd_path tgid (show_i32 fd)) of
           None \<Rightarrow> None
         | Some link \<Rightarrow>
             (case strip_prefix ''socket:['' link of
                None \<Rightarrow> None
              | Some s \<Rightarrow> strip_suffix '']'' s))"

definition conn_pattern :: "ipv4 \<Rightarrow> u16 \<Rightarrow> string" where
  "conn_pattern ip port =
     upper_hex 2 (unat (v4_octets ip ! 3)) @ upper_hex 2 (unat (v4_octets ip ! 2)) @
     upper_hex 2 (unat (v4_octets ip ! 1)) @ upper_hex 2 (unat (v4_octets ip ! 0)) @
     '':'' @ upper_hex 4 (unat port)"

fun scan_tcp_lines :: "string \<Rightarrow> string \<Rightarrow> (io_error + string) list \<Rightarrow> string option" where
  "scan_tcp_lines local_pattern remote_pattern [] = None"
| "scan_tcp_lines local_pattern remote_pattern (line # rest) =
     (case line of
        Inl _ \<Rightarrow> None
      | Inr l \<Rightarrow>
          (let parts = split_whitespace l
           in if length parts < 10 then scan_tcp_lines local_pattern remote_pattern rest
              else if parts ! 1 = local_pattern \<and> parts ! 2 = remote_pattern \<and> parts ! 9 \<noteq> ''0''
              then Some (parts ! 9)
              else scan_tcp_lines local_pattern remote_pattern rest))"

definition find_inode_by_conn ::
  "procfs \<Rightarrow> ip_addr \<Rightarrow> u16 \<Rightarrow> ip_addr \<Rightarrow> u16 \<Rightarrow> string option" where
  "find_inode_by_conn fs local_ip local_port remote_ip remote_port =
     (case local_ip of
        IpV6 _ \<Rightarrow> None
      | IpV4 l \<Rightarrow>
          (case remote_ip of
             IpV6 _ \<Rightarrow> None
           | IpV4 r \<Rightarrow>
               (case open_lines fs ''/proc/net/tcp'' of
                  None \<Rightarrow> None
                | Some ls \<Rightarrow>
                    scan_tcp_lines (conn_pattern l local_port) (conn_pattern r remote_port)
                      (drop 1 ls))))"

fun scan_fd_entries ::
  "procfs \<Rightarrow> string \<Rightarrow> i32 \<Rightarrow> (io_error + string) list \<Rightarrow> (i32 \<times> i32) option" where
  "scan_fd_entries fs search pid [] = None"
| "scan_fd_entries fs search pid (Inl _ # rest) = scan_fd_entries fs search pid rest"
| "scan_fd_entries fs search pid (Inr name # rest) =
     (case read_link fs (fd_path pid name) of
        None \<Rightarrow> scan_fd_entries fs search pid rest
      | Some link \<Rightarrow>
          if link = search
          then (case parse_i32 name of
                  Some fd \<Rightarrow> Some (pid, fd)
                | None \<Rightarrow> scan_fd_entries fs search pid rest)
          else scan_fd_entries fs search pid rest)"

definition is_ascii_digit :: "char \<Rightarrow> bool" where
  "is_ascii_digit c = (48 \<le> (of_char c :: nat) \<and> (of_char c :: nat) \<le> 57)"

fun scan_proc_entries ::
  "procfs \<Rightarrow> string \<Rightarrow> (io_error + string) list \<Rightarrow> (i32 \<times> i32) option" where
  "scan_proc_entries fs search [] = None"
| "scan_proc_entries fs search (Inl _ # rest) = None"
| "scan_proc_entries fs search (Inr name # rest) =
     (if \<not> list_all is_ascii_digit name then scan_proc_entries fs search rest
      else (case parse_i32 name of
              None \<Rightarrow> scan_proc_entries fs search rest
            | Some pid \<Rightarrow>
                (case read_dir fs (fd_dir_path pid) of
                   None \<Rightarrow> scan_proc_entries fs search rest
                 | Some fds \<Rightarrow>
                     (case scan_fd_entries fs search pid fds of
                        Some r \<Rightarrow> Some r
                      | None \<Rightarrow> scan_proc_entries fs search rest))))"

definition find_pid_fd_by_inode :: "procfs \<Rightarrow> string \<Rightarrow> (i32 \<times> i32) option" where
  "find_pid_fd_by_inode fs inode =
     (case read_dir fs ''/proc'' of
        None \<Rightarrow> None
      | Some entries \<Rightarrow> scan_proc_entries fs (socket_link inode) entries)"

section \<open>The \<open>Tgid\<close> line\<close>

lemma tgid_of_lines_skip:
  assumes "\<forall>l\<in>set pre. strip_prefix ''Tgid:'' l = None"
  shows "tgid_of_lines (pre @ ls) = tgid_of_lines ls"
  using assms by (induction pre) auto

lemma whitespace_char_of [simp]: "is_whitespace (char_of (9 :: nat))"
  by (simp add: is_whitespace_def)

lemma tgid_line: "tgid_of_lines ((''Tgid:'' @ char_of (9 :: nat) # show_i32 g) # rest) = Some g"
  using trim_plain [OF show_i32_plain [of g]]
  by (simp add: strip_prefix_def trim_leading parse_i32_show)

section \<open>Hexadecimal patterns\<close>

lemma length_upper_hex [simp]: "length (upper_hex n v) = n"
  by (induction n arbitrary: v) auto

lemma upper_digit_inj:
  assumes "a < 16" "b < 16" "upper_digit_char a = upper_digit_char b"
  shows "a = b"
proof -
  have "(of_char (upper_digit_char a) :: nat) = of_char (upper_digit_char b)" using assms(3) by simp
  then show ?thesis using assms(1,2) by (simp add: upper_digit_char_def split: if_splits)
qed

lemma upper_hex_inj:
  "v < 16 ^ n \<Longrightarrow> w < 16 ^ n \<Longrightarrow> upper_hex n v = upper_hex n w \<longleftrightarrow> v = w"
proof (induction n arbitrary: v w)
  case 0
  then show ?case by simp
next
  case (Suc n)
  have "v div 16 < 16 ^ n" "w div 16 < 16 ^ n"
    using Suc.prems by (simp_all add: less_mult_imp_div_less mult.commute)
  then have IH: "upper_hex n (v div 16) = upper_hex n (w div 16) \<longleftrightarrow> v div 16 = w div 16"
    by (rule Suc.IH)
  have "upper_digit_char (v mod 16) = upper_digit_char (w mod 16) \<longleftrightarrow> v mod 16 = w mod 16"
    using upper_digit_inj [of "v mod 16" "w mod 16"] by auto
  then show ?case using IH by (metis append1_eq_conv div_mult_mod_eq upper_hex.simps(2))
qed

lemma upper_hex_byte:
  assumes "a < 256"
  shows "upper_hex (Suc (Suc n)) (a + 256 * v) = upper_hex n v @ upper_hex 2 a"
proof -
  have e: "a + 256 * v = a + (16 * v) * 16" by simp
  have d: "(a + 256 * v) div 16 = a div 16 + v * 16"
    unfolding e by (subst div_mult_self1) simp_all
  have a: "a div 16 < 16" using assms by (simp add: div_less_iff_less_mult)
  have "(a + 256 * v) mod 16 = a mod 16" unfolding e by (rule mod_mult_self1)
  moreover have "(a div 16 + v * 16) div 16 = v" using a by (subst div_mult_self1) simp_all
  moreover have "(a div 16 + v * 16) mod 16 = a div 16 mod 16" by (rule mod_mult_self1)
  ultimately show ?thesis by (simp add: d numeral_2_eq_2)
qed

text \<open>
  The kernel prints an address of \<open>/proc/net/tcp\<close> as the native-endian (here little-endian)
  value of its network-order bytes, in eight hexadecimal digits, and the port in four.
\<close>

fun le_value :: "u8 list \<Rightarrow> nat" where
  "le_value [] = 0"
| "le_value (b # bs) = unat b + 256 * le_value bs"

definition tcp_endpoint :: "ipv4 \<Rightarrow> u16 \<Rightarrow> string" where
  "tcp_endpoint ip port = upper_hex 8 (le_value (v4_octets ip)) @ '':'' @ upper_hex 4 (unat port)"

lemma conn_pattern_eq: "conn_pattern ip port = tcp_endpoint ip port"
proof -
  obtain a b c d where oct: "v4_octets ip = [a, b, c, d]" using v4_octets_list by blast
  have byte:
    "upper_hex 8 (unat x + 256 * v) = upper_hex 6 v @ upper_hex 2 (unat x)"
    "upper_hex 6 (unat x + 256 * v) = upper_hex 4 v @ upper_hex 2 (unat x)"
    "upper_hex 4 (unat x + 256 * v) = upper_hex 2 v @ upper_hex 2 (unat x)" for x :: u8 and v
    using upper_hex_byte [OF unat_u8, of 6 x v] upper_hex_byte [OF unat_u8, of 4 x v]
      upper_hex_byte [OF unat_u8, of 2 x v] by (simp_all del: upper_hex.simps)
  have "upper_hex 8 (le_value [a, b, c, d]) =
      upper_hex 2 (unat d) @ upper_hex 2 (unat c) @ upper_hex 2 (unat b) @ upper_hex 2 (unat a)"
    unfolding le_value.simps byte by simp
  then show ?thesis by (simp add: conn_pattern_def tcp_endpoint_def oct)
qed

lemma conn_pattern_inj: "conn_pattern a p = conn_pattern b q \<longleftrightarrow> a = b \<and> p = q"
proof
  assume eq: "conn_pattern a p = conn_pattern b q"
  have byte: "upper_hex 2 (unat (x :: u8)) = upper_hex 2 (unat y) \<longleftrightarrow> x = y" for x y
    using upper_hex_inj [of "unat x" 2 "unat y"] unat_u8 [of x] unat_u8 [of y]
    by (simp add: word_unat_eq_iff)
  have port: "upper_hex 4 (unat p) = upper_hex 4 (unat q) \<longleftrightarrow> p = q"
    using upper_hex_inj [of "unat p" 4 "unat q"] unat_u16 [of p] unat_u16 [of q]
    by (simp add: word_unat_eq_iff)
  obtain a0 a1 a2 a3 where a: "v4_octets a = [a0, a1, a2, a3]" using v4_octets_list by blast
  obtain b0 b1 b2 b3 where b: "v4_octets b = [b0, b1, b2, b3]" using v4_octets_list by blast
  have "a0 = b0 \<and> a1 = b1 \<and> a2 = b2 \<and> a3 = b3 \<and> p = q"
    using eq by (simp add: conn_pattern_def a b byte port del: upper_hex.simps)
  then show "a = b \<and> p = q" using v4_oct.enc_inj [of a b] by (simp add: a b)
qed simp

section \<open>Rows of \<open>/proc/net/tcp\<close>\<close>

text \<open>The white-space separated fields of a row, as the kernel documents them.\<close>

record tcp_row =
  row_slot :: string
  row_local :: "ipv4 \<times> u16"
  row_remote :: "ipv4 \<times> u16"
  row_middle :: "string list"
  row_inode :: string
  row_rest :: "string list"

definition row_fields :: "tcp_row \<Rightarrow> string list" where
  "row_fields r =
     [row_slot r, tcp_endpoint (fst (row_local r)) (snd (row_local r)),
      tcp_endpoint (fst (row_remote r)) (snd (row_remote r))] @
     row_middle r @ [row_inode r] @ row_rest r"

definition row_ok :: "tcp_row \<Rightarrow> bool" where
  "row_ok r = (length (row_middle r) = 6)"

lemma row_fields_nth:
  assumes "row_ok r"
  shows "10 \<le> length (row_fields r)"
    and "row_fields r ! 1 = tcp_endpoint (fst (row_local r)) (snd (row_local r))"
    and "row_fields r ! 2 = tcp_endpoint (fst (row_remote r)) (snd (row_remote r))"
    and "row_fields r ! 9 = row_inode r"
  using assms by (simp_all add: row_ok_def row_fields_def nth_append)

lemma scan_tcp_rows:
  assumes "map split_whitespace texts = map row_fields rows" and "list_all row_ok rows"
  shows "scan_tcp_lines (conn_pattern l lp) (conn_pattern r rp) (map Inr texts) =
    map_option row_inode
      (find (\<lambda>row. row_local row = (l, lp) \<and> row_remote row = (r, rp) \<and> row_inode row \<noteq> ''0'') rows)"
  using assms
proof (induction rows arbitrary: texts)
  case Nil
  then show ?case by simp
next
  case (Cons row rows)
  then obtain t ts where texts: "texts = t # ts" "split_whitespace t = row_fields row"
    "map split_whitespace ts = map row_fields rows" by (cases texts) auto
  have row: "row_ok row" using Cons.prems(2) by simp
  have IH: "scan_tcp_lines (conn_pattern l lp) (conn_pattern r rp) (map Inr ts) =
      map_option row_inode
        (find (\<lambda>row. row_local row = (l, lp) \<and> row_remote row = (r, rp) \<and> row_inode row \<noteq> ''0'') rows)"
    using Cons.IH [OF texts(3)] Cons.prems(2) by simp
  have "\<not> length (row_fields row) < 10" using row_fields_nth(1) [OF row] by simp
  moreover have "row_fields row ! 1 = conn_pattern l lp \<longleftrightarrow> row_local row = (l, lp)"
    "row_fields row ! 2 = conn_pattern r rp \<longleftrightarrow> row_remote row = (r, rp)"
    by (simp_all only: row_fields_nth [OF row] conn_pattern_eq [symmetric] conn_pattern_inj)
      (simp_all add: prod_eq_iff)
  ultimately show ?case
    by (simp add: texts Let_def row_fields_nth(4) [OF row] IH)
qed

section \<open>Descriptor links\<close>

lemma scan_fd_entries_sound:
  "scan_fd_entries fs search pid es = Some (p, fd) \<Longrightarrow>
     p = pid \<and> (\<exists>name. Inr name \<in> set es \<and> parse_i32 name = Some fd \<and>
       read_link fs (fd_path pid name) = Some search)"
  by (induction fs search pid es rule: scan_fd_entries.induct)
    (auto split: option.splits if_splits)

lemma scan_proc_entries_sound:
  "scan_proc_entries fs search es = Some (pid, fd) \<Longrightarrow>
     \<exists>name. parse_i32 name = Some fd \<and>
       read_link fs (fd_path pid name) = Some search"
  by (induction fs search es rule: scan_proc_entries.induct)
    (fastforce split: option.splits if_splits dest: scan_fd_entries_sound)+

lemma scan_fd_entries_complete:
  assumes "Inr name \<in> set es" and "parse_i32 name \<noteq> None"
    and "read_link fs (fd_path pid name) = Some search"
  shows "scan_fd_entries fs search pid es \<noteq> None"
  using assms
  by (induction fs search pid es rule: scan_fd_entries.induct) (auto split: option.splits)

lemma scan_proc_entries_complete:
  assumes "Inr (show_nat n) \<in> set es" and "\<forall>e\<in>set es. is_ok e"
    and "parse_i32 (show_nat n) = Some pid"
    and "read_dir fs (fd_dir_path pid) = Some fds"
    and "scan_fd_entries fs search pid fds \<noteq> None"
  shows "scan_proc_entries fs search es \<noteq> None"
  using assms
proof (induction fs search es rule: scan_proc_entries.induct)
  case (3 fs search name rest)
  have digits: "list_all is_ascii_digit (show_nat n)"
    using show_nat_chars [of _ n] by (auto simp: list_all_iff is_ascii_digit_def)
  show ?case
  proof (cases "name = show_nat n")
    case True
    then show ?thesis using 3 digits by (auto split: option.splits)
  next
    case False
    then have "Inr (show_nat n) \<in> set rest" "\<forall>e\<in>set rest. is_ok e" using 3 by auto
    then show ?thesis using 3 by (auto split: option.splits)
  qed
qed auto

lemma read_tgid_line:
  assumes "read_to_string fs (status_path tid) =
      Some (concat (map (\<lambda>l. l @ [newline]) pre) @
            ''Tgid:'' @ char_of (9 :: nat) # show_i32 g @ newline # post)"
    and "list_all (\<lambda>l. newline \<notin> set l \<and> strip_prefix ''Tgid:'' (strip_cr l) = None) pre"
  shows "read_tgid_from_proc_status fs tid = Some g"
proof -
  let ?tg = "''Tgid:'' @ char_of (9 :: nat) # show_i32 g"
  have plain: "newline \<notin> set (show_i32 g)" "carriage_return \<notin> set (show_i32 g)"
    using show_i32_plain [of g] by (auto simp: plain_char_def is_whitespace_def newline_def carriage_return_def)
  then have "newline \<notin> set ?tg" "carriage_return \<notin> set ?tg"
    by (simp_all add: control_chars)
  then have "lines (?tg @ newline # post) = ?tg # lines post"
    using lines_Cons [of ?tg post] strip_cr_id [of ?tg] by simp
  moreover have "list_all (\<lambda>l. newline \<notin> set l) pre"
    using assms(2) by (simp add: list_all_iff)
  ultimately have "lines (concat (map (\<lambda>l. l @ [newline]) pre) @ (?tg @ newline # post)) =
      map strip_cr pre @ ?tg # lines post"
    by (simp only: lines_concat)
  moreover have "tgid_of_lines (map strip_cr pre @ ?tg # lines post) = Some g"
    using assms(2)
    by (subst tgid_of_lines_skip)
      (auto simp: list_all_iff simp del: tgid_of_lines.simps intro: tgid_line [simplified])
  ultimately show ?thesis using assms(1) by (simp add: read_tgid_from_proc_status_def)
qed

section \<open>Properties\<close>

text \<open>
  For a status file in the kernel's format, with lines before the \<open>Tgid\<close> line that do not
  start with \<open>Tgid:\<close>, the thread group id is read back.
\<close>

lemma read_tgid_roundtrip:
  assumes "read_to_string fs (status_path tid) =
      Some (concat (map (\<lambda>l. l @ [newline]) pre) @
            ''Tgid:'' @ char_of (9 :: nat) # show_i32 g @ newline # post)"
    and "list_all (\<lambda>l. newline \<notin> set l \<and> strip_prefix ''Tgid:'' (strip_cr l) = None) pre"
  shows "read_tgid_from_proc_status fs tid = Some g"
  using assms by (rule read_tgid_line)

definition sample_status :: string where
  "sample_status =
     concat (map (\<lambda>l. l @ [newline]) [''Name: sh'']) @
     ''Tgid:'' @ char_of (9 :: nat) # show_i32 12 @ newline # ''Pid: 13''"

definition sample_tcp_row :: tcp_row where
  "sample_tcp_row =
     \<lparr>row_slot = ''0:'', row_local = (0x7F000001, 40000), row_remote = (0x7F000001, 9999),
      row_middle = [''01'', ''00000000:00000000'', ''00:00000000'', ''00000000'', ''1000'', ''0''],
      row_inode = ''8812'', row_rest = [''1'']\<rparr>"

definition sample_tcp_text :: string where
  "sample_tcp_text =
     ''   0: 0100007F:9C40 0100007F:270F 01 00000000:00000000 00:00000000 00000000  1000        0 8812 1''"

text \<open>A proc file system with one process, 12, whose descriptor 5 is the socket with inode 8812.\<close>

definition sample_procfs :: procfs where
  "sample_procfs =
     \<lparr>read_to_string = (\<lambda>p. Some sample_status),
      open_lines = (\<lambda>p. Some [Inr ''header'', Inr sample_tcp_text]),
      read_link = (\<lambda>p. if p = fd_path 12 (show_nat 5) then Some (socket_link ''8812'') else None),
      path_exists = (\<lambda>p. True),
      read_dir = (\<lambda>p. if p = ''/proc'' then Some [Inr ''self'', Inr (show_nat 12)]
                      else if p = fd_dir_path 12 then Some [Inr (show_nat 5)] else None)\<rparr>"

lemma sample_status_file: "read_to_string sample_procfs p = Some sample_status"
  by (simp add: sample_procfs_def)

lemma sample_open_lines: "open_lines sample_procfs p = Some [Inr ''header'', Inr sample_tcp_text]"
  by (simp add: sample_procfs_def)

lemma sample_tgid_12: "tgid_or_self sample_procfs tid = 12"
  using read_tgid_line [OF sample_status_file [unfolded sample_status_def]]
  by (simp add: tgid_or_self_def control_chars strip_prefix_def strip_cr_def)

lemma sample_socket_inode: "read_socket_inode sample_procfs tid 5 = Some ''8812''"
proof -
  have "show_i32 5 = show_nat 5" by (simp add: show_i32_def del: show_nat.simps)
  then have "read_link sample_procfs (fd_path 12 (show_i32 5)) = Some (socket_link ''8812'')"
    by (simp add: sample_procfs_def del: show_nat.simps)
  then show ?thesis
    by (simp add: read_socket_inode_def sample_tgid_12 socket_link_def strip_prefix_def strip_suffix_def)
qed

text \<open>
  C23. On a \<open>/proc/net/tcp\<close> in the kernel's format, the lookup by connection returns the
  inode of the first row whose local and remote endpoints are the given ones and whose inode is not
  0: the hexadecimal patterns identify address and port, byte order included.
\<close>

theorem find_inode_by_conn_rows:
  assumes "open_lines fs ''/proc/net/tcp'' = Some (header # map Inr texts)"
    and "map split_whitespace texts = map row_fields rows" and "list_all row_ok rows"
  shows "find_inode_by_conn fs (IpV4 l) lp (IpV4 r) rp =
    map_option row_inode
      (find (\<lambda>row. row_local row = (l, lp) \<and> row_remote row = (r, rp) \<and> row_inode row \<noteq> ''0'') rows)"
  using scan_tcp_rows [OF assms(2,3)] assms(1) by (simp add: find_inode_by_conn_def)

lemma upper_hex_numeral:
  "upper_hex (numeral n) v = upper_hex (pred_numeral n) (v div 16) @ [upper_digit_char (v mod 16)]"
  unfolding numeral_eq_Suc [of n] by (rule upper_hex.simps)

lemma sample_endpoints:
  "tcp_endpoint 0x7F000001 40000 = ''0100007F:9C40''" "tcp_endpoint 0x7F000001 9999 = ''0100007F:270F''"
proof -
  have "v4_octets 0x7F000001 = [127, 0, 0, 1]" by code_simp
  then show "tcp_endpoint 0x7F000001 40000 = ''0100007F:9C40''"
    and "tcp_endpoint 0x7F000001 9999 = ''0100007F:270F''"
    by (simp_all add: tcp_endpoint_def upper_hex_numeral upper_digit_char_def char_of_def bit_0)
qed

lemma sample_tcp_fields: "split_whitespace sample_tcp_text = row_fields sample_tcp_row"
proof -
  have "split_whitespace sample_tcp_text =
      [''0:'', ''0100007F:9C40'', ''0100007F:270F'', ''01'', ''00000000:00000000'', ''00:00000000'',
       ''00000000'', ''1000'', ''0'', ''8812'', ''1'']"
    by (simp add: sample_tcp_text_def split_whitespace_def white_start_plain white_start_blank
        plain_char_def is_whitespace_def)
  then show ?thesis by (simp add: row_fields_def sample_tcp_row_def sample_endpoints)
qed

theorem find_inode_by_conn_rows_witness:
  "find_inode_by_conn sample_procfs (IpV4 0x7F000001) 40000 (IpV4 0x7F000001) 9999 = Some ''8812''"
  using find_inode_by_conn_rows [of sample_procfs "Inr ''header''" "[sample_tcp_text]" "[sample_tcp_row]"
      "0x7F000001" 40000 "0x7F000001" 9999] sample_tcp_fields
  by (simp add: sample_procfs_def sample_tcp_row_def row_ok_def del: show_nat.simps)

text \<open>
  C24. The search for the owner of an inode is sound (a result is a process and descriptor whose link
  is that socket) and complete (when the listing of \<open>/proc\<close> has no failing entry and
  some numbered process has a readable descriptor with that link, a result is found).
\<close>

theorem find_pid_fd_by_inode_correct:
  "(find_pid_fd_by_inode fs inode = Some (pid, fd) \<longrightarrow>
      (\<exists>name. parse_i32 name = Some fd \<and>
         read_link fs (fd_path pid name) = Some (socket_link inode))) \<and>
   (read_dir fs ''/proc'' = Some es \<and> list_all is_ok es \<and>
    Inr (show_nat n) \<in> set es \<and> parse_i32 (show_nat n) = Some owner \<and>
    read_dir fs (fd_dir_path owner) = Some fds \<and>
    Inr name \<in> set fds \<and> parse_i32 name \<noteq> None \<and>
    read_link fs (fd_path owner name) = Some (socket_link inode) \<longrightarrow>
      find_pid_fd_by_inode fs inode \<noteq> None)"
proof (intro conjI impI)
  assume "find_pid_fd_by_inode fs inode = Some (pid, fd)"
  then show "\<exists>name. parse_i32 name = Some fd \<and>
      read_link fs (fd_path pid name) = Some (socket_link inode)"
    by (auto simp: find_pid_fd_by_inode_def dest: scan_proc_entries_sound split: option.splits)
next
  assume "read_dir fs ''/proc'' = Some es \<and> list_all is_ok es \<and>
    Inr (show_nat n) \<in> set es \<and> parse_i32 (show_nat n) = Some owner \<and>
    read_dir fs (fd_dir_path owner) = Some fds \<and>
    Inr name \<in> set fds \<and> parse_i32 name \<noteq> None \<and>
    read_link fs (fd_path owner name) = Some (socket_link inode)"
  then show "find_pid_fd_by_inode fs inode \<noteq> None"
    using scan_fd_entries_complete [of name fds fs owner "socket_link inode"]
      scan_proc_entries_complete [of n es owner fs fds "socket_link inode"]
    by (auto simp: find_pid_fd_by_inode_def list_all_iff)
qed

theorem find_pid_fd_by_inode_correct_witness: "find_pid_fd_by_inode sample_procfs ''8812'' \<noteq> None"
proof -
  have "parse_i32 (show_nat 12) = Some 12" "parse_i32 (show_nat 5) = Some 5"
    using parse_i32_show [of 12] parse_i32_show [of 5] by (simp_all add: show_i32_def del: show_nat.simps)
  moreover have "fd_dir_path 12 \<noteq> ''/proc''" by code_simp
  ultimately show ?thesis
    using find_pid_fd_by_inode_correct [of sample_procfs "''8812''" 12 5
        "[Inr ''self'', Inr (show_nat 12)]" 12 12 "[Inr (show_nat 5)]" "show_nat 5"]
    by (simp add: sample_procfs_def del: show_nat.simps)
qed

end
