(* ===== verification/Kernel.thy ===== *)
theory Kernel
  imports Procfs
begin

text \<open>
  The operating system as the program sees it. The kernel is not part of the sources: its state is a
  type variable \<open>'k\<close> and its calls are the fields of the record \<open>os\<close>, an
  argument of every definition that makes a system call. A call that can change the state returns the
  new one together with its result; a query reads the state it is given. Queries made while one stop
  is handled see one state. Standard library facilities whose answer the program does not determine
  (the clock, the iteration order of a hash set, the moment a signal handler runs) are fields too.

  The second half states, as named predicates, the documented behaviour that theorems rely on:
  \<open>tracee_memory\<close> (\<open>PTRACE_POKEDATA\<close>, \<open>PTRACE_PEEKDATA\<close>,
  \<open>process_vm_readv\<close>), \<open>tracee_regs\<close> (\<open>PTRACE_GETREGS\<close>,
  \<open>PTRACE_SETREGS\<close>), \<open>own_descriptors\<close> and \<open>pidfd_calls_keep\<close>
  (\<open>pidfd_open\<close>, \<open>pidfd_getfd\<close>, \<open>close\<close>) and
  \<open>hash_order_ok\<close> (a hash set is iterated over all its elements, each once),
  \<open>logs_signals\<close> (\<open>kill\<close>, \<open>killpg\<close>),
  \<open>finite_events\<close> and \<open>stop_reports\<close> (\<open>waitpid\<close>).
\<close>

section \<open>Data of the interface\<close>

type_synonym signal = i32

definition SIGHUP :: signal where "SIGHUP = 1"
definition SIGINT :: signal where "SIGINT = 2"
definition SIGTRAP :: signal where "SIGTRAP = 5"
definition SIGKILL :: signal where "SIGKILL = 9"
definition SIGTERM :: signal where "SIGTERM = 15"
definition SIGSTOP :: signal where "SIGSTOP = 19"

lemmas signal_defs =
  SIGHUP_def SIGINT_def SIGTRAP_def SIGKILL_def SIGTERM_def SIGSTOP_def

text \<open>The registers of \<open>user_regs_struct\<close> that the program reads or writes, and the others.\<close>

record user_regs =
  orig_rax :: u64
  rax :: u64
  rdi :: u64
  rsi :: u64
  rdx :: u64
  r10 :: u64
  r8 :: u64
  r9 :: u64
  other_regs :: "u64 list"

text \<open>\<open>nix::sys::wait::WaitStatus\<close>.\<close>

datatype wait_status =
    Exited i32 i32
  | Signaled i32 signal bool
  | Stopped i32 signal
  | PtraceEvent i32 signal i32
  | PtraceSyscall i32
  | Continued i32
  | StillAlive

record 'k os =
  vm_readv :: "'k \<Rightarrow> i32 \<Rightarrow> u64 \<Rightarrow> nat \<Rightarrow> errno + u8 list"
  ptrace_peek :: "'k \<Rightarrow> i32 \<Rightarrow> u64 \<Rightarrow> errno + u64"
  ptrace_poke :: "'k \<Rightarrow> i32 \<Rightarrow> u64 \<Rightarrow> u64 \<Rightarrow> (errno + unit) \<times> 'k"
  ptrace_getregs :: "'k \<Rightarrow> i32 \<Rightarrow> errno + user_regs"
  ptrace_setregs :: "'k \<Rightarrow> i32 \<Rightarrow> user_regs \<Rightarrow> (errno + unit) \<times> 'k"
  ptrace_geteventmsg :: "'k \<Rightarrow> i32 \<Rightarrow> errno + u64"
  ptrace_setoptions :: "'k \<Rightarrow> i32 \<Rightarrow> u32 \<Rightarrow> (errno + unit) \<times> 'k"
  ptrace_getsiginfo :: "'k \<Rightarrow> i32 \<Rightarrow> errno + unit"
  ptrace_cont :: "'k \<Rightarrow> i32 \<Rightarrow> signal option \<Rightarrow> (errno + unit) \<times> 'k"
  ptrace_syscall :: "'k \<Rightarrow> i32 \<Rightarrow> signal option \<Rightarrow> (errno + unit) \<times> 'k"
  ptrace_kill :: "'k \<Rightarrow> i32 \<Rightarrow> (errno + unit) \<times> 'k"
  sys_kill :: "'k \<Rightarrow> i32 \<Rightarrow> signal \<Rightarrow> 'k"
  sys_killpg :: "'k \<Rightarrow> i32 \<Rightarrow> signal \<Rightarrow> 'k"
  waitpid_call :: "'k \<Rightarrow> i32 \<Rightarrow> i32 \<Rightarrow> (errno + wait_status) \<times> 'k"
  wait_blocks :: "'k \<Rightarrow> bool"
  sys_sigaction :: "'k \<Rightarrow> signal \<Rightarrow> (errno + unit) \<times> 'k"
  delivered_signals :: "'k \<Rightarrow> signal list \<times> 'k"
  clock_millis :: "'k \<Rightarrow> nat"
  hash_order :: "'k \<Rightarrow> i32 set \<Rightarrow> i32 list"
  pidfd_open :: "'k \<Rightarrow> i32 \<Rightarrow> (errno + i32) \<times> 'k"
  pidfd_getfd :: "'k \<Rightarrow> i32 \<Rightarrow> i32 \<Rightarrow> (errno + i32) \<times> 'k"
  getsockopt_type :: "'k \<Rightarrow> i32 \<Rightarrow> errno + i32"
  close_own :: "'k \<Rightarrow> i32 \<Rightarrow> 'k"
  proc_view :: "'k \<Rightarrow> procfs"

text \<open>
  The two ways \<open>waitpid\<close> is called: for any child or thread, until one has something to
  report, and for one task without waiting. The third argument of \<open>waitpid_call\<close> is the
  flag word. The first form does not return when no task will ever report anything and no signal
  arrives: \<open>wait_blocks\<close> says in which states, and the value is \<open>None\<close>
  there.
\<close>

definition WALL :: i32 where "WALL = 0x40000000"
definition WSTOPPED :: i32 where "WSTOPPED = 2"
definition WNOHANG :: i32 where "WNOHANG = 1"

lemmas wait_flags = WALL_def WSTOPPED_def WNOHANG_def

definition wait_for_tracee :: "'k os \<Rightarrow> 'k \<Rightarrow> ((errno + wait_status) \<times> 'k) option" where
  "wait_for_tracee os k =
     (if wait_blocks os k then None else Some (waitpid_call os k (- 1) (WALL OR WSTOPPED)))"

definition waitpid_nohang :: "'k os \<Rightarrow> 'k \<Rightarrow> i32 \<Rightarrow> (errno + wait_status) \<times> 'k" where
  "waitpid_nohang os k pid = waitpid_call os k pid (WALL OR WSTOPPED OR WNOHANG)"

section \<open>Byte memories\<close>

text \<open>The memory of a tracee that ptrace can reach: \<open>None\<close> outside the mapped pages.\<close>

type_synonym memory = "u64 \<Rightarrow> u8 option"

definition readable :: "memory \<Rightarrow> u64 \<Rightarrow> nat \<Rightarrow> bool" where
  "readable m a n = list_all (\<lambda>i. m (a + of_nat i) \<noteq> None) [0..<n]"

definition bytes_at :: "memory \<Rightarrow> u64 \<Rightarrow> nat \<Rightarrow> u8 list" where
  "bytes_at m a n = map (\<lambda>i. the (m (a + of_nat i))) [0..<n]"

definition store_bytes :: "memory \<Rightarrow> u64 \<Rightarrow> u8 list \<Rightarrow> memory" where
  "store_bytes m a bs =
     (\<lambda>x. if unat (x - a) < length bs then Some (bs ! unat (x - a)) else m x)"

lemma length_bytes_at [simp]: "length (bytes_at m a n) = n"
  by (simp add: bytes_at_def)

lemma nth_bytes_at: "i < n \<Longrightarrow> bytes_at m a n ! i = the (m (a + of_nat i))"
  by (simp add: bytes_at_def)

lemma readable_iff: "readable m a n \<longleftrightarrow> (\<forall>i<n. m (a + of_nat i) \<noteq> None)"
  by (auto simp: readable_def list_all_iff)

lemma readable_mono: "readable m a n \<Longrightarrow> k \<le> n \<Longrightarrow> readable m a k"
  by (simp add: readable_iff)

lemma readable_shift:
  assumes "readable m a n" and "k + j \<le> n"
  shows "readable m (a + of_nat k) j"
  using assms unfolding readable_iff
  by (metis add.assoc add_less_cancel_left of_nat_add order_less_le_trans)

lemma readable_store: "readable m a n \<Longrightarrow> readable (store_bytes m b bs) a n"
  by (simp add: readable_iff store_bytes_def)

lemma offset_unat:
  "i < 2 ^ 64 \<Longrightarrow> unat (a + of_nat i - a :: u64) = i"
  by (simp add: unat_of_nat)

lemma store_bytes_hit:
  assumes "i < length bs" and "length bs \<le> 2 ^ 64"
  shows "store_bytes m a bs (a + of_nat i) = Some (bs ! i)"
  using assms offset_unat [of i a] by (simp add: store_bytes_def)

lemma store_bytes_miss: "length bs \<le> unat (x - a) \<Longrightarrow> store_bytes m a bs x = m x"
  by (simp add: store_bytes_def)

lemma bytes_at_store:
  assumes "length bs \<le> 2 ^ 64"
  shows "bytes_at (store_bytes m a bs) a (length bs) = bs"
  using assms by (auto intro!: nth_equalityI simp: nth_bytes_at store_bytes_hit)

lemma bytes_at_take: "k \<le> n \<Longrightarrow> take k (bytes_at m a n) = bytes_at m a k"
  by (simp add: bytes_at_def take_map)

lemma bytes_at_drop: "drop k (bytes_at m a (k + n)) = bytes_at m (a + of_nat k) n"
  by (auto intro!: nth_equalityI simp: nth_bytes_at add.assoc)

lemma unat_minus_of_nat:
  assumes "n < 2 ^ 64"
  shows "unat (d - of_nat n :: u64) = (if n \<le> unat d then unat d - n else unat d + 2 ^ 64 - n)"
  using assms by (simp add: unat_sub_if' unat_of_nat)

lemma store_bytes_append:
  assumes "length xs + length ys \<le> 2 ^ 64"
  shows "store_bytes (store_bytes m a xs) (a + of_nat (length xs)) ys = store_bytes m a (xs @ ys)"
proof (cases "ys = []")
  case True
  then show ?thesis by (simp add: store_bytes_def fun_eq_iff)
next
  case False
  show ?thesis
  proof
    fix x :: u64
    let ?n = "length xs"
    obtain d where d: "d = x - a" by simp
    have "?n < 2 ^ 64" using assms False by (cases ys) auto
    moreover have "x - (a + of_nat ?n) = d - of_nat ?n" by (simp add: d)
    ultimately have "unat (x - (a + of_nat ?n)) =
        (if ?n \<le> unat d then unat d - ?n else unat d + 2 ^ 64 - ?n)"
      by (simp only: unat_minus_of_nat)
    then show "store_bytes (store_bytes m a xs) (a + of_nat ?n) ys x = store_bytes m a (xs @ ys) x"
      using assms unfolding store_bytes_def d [symmetric] by (auto simp: nth_append)
  qed
qed

text \<open>Writing back what is there changes nothing.\<close>

lemma store_bytes_same:
  assumes "readable m a n" and "n \<le> 2 ^ 64"
  shows "store_bytes m a (bytes_at m a n) = m"
proof
  fix x :: u64
  have "a + of_nat (unat (x - a)) = x" by simp
  then show "store_bytes m a (bytes_at m a n) x = m x"
    using assms unfolding store_bytes_def readable_iff
    by (metis length_bytes_at nth_bytes_at option.collapse)
qed

section \<open>Documented behaviour\<close>

text \<open>
  While a tracee is stopped, \<open>mem k pid\<close> is its memory: a poke of a word whose eight
  bytes are mapped stores them in native byte order and otherwise fails without effect, a peek reads
  a mapped word, and \<open>process_vm_readv\<close> with one remote buffer transfers it completely
  or fails.
\<close>

definition tracee_memory :: "'k os \<Rightarrow> ('k \<Rightarrow> i32 \<Rightarrow> memory) \<Rightarrow> i32 \<Rightarrow> bool" where
  "tracee_memory os mem pid \<longleftrightarrow>
     (\<forall>k a w. if readable (mem k pid) a 8
        then fst (ptrace_poke os k pid a w) = Inr () \<and>
             mem (snd (ptrace_poke os k pid a w)) pid = store_bytes (mem k pid) a (u64_to_ne_bytes w)
        else \<not> is_ok (fst (ptrace_poke os k pid a w)) \<and>
             mem (snd (ptrace_poke os k pid a w)) pid = mem k pid) \<and>
     (\<forall>k a. if readable (mem k pid) a 8
        then ptrace_peek os k pid a = Inr (u64_from_ne_bytes (bytes_at (mem k pid) a 8))
        else \<not> is_ok (ptrace_peek os k pid a)) \<and>
     (\<forall>k a n. if readable (mem k pid) a n
        then vm_readv os k pid a n = Inr (bytes_at (mem k pid) a n)
        else \<not> is_ok (vm_readv os k pid a n))"

lemma tracee_pokeD:
  assumes "tracee_memory os mem pid" and "readable (mem k pid) a 8"
  shows "fst (ptrace_poke os k pid a w) = Inr ()"
    and "mem (snd (ptrace_poke os k pid a w)) pid = store_bytes (mem k pid) a (u64_to_ne_bytes w)"
  using assms unfolding tracee_memory_def by presburger+

lemma tracee_peekD:
  assumes "tracee_memory os mem pid" and "readable (mem k pid) a 8"
  shows "ptrace_peek os k pid a = Inr (u64_from_ne_bytes (bytes_at (mem k pid) a 8))"
  using assms unfolding tracee_memory_def by presburger

lemma tracee_readvD:
  assumes "tracee_memory os mem pid" and "readable (mem k pid) a n"
  shows "vm_readv os k pid a n = Inr (bytes_at (mem k pid) a n)"
  using assms unfolding tracee_memory_def by presburger

lemma tracee_readv_fails:
  assumes "tracee_memory os mem pid" and "\<not> readable (mem k pid) a n"
  shows "\<exists>e. vm_readv os k pid a n = Inl e"
  using assms unfolding tracee_memory_def is_ok_def by (metis sum.case(2) sum.exhaust)

text \<open>
  \<open>own k\<close> is the set of descriptors the program has open: a call that yields a
  descriptor yields one that was not open, and \<open>close\<close> removes the descriptor it is
  given.
\<close>

fun opens :: "('k \<Rightarrow> i32 set) \<Rightarrow> 'k \<Rightarrow> (errno + i32) \<times> 'k \<Rightarrow> bool" where
  "opens own k (Inl e, k') = (own k' = own k)"
| "opens own k (Inr fd, k') = (fd \<notin> own k \<and> own k' = insert fd (own k))"

definition own_descriptors :: "'k os \<Rightarrow> ('k \<Rightarrow> i32 set) \<Rightarrow> bool" where
  "own_descriptors os own \<longleftrightarrow>
     (\<forall>k pid. opens own k (pidfd_open os k pid)) \<and>
     (\<forall>k pidfd fd. opens own k (pidfd_getfd os k pidfd fd)) \<and>
     (\<forall>k fd. own (close_own os k fd) = own k - {fd})"

text \<open>The calls of the descriptor probe leave a part of the kernel state, such as memories, alone.\<close>

definition pidfd_calls_keep :: "'k os \<Rightarrow> ('k \<Rightarrow> 'a) \<Rightarrow> bool" where
  "pidfd_calls_keep os part \<longleftrightarrow>
     (\<forall>k pid. part (snd (pidfd_open os k pid)) = part k) \<and>
     (\<forall>k pidfd fd. part (snd (pidfd_getfd os k pidfd fd)) = part k) \<and>
     (\<forall>k fd. part (close_own os k fd) = part k)"

text \<open>\<open>PTRACE_GETREGS\<close> reads the registers of a stopped tracee, \<open>PTRACE_SETREGS\<close> replaces them.\<close>

definition tracee_regs :: "'k os \<Rightarrow> ('k \<Rightarrow> i32 \<Rightarrow> user_regs) \<Rightarrow> i32 \<Rightarrow> bool" where
  "tracee_regs os regs_of pid \<longleftrightarrow>
     (\<forall>k. is_ok (ptrace_getregs os k pid) \<longrightarrow> ptrace_getregs os k pid = Inr (regs_of k pid)) \<and>
     (\<forall>k regs. is_ok (fst (ptrace_setregs os k pid regs)) \<longrightarrow>
        regs_of (snd (ptrace_setregs os k pid regs)) pid = regs)"

definition hash_order_ok :: "'k os \<Rightarrow> bool" where
  "hash_order_ok os \<longleftrightarrow>
     (\<forall>k A. finite A \<longrightarrow> set (hash_order os k A) = A \<and> distinct (hash_order os k A))"

lemma hash_orderD:
  assumes "hash_order_ok os" and "finite A"
  shows "set (hash_order os k A) = A" and "distinct (hash_order os k A)"
  using assms by (auto simp: hash_order_ok_def)

text \<open>
  \<open>log k\<close> is what \<open>kill\<close> and \<open>killpg\<close> have been asked to send
  so far; the calls of ptrace and the run of a signal handler do not change it.
\<close>

datatype sent = To_Task i32 signal | To_Group i32 signal

definition logs_signals :: "'k os \<Rightarrow> ('k \<Rightarrow> sent list) \<Rightarrow> bool" where
  "logs_signals os log \<longleftrightarrow>
     (\<forall>k pid sig. log (sys_kill os k pid sig) = log k @ [To_Task pid sig]) \<and>
     (\<forall>k pgid sig. log (sys_killpg os k pgid sig) = log k @ [To_Group pgid sig]) \<and>
     (\<forall>k pid sig. log (snd (ptrace_cont os k pid sig)) = log k) \<and>
     (\<forall>k pid sig. log (snd (ptrace_syscall os k pid sig)) = log k) \<and>
     (\<forall>k pid. log (snd (ptrace_kill os k pid)) = log k) \<and>
     (\<forall>k. log (snd (delivered_signals os k)) = log k)"

section \<open>Kernel steps and events\<close>

text \<open>One call of the program that may change the kernel state, the two forms of \<open>waitpid\<close> excepted.\<close>

inductive os_step :: "'k os \<Rightarrow> 'k \<Rightarrow> 'k \<Rightarrow> bool" for os where
  poke: "os_step os k (snd (ptrace_poke os k pid a w))"
| setregs: "os_step os k (snd (ptrace_setregs os k pid regs))"
| setoptions: "os_step os k (snd (ptrace_setoptions os k pid opts))"
| cont: "os_step os k (snd (ptrace_cont os k pid sig))"
| syscall: "os_step os k (snd (ptrace_syscall os k pid sig))"
| ptrace_kill: "os_step os k (snd (ptrace_kill os k pid))"
| kill: "os_step os k (sys_kill os k pid s)"
| killpg: "os_step os k (sys_killpg os k pid s)"
| sigaction: "os_step os k (snd (sys_sigaction os k s))"
| signals: "os_step os k (snd (delivered_signals os k))"
| pidfd_open: "os_step os k (snd (pidfd_open os k pid))"
| pidfd_getfd: "os_step os k (snd (pidfd_getfd os k pidfd fd))"
| close: "os_step os k (close_own os k fd)"

abbreviation os_steps :: "'k os \<Rightarrow> 'k \<Rightarrow> 'k \<Rightarrow> bool" where
  "os_steps os \<equiv> (os_step os)\<^sup>*\<^sup>*"

lemma os_steps_trans: "os_steps os k k' \<Longrightarrow> os_steps os k' k'' \<Longrightarrow> os_steps os k k''"
  by (rule rtranclp_trans)

text \<open>
  The traced programs produce finitely many events: \<open>left k\<close> bounds the number of
  reports that \<open>waitpid\<close> can still make before it blocks for ever or says that there is
  no child, and no call adds to it.
\<close>

definition finite_events :: "'k os \<Rightarrow> ('k \<Rightarrow> nat) \<Rightarrow> bool" where
  "finite_events os left \<longleftrightarrow>
     (\<forall>k k'. os_step os k k' \<longrightarrow> left k' \<le> left k) \<and>
     (\<forall>k pid. left (snd (waitpid_nohang os k pid)) \<le> left k) \<and>
     (\<forall>k w k'. wait_for_tracee os k = Some (w, k') \<and> w \<noteq> Inl ECHILD \<longrightarrow> left k' < left k)"

lemma finite_events_steps:
  assumes "finite_events os left" and "os_steps os k k'"
  shows "left k' \<le> left k"
  using assms(2)
proof (induction rule: rtranclp_induct)
  case (step y z)
  then show ?case using assms(1) unfolding finite_events_def by fastforce
qed simp

lemma finite_events_nohang: "finite_events os left \<Longrightarrow> left (snd (waitpid_nohang os k pid)) \<le> left k"
  by (simp add: finite_events_def)

lemma finite_events_wait:
  "finite_events os left \<Longrightarrow> wait_for_tracee os k = Some (w, k') \<Longrightarrow> w \<noteq> Inl ECHILD \<Longrightarrow> left k' < left k"
  by (simp add: finite_events_def)

text \<open>
  The stops that \<open>waitpid\<close> has reported and that are not answered yet: a report of a
  stop adds the task; a resumption that succeeds, or that fails because there is no such stopped
  task, takes it away, as the end of the task does; no other call adds to them. A query that fails
  because there is no such stopped task finds none.
\<close>

fun stop_of :: "errno + wait_status \<Rightarrow> i32 set" where
  "stop_of (Inr (Stopped pid sig)) = {pid}"
| "stop_of (Inr (PtraceEvent pid sig event)) = {pid}"
| "stop_of (Inr (PtraceSyscall pid)) = {pid}"
| "stop_of _ = {}"

definition stop_reports :: "'k os \<Rightarrow> ('k \<Rightarrow> i32 set) \<Rightarrow> bool" where
  "stop_reports os stopped \<longleftrightarrow>
     (\<forall>k k'. os_step os k k' \<longrightarrow> stopped k' \<subseteq> stopped k) \<and>
     (\<forall>k w k'. wait_for_tracee os k = Some (w, k') \<longrightarrow> stopped k' \<subseteq> stopped k \<union> stop_of w) \<and>
     (\<forall>k pid sig. fst (ptrace_cont os k pid sig) \<in> {Inr (), Inl ESRCH} \<longrightarrow>
        pid \<notin> stopped (snd (ptrace_cont os k pid sig))) \<and>
     (\<forall>k pid sig. fst (ptrace_syscall os k pid sig) \<in> {Inr (), Inl ESRCH} \<longrightarrow>
        pid \<notin> stopped (snd (ptrace_syscall os k pid sig))) \<and>
     (\<forall>k pid. ptrace_getregs os k pid = Inl ESRCH \<or> ptrace_getsiginfo os k pid = Inl ESRCH \<longrightarrow>
        pid \<notin> stopped k)"

end
