(* ===== verification/Arch.thy ===== *)
theory Arch
  imports Kernel
begin

text \<open>
  \<open>src/tracer/arch_x86_64.rs\<close>: the x86-64 system call convention. An argument index
  above 5 makes \<open>get_syscall_arg\<close> and \<open>set_syscall_arg\<close> panic, which is
  \<open>None\<close> here; the callers of the program use constant indices up to 2.
\<close>

definition SYS_CLOSE :: i64 where "SYS_CLOSE = 3"
definition SYS_CLONE :: i64 where "SYS_CLONE = 56"
definition SYS_CLONE3 :: i64 where "SYS_CLONE3 = 435"
definition SYS_CONNECT :: i64 where "SYS_CONNECT = 42"
definition SYS_GETSOCKNAME :: i64 where "SYS_GETSOCKNAME = 51"
definition SYS_SOCKET :: i64 where "SYS_SOCKET = 41"

lemmas syscall_numbers =
  SYS_CLOSE_def SYS_CLONE_def SYS_CLONE3_def SYS_CONNECT_def SYS_GETSOCKNAME_def SYS_SOCKET_def

definition get_syscall_nr :: "user_regs \<Rightarrow> i64" where
  "get_syscall_nr regs = orig_rax regs"

definition set_syscall_nr :: "user_regs \<Rightarrow> i64 \<Rightarrow> user_regs" where
  "set_syscall_nr regs nr = regs\<lparr>orig_rax := nr\<rparr>"

definition get_syscall_arg :: "user_regs \<Rightarrow> nat \<Rightarrow> u64 option" where
  "get_syscall_arg regs n =
     (if n = 0 then Some (rdi regs)
      else if n = 1 then Some (rsi regs)
      else if n = 2 then Some (rdx regs)
      else if n = 3 then Some (r10 regs)
      else if n = 4 then Some (r8 regs)
      else if n = 5 then Some (r9 regs)
      else None)"

definition set_syscall_arg :: "user_regs \<Rightarrow> nat \<Rightarrow> u64 \<Rightarrow> user_regs option" where
  "set_syscall_arg regs n val =
     (if n = 0 then Some (regs\<lparr>rdi := val\<rparr>)
      else if n = 1 then Some (regs\<lparr>rsi := val\<rparr>)
      else if n = 2 then Some (regs\<lparr>rdx := val\<rparr>)
      else if n = 3 then Some (regs\<lparr>r10 := val\<rparr>)
      else if n = 4 then Some (regs\<lparr>r8 := val\<rparr>)
      else if n = 5 then Some (regs\<lparr>r9 := val\<rparr>)
      else None)"

definition get_return_value :: "user_regs \<Rightarrow> i64" where
  "get_return_value regs = rax regs"

definition set_return_value :: "user_regs \<Rightarrow> i64 \<Rightarrow> user_regs" where
  "set_return_value regs val = regs\<lparr>rax := val\<rparr>"

definition get_regs :: "'k os \<Rightarrow> 'k \<Rightarrow> i32 \<Rightarrow> io_error + user_regs" where
  "get_regs os k pid = map_err Os_Error (ptrace_getregs os k pid)"

definition set_regs :: "'k os \<Rightarrow> 'k \<Rightarrow> i32 \<Rightarrow> user_regs \<Rightarrow> (io_error + unit) \<times> 'k" where
  "set_regs os k pid regs =
     (case ptrace_setregs os k pid regs of (r, k') \<Rightarrow> (map_err Os_Error r, k'))"

lemma set_get_syscall_arg:
  "set_syscall_arg regs n val = Some regs' \<Longrightarrow>
     get_syscall_arg regs' m = (if m = n then Some val else get_syscall_arg regs m)"
  by (auto simp: set_syscall_arg_def get_syscall_arg_def split: if_splits)

lemma set_syscall_arg_keeps:
  assumes "set_syscall_arg regs n val = Some regs'"
  shows "get_syscall_nr regs' = get_syscall_nr regs"
    and "get_return_value regs' = get_return_value regs"
    and "other_regs regs' = other_regs regs"
  using assms
  by (auto simp: set_syscall_arg_def get_syscall_nr_def get_return_value_def split: if_splits)

lemma syscall_arg_defined: "get_syscall_arg regs n \<noteq> None \<longleftrightarrow> n \<le> 5"
  by (auto simp: get_syscall_arg_def)

text \<open>The argument at an index the program uses.\<close>

definition syscall_arg :: "user_regs \<Rightarrow> nat \<Rightarrow> u64" where
  "syscall_arg regs n = (case get_syscall_arg regs n of Some v \<Rightarrow> v | None \<Rightarrow> 0)"

lemma syscall_arg_simps [simp]:
  "syscall_arg regs 0 = rdi regs"
  "syscall_arg regs (Suc 0) = rsi regs"
  "syscall_arg regs 2 = rdx regs"
  by (simp_all add: syscall_arg_def get_syscall_arg_def)

end
