(* ===== verification/Sample_Kernel.thy ===== *)
theory Sample_Kernel
  imports Kernel
begin

text \<open>
  A concrete kernel state and concrete calls over it, on which the hypotheses about the operating
  system are shown to hold: one memory per tracee, one register set per tracee, a script of what
  \<open>waitpid\<close> reports, the stops that are not answered, the signals that were sent, a
  script of delivered signals, a fixed view of the proc file system and fixed results for the resume
  calls. The witnesses of the properties evaluate the program on it.
\<close>

record sample_kernel =
  sk_mem :: "i32 \<Rightarrow> memory"
  sk_regs :: "i32 \<Rightarrow> user_regs option"
  sk_waits :: "(errno + wait_status) list"
  sk_signals :: "signal list"
  sk_fs :: procfs
  sk_resume :: "errno + unit"
  sk_socktype :: "errno + i32"
  sk_eventmsg :: "errno + u64"
  sk_own :: "i32 set"
  sk_stopped :: "i32 set"
  sk_sent :: "sent list"

definition sample_poke :: "sample_kernel \<Rightarrow> i32 \<Rightarrow> u64 \<Rightarrow> u64 \<Rightarrow> (errno + unit) \<times> sample_kernel" where
  "sample_poke k pid a w =
     (if readable (sk_mem k pid) a 8
      then (Inr (), k\<lparr>sk_mem := (sk_mem k)(pid := store_bytes (sk_mem k pid) a (u64_to_ne_bytes w))\<rparr>)
      else (Inl 5, k))"

definition sample_peek :: "sample_kernel \<Rightarrow> i32 \<Rightarrow> u64 \<Rightarrow> errno + u64" where
  "sample_peek k pid a =
     (if readable (sk_mem k pid) a 8
      then Inr (u64_from_ne_bytes (bytes_at (sk_mem k pid) a 8)) else Inl 5)"

definition sample_readv :: "sample_kernel \<Rightarrow> i32 \<Rightarrow> u64 \<Rightarrow> nat \<Rightarrow> errno + u8 list" where
  "sample_readv k pid a n =
     (if readable (sk_mem k pid) a n then Inr (bytes_at (sk_mem k pid) a n) else Inl 14)"

definition sample_wait :: "sample_kernel \<Rightarrow> (errno + wait_status) \<times> sample_kernel" where
  "sample_wait k =
     (case sk_waits k of [] \<Rightarrow> (Inl ECHILD, k) | w # ws \<Rightarrow> (w, k\<lparr>sk_waits := ws, sk_stopped := sk_stopped k \<union> stop_of w\<rparr>))"

definition sample_open :: "i32 \<Rightarrow> sample_kernel \<Rightarrow> (errno + i32) \<times> sample_kernel" where
  "sample_open fd k = (if fd \<in> sk_own k then (Inl 24, k) else (Inr fd, k\<lparr>sk_own := insert fd (sk_own k)\<rparr>))"

definition sample_os :: "sample_kernel os" where
  "sample_os =
     \<lparr>vm_readv = sample_readv,
      ptrace_peek = sample_peek,
      ptrace_poke = sample_poke,
      ptrace_getregs = (\<lambda>k pid. ok_or ESRCH (sk_regs k pid)),
      ptrace_setregs = (\<lambda>k pid regs.
        if sk_regs k pid = None then (Inl ESRCH, k) else (Inr (), k\<lparr>sk_regs := (sk_regs k)(pid \<mapsto> regs)\<rparr>)),
      ptrace_geteventmsg = (\<lambda>k pid. sk_eventmsg k),
      ptrace_setoptions = (\<lambda>k pid opts. (Inr (), k)),
      ptrace_getsiginfo = (\<lambda>k pid. Inr ()),
      ptrace_cont = (\<lambda>k pid sig. (sk_resume k, k\<lparr>sk_stopped := sk_stopped k - {pid}\<rparr>)),
      ptrace_syscall = (\<lambda>k pid sig. (sk_resume k, k\<lparr>sk_stopped := sk_stopped k - {pid}\<rparr>)),
      ptrace_kill = (\<lambda>k pid. (sk_resume k, k)),
      sys_kill = (\<lambda>k pid sig. k\<lparr>sk_sent := sk_sent k @ [To_Task pid sig]\<rparr>),
      sys_killpg = (\<lambda>k pgid sig. k\<lparr>sk_sent := sk_sent k @ [To_Group pgid sig]\<rparr>),
      waitpid_call = (\<lambda>k pid flags. if pid = - 1 then sample_wait k else (Inr StillAlive, k)),
      wait_blocks = (\<lambda>k. False),
      sys_sigaction = (\<lambda>k sig. (Inr (), k)),
      delivered_signals = (\<lambda>k. (sk_signals k, k\<lparr>sk_signals := []\<rparr>)),
      clock_millis = (\<lambda>k. 0),
      hash_order = (\<lambda>k A. sorted_list_of_set A),
      pidfd_open = (\<lambda>k pid. sample_open 100 k),
      pidfd_getfd = (\<lambda>k pidfd fd. sample_open 101 k),
      getsockopt_type = (\<lambda>k fd. sk_socktype k),
      close_own = (\<lambda>k fd. k\<lparr>sk_own := sk_own k - {fd}\<rparr>),
      proc_view = sk_fs\<rparr>"

lemma sample_waits [simp]: "wait_for_tracee sample_os k = Some (sample_wait k)"
  by (simp add: wait_for_tracee_def sample_os_def)

lemma sample_memory: "tracee_memory sample_os sk_mem pid"
  by (simp add: tracee_memory_def sample_os_def sample_poke_def sample_peek_def sample_readv_def)

lemma sample_descriptors: "own_descriptors sample_os sk_own"
  by (simp add: own_descriptors_def sample_os_def sample_open_def)

lemma sample_pidfd_calls: "pidfd_calls_keep sample_os sk_mem"
  by (simp add: pidfd_calls_keep_def sample_os_def sample_open_def)

lemma sample_pidfd_fs: "pidfd_calls_keep sample_os sk_fs"
  by (simp add: pidfd_calls_keep_def sample_os_def sample_open_def)

lemma sample_regs: "tracee_regs sample_os (\<lambda>k pid. the (sk_regs k pid)) pid"
  by (auto simp: tracee_regs_def sample_os_def ok_or_def is_ok_def split: option.splits)

lemma sample_logs: "logs_signals sample_os sk_sent"
  by (simp add: logs_signals_def sample_os_def)

lemma sample_hash_order: "hash_order_ok sample_os"
  by (simp add: hash_order_ok_def sample_os_def)

lemma sample_events: "finite_events sample_os (\<lambda>k. length (sk_waits k))"
proof -
  have "length (sk_waits k') \<le> length (sk_waits k)" if "os_step sample_os k k'" for k k'
    using that by cases (auto simp: sample_os_def sample_poke_def sample_open_def)
  moreover have "length (sk_waits k') < length (sk_waits k)"
    if "wait_for_tracee sample_os k = Some (w, k')" "w \<noteq> Inl ECHILD" for k w k'
    using that by (auto simp: sample_wait_def split: list.splits)
  moreover have "length (sk_waits (snd (waitpid_nohang sample_os k pid))) \<le> length (sk_waits k)" for k pid
    by (simp add: waitpid_nohang_def sample_os_def sample_wait_def split: list.splits)
  ultimately show ?thesis unfolding finite_events_def by blast
qed

lemma sample_stops: "stop_reports sample_os (\<lambda>k. {pid \<in> sk_stopped k. sk_regs k pid \<noteq> None})"
proof -
  have step: "{pid \<in> sk_stopped k'. sk_regs k' pid \<noteq> None} \<subseteq> {pid \<in> sk_stopped k. sk_regs k pid \<noteq> None}"
    if "os_step sample_os k k'" for k k'
    using that by cases (auto simp: sample_os_def sample_poke_def sample_open_def split: if_splits)
  have report: "{pid \<in> sk_stopped k'. sk_regs k' pid \<noteq> None} \<subseteq>
      {pid \<in> sk_stopped k. sk_regs k pid \<noteq> None} \<union> stop_of w"
    if "wait_for_tracee sample_os k = Some (w, k')" for k w k'
    using that by (auto simp: sample_wait_def split: list.splits)
  have gone: "ptrace_getregs sample_os k pid = Inl ESRCH \<or> ptrace_getsiginfo sample_os k pid = Inl ESRCH \<Longrightarrow>
      sk_regs k pid = None" for k pid
    by (simp add: sample_os_def ok_or_def split: option.splits)
  have resumed: "pid \<notin> sk_stopped (snd (ptrace_cont sample_os k pid sig))"
    "pid \<notin> sk_stopped (snd (ptrace_syscall sample_os k pid sig))" for k pid sig
    by (simp_all add: sample_os_def)
  show ?thesis
    unfolding stop_reports_def
    by (intro conjI allI impI) (erule step, erule report, simp_all only: mem_Collect_eq resumed gone, auto)
qed

text \<open>An empty proc file system, and one page of zero bytes at an address.\<close>

definition empty_fs :: procfs where
  "empty_fs =
     \<lparr>read_to_string = (\<lambda>p. None), open_lines = (\<lambda>p. None), read_link = (\<lambda>p. None),
      path_exists = (\<lambda>p. True), read_dir = (\<lambda>p. None)\<rparr>"

definition page_at :: "u64 \<Rightarrow> memory" where
  "page_at a = (\<lambda>x. if unat (x - a) < 4096 then Some 0 else None)"

lemma readable_page: "n \<le> 4096 \<Longrightarrow> readable (page_at a) a n"
  by (simp add: readable_iff page_at_def unat_of_nat)

definition sample_state :: sample_kernel where
  "sample_state =
     \<lparr>sk_mem = (\<lambda>pid. page_at 4096), sk_regs = (\<lambda>pid. None), sk_waits = [], sk_signals = [],
      sk_fs = empty_fs, sk_resume = Inr (), sk_socktype = Inr 1, sk_eventmsg = Inr 7,
      sk_own = {}, sk_stopped = {}, sk_sent = []\<rparr>"

lemma sample_readable: "n \<le> 4096 \<Longrightarrow> readable (sk_mem sample_state pid) 4096 n"
  by (simp add: sample_state_def readable_page)

end
