(* ===== verification/Tracee_Memory.thy ===== *)
theory Tracee_Memory
  imports Arch Sample_Kernel
begin

text \<open>
  \<open>src/tracer/memory.rs\<close>: reading and writing socket addresses and words in the memory
  of a stopped tracee. \<open>sockaddr_buf\<close> is the buffer \<open>write_sockaddr\<close> fills,
  \<open>parse_sockaddr\<close> the decoding in \<open>read_sockaddr\<close>.
  \<open>write_sockaddr\<close> pokes whole words and merges a trailing partial word with what is
  there.

  Over a kernel with the documented memory behaviour the lemmas show that
  \<open>write_sockaddr\<close> stores exactly the bytes of the socket address and nothing else, and
  that reading gives back what was written.
\<close>

section \<open>The code\<close>

definition AF_INET :: i32 where "AF_INET = 2"
definition AF_INET6 :: i32 where "AF_INET6 = 10"

definition sockaddr_size :: nat where "sockaddr_size = 28"

text \<open>A buffer of \<open>n\<close> zero bytes after a transfer of the bytes \<open>bs\<close> into it.\<close>

definition fill_buf :: "nat \<Rightarrow> u8 list \<Rightarrow> u8 list" where
  "fill_buf n bs = take n (bs @ replicate n 0)"

definition parse_sockaddr :: "u8 list \<Rightarrow> error + socket_addr" where
  "parse_sockaddr buf =
     (let family = u16_from_ne_bytes [buf ! 0, buf ! 1]
      in if ucast family = AF_INET
         then (let port = u16_from_be_bytes [buf ! 2, buf ! 3];
                   octets = [buf ! 4, buf ! 5, buf ! 6, buf ! 7]
               in Inr (SockV4 (v4_from_octets octets) port))
         else if ucast family = AF_INET6
         then (let port = u16_from_be_bytes [buf ! 2, buf ! 3];
                   ip_bytes = take 16 (drop 8 buf)
               in Inr (SockV6 (v6_from_octets ip_bytes) port 0 0))
         else Inl (UnknownAddressFamily family))"

definition read_sockaddr :: "'k os \<Rightarrow> 'k \<Rightarrow> i32 \<Rightarrow> u64 \<Rightarrow> u64 \<Rightarrow> error + socket_addr" where
  "read_sockaddr os k pid a addrlen =
     rbind (map_err MemoryRead (vm_readv os k pid a sockaddr_size)) (\<lambda>bs.
       parse_sockaddr (fill_buf sockaddr_size bs))"

text \<open>The prefix of the zeroed buffer that is written: a \<open>sockaddr_in\<close> or a \<open>sockaddr_in6\<close>.\<close>

fun sockaddr_buf :: "socket_addr \<Rightarrow> u8 list" where
  "sockaddr_buf (SockV4 ip port) =
     u16_to_ne_bytes (ucast AF_INET) @ u16_to_be_bytes port @ v4_octets ip @ replicate 8 0"
| "sockaddr_buf (SockV6 ip port fl sc) =
     u16_to_ne_bytes (ucast AF_INET6) @ u16_to_be_bytes port @ replicate 4 0 @
     v6_octets ip @ replicate 4 0"

definition word_size :: nat where "word_size = 8"

text \<open>The loop over the full words: \<open>n\<close> words are left, the next one is number \<open>i\<close>.\<close>

fun write_words ::
  "'k os \<Rightarrow> i32 \<Rightarrow> u64 \<Rightarrow> u8 list \<Rightarrow> nat \<Rightarrow> nat \<Rightarrow> 'k \<Rightarrow> (error + unit) \<times> 'k" where
  "write_words os pid a buf i 0 k = (Inr (), k)"
| "write_words os pid a buf i (Suc n) k =
     (let offset = i * word_size;
          word_bytes = take word_size (drop offset buf)
      in case ptrace_poke os k pid (a + of_nat offset) (u64_from_ne_bytes word_bytes) of
           (Inl e, k') \<Rightarrow> (Inl (Ptrace e), k')
         | (Inr _, k') \<Rightarrow> write_words os pid a buf (i + 1) n k')"

definition write_remainder ::
  "'k os \<Rightarrow> i32 \<Rightarrow> u64 \<Rightarrow> u8 list \<Rightarrow> 'k \<Rightarrow> (error + unit) \<times> 'k" where
  "write_remainder os pid a buf k =
     (let remainder = length buf mod word_size
      in if remainder = 0 then (Inr (), k)
         else (let offset = length buf div word_size * word_size
               in case ptrace_peek os k pid (a + of_nat offset) of
                    Inl e \<Rightarrow> (Inl (Ptrace e), k)
                  | Inr existing \<Rightarrow>
                      (let existing_bytes = u64_to_ne_bytes existing;
                           new_bytes = take remainder (drop offset buf) @ drop remainder existing_bytes
                       in case ptrace_poke os k pid (a + of_nat offset) (u64_from_ne_bytes new_bytes) of
                            (Inl e, k') \<Rightarrow> (Inl (Ptrace e), k')
                          | (Inr _, k') \<Rightarrow> (Inr (), k'))))"

definition write_sockaddr ::
  "'k os \<Rightarrow> 'k \<Rightarrow> i32 \<Rightarrow> u64 \<Rightarrow> socket_addr \<Rightarrow> (error + unit) \<times> 'k" where
  "write_sockaddr os k pid a sa =
     (let buf = sockaddr_buf sa
      in case write_words os pid a buf 0 (length buf div word_size) k of
           (Inl e, k') \<Rightarrow> (Inl e, k')
         | (Inr _, k') \<Rightarrow> write_remainder os pid a buf k')"

definition read_u64 :: "'k os \<Rightarrow> 'k \<Rightarrow> i32 \<Rightarrow> u64 \<Rightarrow> error + u64" where
  "read_u64 os k pid a =
     rbind (map_err MemoryRead (vm_readv os k pid a 8)) (\<lambda>bs.
       Inr (u64_from_ne_bytes (fill_buf 8 bs)))"

definition write_u64 :: "'k os \<Rightarrow> 'k \<Rightarrow> i32 \<Rightarrow> u64 \<Rightarrow> u64 \<Rightarrow> (error + unit) \<times> 'k" where
  "write_u64 os k pid a val =
     (case ptrace_poke os k pid a val of
        (Inl e, k') \<Rightarrow> (Inl (Ptrace e), k')
      | (Inr _, k') \<Rightarrow> (Inr (), k'))"

section \<open>Encoding and decoding\<close>

lemma length_sockaddr_buf: "length (sockaddr_buf sa) = (if is_v6 sa then 28 else 16)"
  by (cases sa) auto

lemma fill_buf_exact [simp]: "length bs = n \<Longrightarrow> fill_buf n bs = bs"
  by (simp add: fill_buf_def)

lemma pair_of_length_2: "length bs = 2 \<Longrightarrow> [bs ! 0, bs ! Suc 0] = bs"
  by (auto simp: list_eq_iff_nth_eq less_Suc_eq numeral_2_eq_2)

lemma quad_of_length_4: "length bs = 4 \<Longrightarrow> [bs ! 0, bs ! Suc 0, bs ! 2, bs ! 3] = bs"
  by (auto simp: list_eq_iff_nth_eq less_Suc_eq numeral_eq_Suc)

text \<open>What \<open>read_sockaddr\<close> keeps of an address: flow information and scope are dropped.\<close>

fun plain_addr :: "socket_addr \<Rightarrow> socket_addr" where
  "plain_addr (SockV4 ip port) = SockV4 ip port"
| "plain_addr (SockV6 ip port fl sc) = SockV6 ip port 0 0"

lemma family_bytes:
  "u16_to_ne_bytes 2 = [2, 0]" "u16_to_ne_bytes 10 = [10, 0]"
  "u16_from_ne_bytes [2, 0] = 2" "u16_from_ne_bytes [10, 0] = 10"
  by code_simp+

lemma parse_sockaddr_buf: "parse_sockaddr (sockaddr_buf sa @ rest) = Inr (plain_addr sa)"
proof (cases sa)
  case (SockV4 ip port)
  obtain p0 p1 where p: "u16_to_be_bytes port = [p0, p1]"
    using u16_be.length_enc [of port] pair_of_length_2 [of "u16_to_be_bytes port"] by metis
  obtain a b c d where oct: "v4_octets ip = [a, b, c, d]" using v4_octets_list by blast
  have "u16_from_be_bytes [p0, p1] = port" "v4_from_octets [a, b, c, d] = ip"
    using u16_be.dec_enc [of port] v4_oct.dec_enc [of ip] by (simp_all add: p oct)
  then show ?thesis
    by (simp add: SockV4 parse_sockaddr_def family_bytes p oct Let_def AF_INET_def AF_INET6_def)
next
  case (SockV6 ip port fl sc)
  obtain p0 p1 where p: "u16_to_be_bytes port = [p0, p1]"
    using u16_be.length_enc [of port] pair_of_length_2 [of "u16_to_be_bytes port"] by metis
  have "u16_from_be_bytes [p0, p1] = port"
    using u16_be.dec_enc [of port] by (simp add: p)
  then show ?thesis
    by (simp add: SockV6 parse_sockaddr_def family_bytes p Let_def AF_INET_def AF_INET6_def
        v6_oct.dec_enc)
qed

text \<open>Decoding loses only the padding: re-encoding gives back the bytes that were decoded.\<close>

lemma family_of_ucast:
  assumes "(ucast (f :: u16) :: i32) = ucast (v :: u16)"
  shows "f = v"
proof -
  have "w = ucast (ucast w :: i32)" for w :: u16
    by (rule bit_word_eqI) (auto simp: bit_simps dest: bit_imp_le_length)
  then show ?thesis using assms by metis
qed

lemma first_eight:
  assumes "8 \<le> length buf"
  shows "\<exists>b0 b1 b2 b3 b4 b5 b6 b7 rest. buf = b0 # b1 # b2 # b3 # b4 # b5 # b6 # b7 # rest"
proof -
  have "Suc (Suc (Suc (Suc (Suc (Suc (Suc (Suc 0))))))) \<le> length buf" using assms by simp
  then show ?thesis by (simp only: Suc_le_length_iff) blast
qed

lemma parse_sockaddr_v4_bytes:
  assumes "8 \<le> length buf" and "parse_sockaddr buf = Inr (SockV4 ip port)"
  shows "take 8 (sockaddr_buf (SockV4 ip port)) = take 8 buf"
proof -
  obtain b0 b1 b2 b3 b4 b5 b6 b7 rest where
    buf: "buf = b0 # b1 # b2 # b3 # b4 # b5 # b6 # b7 # rest"
    using first_eight [OF assms(1)] by blast
  have "ucast (u16_from_ne_bytes [b0, b1]) = AF_INET"
    and port: "port = u16_from_be_bytes [b2, b3]" and ip: "ip = v4_from_octets [b4, b5, b6, b7]"
    using assms(2) by (auto simp: buf parse_sockaddr_def Let_def split: if_splits)
  then have "u16_from_ne_bytes [b0, b1] = u16_from_ne_bytes [2, 0]"
    using family_of_ucast [of "u16_from_ne_bytes [b0, b1]" 2] by (simp add: AF_INET_def family_bytes)
  then have "[b0, b1] = [2, 0]" using u16_ne.dec_inj [of "[b0, b1]" "[2, 0]"] by simp
  moreover have "u16_to_be_bytes port = [b2, b3]" "v4_octets ip = [b4, b5, b6, b7]"
    by (simp_all add: port ip u16_be.enc_dec v4_oct.enc_dec)
  ultimately show ?thesis by (simp add: buf AF_INET_def family_bytes)
qed

lemma parse_sockaddr_v6_bytes:
  assumes "length buf = 28" and "parse_sockaddr buf = Inr (SockV6 ip port fl sc)"
  shows "take 4 (sockaddr_buf (SockV6 ip port fl sc)) = take 4 buf"
    and "take 16 (drop 8 (sockaddr_buf (SockV6 ip port fl sc))) = take 16 (drop 8 buf)"
    and "fl = 0" and "sc = 0"
proof -
  obtain b0 b1 b2 b3 b4 b5 b6 b7 rest where
    buf: "buf = b0 # b1 # b2 # b3 # b4 # b5 # b6 # b7 # rest"
    using first_eight [of buf] assms(1) by auto
  have "ucast (u16_from_ne_bytes [b0, b1]) = AF_INET6"
    and port: "port = u16_from_be_bytes [b2, b3]" and ip: "ip = v6_from_octets (take 16 rest)"
    and z: "fl = 0" "sc = 0"
    using assms(2) by (auto simp: buf parse_sockaddr_def Let_def split: if_splits)
  then have "u16_from_ne_bytes [b0, b1] = u16_from_ne_bytes [10, 0]"
    using family_of_ucast [of "u16_from_ne_bytes [b0, b1]" 10] by (simp add: AF_INET6_def family_bytes)
  then have fam: "[b0, b1] = [10, 0]" using u16_ne.dec_inj [of "[b0, b1]" "[10, 0]"] by simp
  have enc: "u16_to_be_bytes port = [b2, b3]" "v6_octets ip = take 16 rest"
    using assms(1) by (simp_all add: port ip buf u16_be.enc_dec v6_oct.enc_dec)
  show "take 4 (sockaddr_buf (SockV6 ip port fl sc)) = take 4 buf"
    using fam by (simp add: buf AF_INET6_def family_bytes enc)
  show "take 16 (drop 8 (sockaddr_buf (SockV6 ip port fl sc))) = take 16 (drop 8 buf)"
    using assms(1) by (simp add: buf AF_INET6_def family_bytes enc)
  show "fl = 0" "sc = 0" by (fact z)+
qed

text \<open>Outside the padding, the bytes of a decoded address are those that were decoded.\<close>

lemma parse_sockaddr_keeps:
  assumes len: "length buf = 28" and parse: "parse_sockaddr buf = Inr sa"
    and off: "if is_v6 sa then d \<notin> {4..<8} \<union> {24..<28} else d \<notin> {8..<16}"
    and d: "d < length (sockaddr_buf sa)"
  shows "sockaddr_buf sa ! d = buf ! d"
proof (cases sa)
  case (SockV4 ip port)
  then have "d < 8" using off d by auto
  moreover have "take 8 (sockaddr_buf sa) ! d = take 8 buf ! d"
    using parse_sockaddr_v4_bytes [of buf ip port] len parse by (simp add: SockV4)
  ultimately show ?thesis by simp
next
  case (SockV6 ip port fl sc)
  then have "d < 28" using d by (simp add: length_sockaddr_buf)
  then consider "d < 4" | "8 \<le> d" "d - 8 < 16" using off SockV6 by fastforce
  then show ?thesis
  proof cases
    case 1
    moreover have "take 4 (sockaddr_buf sa) ! d = take 4 buf ! d"
      using parse_sockaddr_v6_bytes(1) [OF len, of ip port fl sc] parse by (simp add: SockV6)
    ultimately show ?thesis by simp
  next
    case 2
    have "take 16 (drop 8 (sockaddr_buf sa)) ! (d - 8) = take 16 (drop 8 buf) ! (d - 8)"
      unfolding SockV6 by (subst parse_sockaddr_v6_bytes(2) [OF len]) (use parse SockV6 in simp_all)
    then show ?thesis using 2 len d by simp
  qed
qed

section \<open>Effect on the tracee\<close>

text \<open>The memory that \<open>write_sockaddr\<close> needs: the address, rounded up to whole words.\<close>

definition sockaddr_span :: "socket_addr \<Rightarrow> nat" where
  "sockaddr_span sa = (if is_v6 sa then 32 else 16)"

lemma write_words_stores:
  assumes "tracee_memory os mem pid" and "readable (mem k pid) a (8 * (i + n))"
    and "8 * (i + n) \<le> length buf" and "length buf \<le> 28"
  shows "\<exists>k'. write_words os pid a buf i n k = (Inr (), k') \<and>
    mem k' pid = store_bytes (mem k pid) (a + of_nat (8 * i)) (take (8 * n) (drop (8 * i) buf))"
  using assms(2,3)
proof (induction n arbitrary: i k)
  case 0
  then show ?case by (simp add: store_bytes_def)
next
  case (Suc n)
  let ?a = "a + of_nat (8 * i)" and ?w = "take 8 (drop (8 * i) buf)"
  let ?p = "ptrace_poke os k pid ?a (u64_from_ne_bytes ?w)"
  have r: "readable (mem k pid) ?a 8" by (rule readable_shift [OF Suc.prems(1)]) simp
  have lw: "length ?w = 8" using Suc.prems(2) by simp
  have m: "mem (snd ?p) pid = store_bytes (mem k pid) ?a ?w"
    using tracee_pokeD(2) [OF assms(1) r] by (simp add: u64_ne.enc_dec [OF lw])
  have "readable (mem (snd ?p) pid) a (8 * (Suc i + n))"
    unfolding m by (rule readable_store) (use Suc.prems(1) in simp)
  then obtain k' where k': "write_words os pid a buf (Suc i) n (snd ?p) = (Inr (), k')"
    "mem k' pid = store_bytes (mem (snd ?p) pid) (a + of_nat (8 * Suc i))
       (take (8 * n) (drop (8 * Suc i) buf))"
    using Suc.IH [of "snd ?p" "Suc i"] Suc.prems(2) by auto
  have a: "a + of_nat (8 * Suc i) = ?a + of_nat (length ?w)" unfolding lw by (simp add: algebra_simps)
  have "mem k' pid = store_bytes (mem k pid) ?a (?w @ take (8 * n) (drop (8 * Suc i) buf))"
    unfolding k'(2) m a by (rule store_bytes_append) (use lw assms(4) in simp)
  also have "?w @ take (8 * n) (drop (8 * Suc i) buf) = take (8 * Suc n) (drop (8 * i) buf)"
    by (simp add: take_add add.commute)
  finally have "mem k' pid = store_bytes (mem k pid) ?a (take (8 * Suc n) (drop (8 * i) buf))" .
  moreover have "write_words os pid a buf i (Suc n) k = (Inr (), k')"
    using tracee_pokeD(1) [OF assms(1) r, of "u64_from_ne_bytes ?w"] k'(1)
    by (cases ?p) (simp add: word_size_def Let_def mult.commute)
  ultimately show ?case by blast
qed

lemma write_remainder_stores:
  assumes "tracee_memory os mem pid" and "readable (mem k pid) a 32" and "length buf = 28"
  shows "\<exists>k'. write_remainder os pid a buf k = (Inr (), k') \<and>
    mem k' pid = store_bytes (mem k pid) (a + 24) (drop 24 buf)"
proof -
  let ?m = "mem k pid" and ?a = "a + 24"
  let ?old = "bytes_at ?m ?a 8"
  let ?new = "drop 24 buf @ drop 4 ?old"
  let ?p = "ptrace_poke os k pid ?a (u64_from_ne_bytes ?new)"
  have r: "readable ?m ?a 8" using readable_shift [OF assms(2), of 24 8] by simp
  have rest: "drop 4 ?old = bytes_at ?m (?a + of_nat 4) 4"
    using bytes_at_drop [of 4 ?m ?a 4] by simp
  have "fst ?p = Inr ()" and "mem (snd ?p) pid = store_bytes ?m ?a ?new"
    using tracee_pokeD [OF assms(1) r, of "u64_from_ne_bytes ?new"] assms(3)
    by (simp_all add: u64_ne.enc_dec)
  moreover have "store_bytes ?m ?a ?new = store_bytes ?m ?a (drop 24 buf)"
  proof -
    let ?s = "store_bytes ?m ?a (drop 24 buf)"
    have keep: "bytes_at ?s (?a + of_nat 4) 4 = bytes_at ?m (?a + of_nat 4) 4"
    proof (rule nth_equalityI)
      fix i
      assume "i < length (bytes_at ?s (?a + of_nat 4) 4)"
      then have i: "i < 4" by simp
      have "unat (?a + of_nat (4 + i) - ?a) = 4 + i" by (rule offset_unat) (use i in simp)
      then have "?s (?a + of_nat (4 + i)) = ?m (?a + of_nat (4 + i))"
        by (intro store_bytes_miss) (use assms(3) in simp)
      then show "bytes_at ?s (?a + of_nat 4) 4 ! i = bytes_at ?m (?a + of_nat 4) 4 ! i"
        using i by (simp add: nth_bytes_at add.assoc)
    qed simp
    have "readable ?s (?a + of_nat 4) 4"
      by (intro readable_store readable_shift [OF r]) simp
    then have "store_bytes ?s (?a + of_nat 4) (bytes_at ?s (?a + of_nat 4) 4) = ?s"
      by (rule store_bytes_same) simp
    moreover have "length (drop 24 buf) = 4" using assms(3) by simp
    ultimately have "?s = store_bytes ?s (?a + of_nat (length (drop 24 buf))) (drop 4 ?old)"
      by (simp only: rest keep)
    also have "\<dots> = store_bytes ?m ?a ?new"
      by (rule store_bytes_append) (use assms(3) in simp)
    finally show ?thesis by simp
  qed
  ultimately have "\<exists>k'. ?p = (Inr (), k') \<and> mem k' pid = store_bytes ?m ?a (drop 24 buf)"
    by (metis prod.collapse)
  then show ?thesis
    using tracee_peekD [OF assms(1) r] assms(3)
    by (auto simp: write_remainder_def word_size_def Let_def u64_ne.enc_dec)
qed

lemma write_sockaddr_stores:
  assumes mem: "tracee_memory os mem pid" and r: "readable (mem k pid) a (sockaddr_span sa)"
  shows "\<exists>k'. write_sockaddr os k pid a sa = (Inr (), k') \<and>
    mem k' pid = store_bytes (mem k pid) a (sockaddr_buf sa)"
proof (cases "is_v6 sa")
  case False
  then have len: "length (sockaddr_buf sa) = 16" by (simp add: length_sockaddr_buf)
  have "readable (mem k pid) a (8 * (0 + 2))" using r False by (simp add: sockaddr_span_def)
  then obtain k' where "write_words os pid a (sockaddr_buf sa) 0 2 k = (Inr (), k')"
    "mem k' pid = store_bytes (mem k pid) a (take 16 (sockaddr_buf sa))"
    using write_words_stores [OF mem, of k a 0 2 "sockaddr_buf sa"] len by auto
  then show ?thesis
    using len by (simp add: write_sockaddr_def write_remainder_def word_size_def Let_def)
next
  case True
  then have len: "length (sockaddr_buf sa) = 28" by (simp add: length_sockaddr_buf)
  have r32: "readable (mem k pid) a 32" using r True by (simp add: sockaddr_span_def)
  then have "readable (mem k pid) a (8 * (0 + 3))" by (rule readable_mono) simp
  then obtain k1 where k1: "write_words os pid a (sockaddr_buf sa) 0 3 k = (Inr (), k1)"
    "mem k1 pid = store_bytes (mem k pid) a (take 24 (sockaddr_buf sa))"
    using write_words_stores [OF mem, of k a 0 3 "sockaddr_buf sa"] len by auto
  have "readable (mem k1 pid) a 32" unfolding k1(2) using r32 by (rule readable_store)
  then obtain k' where k': "write_remainder os pid a (sockaddr_buf sa) k1 = (Inr (), k')"
    "mem k' pid = store_bytes (mem k1 pid) (a + 24) (drop 24 (sockaddr_buf sa))"
    using write_remainder_stores [OF mem _ len, of k1 a] by blast
  have "mem k' pid = store_bytes (mem k pid) a (take 24 (sockaddr_buf sa) @ drop 24 (sockaddr_buf sa))"
    using store_bytes_append [of "take 24 (sockaddr_buf sa)" "drop 24 (sockaddr_buf sa)" "mem k pid" a]
      len by (simp add: k'(2) k1(2))
  then show ?thesis
    using k1(1) k'(1) len by (simp add: write_sockaddr_def word_size_def Let_def)
qed

lemma read_sockaddr_stored:
  assumes mem: "tracee_memory os mem pid"
    and k: "mem k pid = store_bytes m a (sockaddr_buf sa)" and m: "readable m a 28"
  shows "read_sockaddr os k pid a addrlen = Inr (plain_addr sa)"
proof -
  let ?buf = "sockaddr_buf sa" and ?bs = "bytes_at (mem k pid) a 28"
  have len: "length ?buf \<le> 28" by (simp add: length_sockaddr_buf)
  have r: "readable (mem k pid) a 28" unfolding k using m by (rule readable_store)
  have "?bs = take (length ?buf) ?bs @ drop (length ?buf) ?bs" by simp
  also have "take (length ?buf) ?bs = ?buf"
    using len bytes_at_store [of ?buf m a] by (simp add: bytes_at_take k)
  finally have "parse_sockaddr ?bs = Inr (plain_addr sa)" using parse_sockaddr_buf by metis
  then show ?thesis
    using tracee_readvD [OF mem r] by (simp add: read_sockaddr_def sockaddr_size_def)
qed

text \<open>What a successful read says of the memory.\<close>

lemma read_sockaddr_parsed:
  assumes mem: "tracee_memory os mem pid" and ok: "read_sockaddr os k pid a addrlen = Inr sa"
  shows "readable (mem k pid) a 28" and "parse_sockaddr (bytes_at (mem k pid) a 28) = Inr sa"
    and "plain_addr sa = sa"
proof -
  show r: "readable (mem k pid) a 28"
    using tracee_readv_fails [OF mem] ok by (fastforce simp: read_sockaddr_def sockaddr_size_def)
  show p: "parse_sockaddr (bytes_at (mem k pid) a 28) = Inr sa"
    using tracee_readvD [OF mem r] ok by (simp add: read_sockaddr_def sockaddr_size_def)
  show "plain_addr sa = sa"
    using p parse_sockaddr_v6_bytes(3,4) [of "bytes_at (mem k pid) a 28"] by (cases sa) auto
qed

text \<open>
  Rewriting a destination to an IPv4 address and restoring it leaves the memory as it was, except for
  the padding of the socket address, which becomes zero: bytes 8 to 15 of a
  \<open>sockaddr_in\<close>, the flow information and the scope of a \<open>sockaddr_in6\<close>.
\<close>

fun sockaddr_padding :: "socket_addr \<Rightarrow> nat set" where
  "sockaddr_padding (SockV4 ip port) = {8..<16}"
| "sockaddr_padding (SockV6 ip port fl sc) = {4..<8} \<union> {24..<28}"

lemma sockaddr_padding_zero:
  "i \<in> sockaddr_padding sa \<Longrightarrow> i < length (sockaddr_buf sa) \<and> sockaddr_buf sa ! i = 0"
  by (cases sa) (auto simp: nth_append length_sockaddr_buf)

lemma redirect_restore_bytes:
  assumes r: "readable m a 28" and parse: "parse_sockaddr (bytes_at m a 28) = Inr dest"
    and loc: "\<not> is_v6 local_addr" and off: "unat (x - a) \<notin> sockaddr_padding dest"
  shows "store_bytes (store_bytes m a (sockaddr_buf local_addr)) a (sockaddr_buf dest) x = m x"
proof (cases "unat (x - a) < length (sockaddr_buf dest)")
  case False
  then show ?thesis
    using loc by (simp add: store_bytes_def length_sockaddr_buf split: if_splits)
next
  case True
  let ?d = "unat (x - a)"
  have d28: "?d < 28" using True by (simp add: length_sockaddr_buf split: if_splits)
  have ax: "a + of_nat ?d = x" by simp
  have "m (a + of_nat ?d) \<noteq> None" using r d28 unfolding readable_iff by blast
  then have "m x \<noteq> None" unfolding ax .
  moreover have "bytes_at m a 28 ! ?d = the (m x)" using nth_bytes_at [OF d28, of m a] unfolding ax .
  moreover have "sockaddr_buf dest ! ?d = bytes_at m a 28 ! ?d"
    using off by (intro parse_sockaddr_keeps [OF _ parse _ True]) (cases dest; simp)+
  ultimately show ?thesis using True by (simp add: store_bytes_def)
qed

section \<open>Properties\<close>

text \<open>
  C22. On a stopped tracee whose memory is mapped there, \<open>write_sockaddr\<close> succeeds and
  changes exactly the bytes of the socket address: sixteen for IPv4, twenty-eight for IPv6, the bytes
  after the partial last word included among those that stay.
\<close>

theorem write_sockaddr_exact:
  assumes "tracee_memory os mem pid" and "readable (mem k pid) a (sockaddr_span sa)"
  shows "fst (write_sockaddr os k pid a sa) = Inr () \<and>
    mem (snd (write_sockaddr os k pid a sa)) pid = store_bytes (mem k pid) a (sockaddr_buf sa) \<and>
    length (sockaddr_buf sa) = (if is_v6 sa then 28 else 16)"
  using write_sockaddr_stores [OF assms] length_sockaddr_buf [of sa] by auto

theorem write_sockaddr_exact_witness:
  "fst (write_sockaddr sample_os sample_state 7 4096 (SockV6 1 443 0 0)) = Inr ()"
  using write_sockaddr_exact [OF sample_memory, of sample_state 7 4096 "SockV6 1 443 0 0"]
    sample_readable [of 32 7] by (simp add: sockaddr_span_def)

end
