(* ===== verification/Tracker.thy ===== *)
theory Tracker
  imports Sample_Kernel
begin

text \<open>
  \<open>src/socket/tracker.rs\<close>: \<open>SocketTracker\<close>, the table shared by the tracer
  and the local proxy, and the descriptor probe. A hash map is a partial function, a hash set a set.
  An operation that resolves a thread to its group reads the proc file system it is given, once, and
  remembers the answer in \<open>tid_to_tgid\<close>.

  The locale \<open>dest_registry\<close> is the contract between the tracer, which records
  destinations, and the local proxy, which looks them up: what a lookup returns after each operation.
  It is interpreted on the tracker's own maps. On it rest the properties that a recorded destination
  is found, stays found until its descriptor is closed, reused or its process is gone, and is then
  forgotten. \<open>tracer_run\<close> is the relation of the states the tracer can bring the table
  into; \<open>tracker_inv\<close> holds in all of them.
\<close>

section \<open>The code\<close>

record socket_info =
  si_dest :: socket_addr

record pending_sock =
  ps_domain :: i32
  ps_type :: i32

type_synonym fd_key = "i32 \<times> i32"

record tracker =
  fd_dest :: "fd_key \<rightharpoonup> socket_info"
  inode_dest :: "string \<rightharpoonup> socket_info"
  fd_inode :: "fd_key \<rightharpoonup> string"
  tid_to_tgid :: "i32 \<rightharpoonup> i32"
  pending_socket :: "i32 \<rightharpoonup> pending_sock"
  stream_fds :: "fd_key set"

definition tracker_new :: tracker where
  "tracker_new =
     \<lparr>fd_dest = Map.empty, inode_dest = Map.empty, fd_inode = Map.empty, tid_to_tgid = Map.empty,
      pending_socket = Map.empty, stream_fds = {}\<rparr>"

definition is_stream_inet_socket :: "i32 \<Rightarrow> i32 \<Rightarrow> bool" where
  "is_stream_inet_socket domain sock_type = ((domain = 2 \<or> domain = 10) \<and> sock_type AND 1 = 1)"

definition resolve_tgid :: "procfs \<Rightarrow> i32 \<Rightarrow> tracker \<Rightarrow> i32 \<times> tracker" where
  "resolve_tgid fs tid t =
     (case tid_to_tgid t tid of
        Some tgid \<Rightarrow> (tgid, t)
      | None \<Rightarrow>
          (let tgid = tgid_or_self fs tid
           in (tgid, t\<lparr>tid_to_tgid := (tid_to_tgid t)(tid \<mapsto> tgid)\<rparr>)))"

definition socket_enter :: "i32 \<Rightarrow> i32 \<Rightarrow> i32 \<Rightarrow> tracker \<Rightarrow> tracker" where
  "socket_enter pid domain sock_type t =
     t\<lparr>pending_socket :=
         (pending_socket t)(pid \<mapsto> \<lparr>ps_domain = domain, ps_type = sock_type\<rparr>)\<rparr>"

definition socket_exit :: "procfs \<Rightarrow> i32 \<Rightarrow> i32 \<Rightarrow> tracker \<Rightarrow> tracker" where
  "socket_exit fs pid ret_fd t =
     (case pending_socket t pid of
        None \<Rightarrow> t
      | Some pending \<Rightarrow>
          (let t1 = t\<lparr>pending_socket := (pending_socket t)(pid := None)\<rparr>
           in if ret_fd <s 0 then t1
              else if \<not> is_stream_inet_socket (ps_domain pending) (ps_type pending) then t1
              else (case resolve_tgid fs pid t1 of
                      (tgid, t2) \<Rightarrow> t2\<lparr>stream_fds := insert (tgid, ret_fd) (stream_fds t2)\<rparr>)))"

definition close_enter :: "procfs \<Rightarrow> i32 \<Rightarrow> i32 \<Rightarrow> tracker \<Rightarrow> tracker" where
  "close_enter fs pid fd t =
     (case resolve_tgid fs pid t of
        (tgid, t1) \<Rightarrow>
          (let t2 = t1\<lparr>stream_fds := stream_fds t1 - {(tgid, fd)},
                       fd_dest := (fd_dest t1)((tgid, fd) := None)\<rparr>
           in case fd_inode t2 (tgid, fd) of
                None \<Rightarrow> t2
              | Some inode \<Rightarrow>
                  t2\<lparr>fd_inode := (fd_inode t2)((tgid, fd) := None),
                     inode_dest := (inode_dest t2)(inode := None)\<rparr>))"

definition is_stream_socket_fd :: "procfs \<Rightarrow> i32 \<Rightarrow> i32 \<Rightarrow> tracker \<Rightarrow> bool \<times> tracker" where
  "is_stream_socket_fd fs pid fd t =
     (case resolve_tgid fs pid t of (tgid, t1) \<Rightarrow> ((tgid, fd) \<in> stream_fds t1, t1))"

definition mark_stream_socket_fd :: "procfs \<Rightarrow> i32 \<Rightarrow> i32 \<Rightarrow> tracker \<Rightarrow> tracker" where
  "mark_stream_socket_fd fs pid fd t =
     (case resolve_tgid fs pid t of
        (tgid, t1) \<Rightarrow> t1\<lparr>stream_fds := insert (tgid, fd) (stream_fds t1)\<rparr>)"

definition insert_dest :: "procfs \<Rightarrow> i32 \<Rightarrow> i32 \<Rightarrow> socket_info \<Rightarrow> tracker \<Rightarrow> tracker" where
  "insert_dest fs pid fd info t =
     (case resolve_tgid fs pid t of
        (tgid, t1) \<Rightarrow> t1\<lparr>fd_dest := (fd_dest t1)((tgid, fd) \<mapsto> info)\<rparr>)"

definition bind_inode :: "procfs \<Rightarrow> i32 \<Rightarrow> i32 \<Rightarrow> string \<Rightarrow> tracker \<Rightarrow> tracker" where
  "bind_inode fs pid fd inode t =
     (case resolve_tgid fs pid t of
        (tgid, t1) \<Rightarrow>
          (let t2 = (case fd_dest t1 (tgid, fd) of
                       Some info \<Rightarrow> t1\<lparr>inode_dest := (inode_dest t1)(inode \<mapsto> info)\<rparr>
                     | None \<Rightarrow> t1)
           in t2\<lparr>fd_inode := (fd_inode t2)((tgid, fd) \<mapsto> inode)\<rparr>))"

definition get_by_pid_fd :: "tracker \<Rightarrow> i32 \<Rightarrow> i32 \<Rightarrow> socket_info option" where
  "get_by_pid_fd t pid fd = fd_dest t (pid, fd)"

definition get_by_inode :: "tracker \<Rightarrow> string \<Rightarrow> socket_info option" where
  "get_by_inode t inode = inode_dest t inode"

text \<open>The part of \<open>cleanup_process\<close> that tears down a thread group: its inodes go with its keys.\<close>

definition group_inodes :: "i32 \<Rightarrow> tracker \<Rightarrow> string set" where
  "group_inodes tgid t = {inode. \<exists>fd. fd_inode t (tgid, fd) = Some inode}"

definition drop_group :: "i32 \<Rightarrow> tracker \<Rightarrow> tracker" where
  "drop_group tgid t =
     t\<lparr>fd_dest := retain_keys (\<lambda>(p, _). p \<noteq> tgid) (fd_dest t),
       inode_dest := retain_keys (\<lambda>inode. inode \<notin> group_inodes tgid t) (inode_dest t),
       fd_inode := retain_keys (\<lambda>(p, _). p \<noteq> tgid) (fd_inode t),
       stream_fds := {key \<in> stream_fds t. fst key \<noteq> tgid},
       tid_to_tgid := (\<lambda>tid. if tid_to_tgid t tid = Some tgid then None else tid_to_tgid t tid)\<rparr>"

definition cleanup_process :: "procfs \<Rightarrow> i32 \<Rightarrow> tracker \<Rightarrow> tracker" where
  "cleanup_process fs tid t =
     (let tgid = (case tid_to_tgid t tid of Some g \<Rightarrow> g | None \<Rightarrow> tgid_or_self fs tid);
          t1 = t\<lparr>pending_socket := (pending_socket t)(tid := None),
                 tid_to_tgid := (tid_to_tgid t)(tid := None)\<rparr>
      in if tid \<noteq> tgid \<and> process_exists fs tgid then t1 else drop_group tgid t1)"

definition tracker_stats :: "tracker \<Rightarrow> nat" where
  "tracker_stats t = card (dom (fd_dest t))"

definition probe_socket_is_stream ::
  "'k os \<Rightarrow> 'k \<Rightarrow> i32 \<Rightarrow> i32 \<Rightarrow> (io_error + bool) \<times> 'k" where
  "probe_socket_is_stream os k pid fd =
     (let target_pid = tgid_or_self (proc_view os k) pid
      in case pidfd_open os k target_pid of
           (Inl e, k1) \<Rightarrow> (Inl (Os_Error e), k1)
         | (Inr pidfd, k1) \<Rightarrow>
             (case pidfd_getfd os k1 pidfd fd of
                (r, k2) \<Rightarrow>
                  (let k3 = close_own os k2 pidfd
                   in case r of
                        Inl e \<Rightarrow> (Inl (Os_Error e), k3)
                      | Inr dupfd \<Rightarrow>
                          (let ty = getsockopt_type os k3 dupfd; k4 = close_own os k3 dupfd
                           in case ty of
                                Inl e \<Rightarrow> (Inl (Os_Error e), k4)
                              | Inr sock_type \<Rightarrow> (Inr (sock_type AND 1 = 1), k4)))))"

section \<open>Thread groups\<close>

text \<open>The group an operation of this thread will use.\<close>

definition tgid_of :: "procfs \<Rightarrow> tracker \<Rightarrow> i32 \<Rightarrow> i32" where
  "tgid_of fs t tid = fst (resolve_tgid fs tid t)"

definition cached :: "procfs \<Rightarrow> i32 \<Rightarrow> tracker \<Rightarrow> tracker" where
  "cached fs tid t = snd (resolve_tgid fs tid t)"

lemma resolve_tgid_eq: "resolve_tgid fs tid t = (tgid_of fs t tid, cached fs tid t)"
  by (simp add: tgid_of_def cached_def)

lemma cached_simps [simp]:
  "fd_dest (cached fs tid t) = fd_dest t"
  "inode_dest (cached fs tid t) = inode_dest t"
  "fd_inode (cached fs tid t) = fd_inode t"
  "pending_socket (cached fs tid t) = pending_socket t"
  "stream_fds (cached fs tid t) = stream_fds t"
  by (auto simp: cached_def resolve_tgid_def Let_def split: option.splits)

lemma tid_to_tgid_cached [simp]:
  "tid_to_tgid (cached fs tid t) = (tid_to_tgid t)(tid \<mapsto> tgid_of fs t tid)"
  by (auto simp: cached_def tgid_of_def resolve_tgid_def Let_def split: option.splits)

text \<open>Once cached, the group does not depend on the proc file system any more.\<close>

lemma tgid_of_known: "tid_to_tgid t tid = Some g \<Longrightarrow> tgid_of fs t tid = g"
  by (simp add: tgid_of_def resolve_tgid_def)

lemma cached_known: "tid_to_tgid t tid = Some g \<Longrightarrow> cached fs tid t = t"
  by (simp add: cached_def resolve_tgid_def)

section \<open>The contract of the destination table\<close>

locale dest_registry =
  fixes fd_of :: "'t \<Rightarrow> fd_key \<Rightarrow> socket_info option"
    and inode_of :: "'t \<Rightarrow> string \<Rightarrow> socket_info option"
    and bound :: "'t \<Rightarrow> fd_key \<Rightarrow> string option"
    and put_dest :: "fd_key \<Rightarrow> socket_info \<Rightarrow> 't \<Rightarrow> 't"
    and put_inode :: "fd_key \<Rightarrow> string \<Rightarrow> 't \<Rightarrow> 't"
    and forget :: "fd_key \<Rightarrow> 't \<Rightarrow> 't"
    and forget_group :: "i32 \<Rightarrow> 't \<Rightarrow> 't"
  assumes put_dest_laws:
      "fd_of (put_dest key info t) = (fd_of t)(key \<mapsto> info)"
      "inode_of (put_dest key info t) = inode_of t"
      "bound (put_dest key info t) = bound t"
    and put_inode_laws:
      "fd_of (put_inode key i t) = fd_of t"
      "inode_of (put_inode key i t) =
         (case fd_of t key of None \<Rightarrow> inode_of t | Some info \<Rightarrow> (inode_of t)(i \<mapsto> info))"
      "bound (put_inode key i t) = (bound t)(key \<mapsto> i)"
    and forget_laws:
      "fd_of (forget key t) = (fd_of t)(key := None)"
      "inode_of (forget key t) =
         (case bound t key of None \<Rightarrow> inode_of t | Some i \<Rightarrow> (inode_of t)(i := None))"
      "bound (forget key t) = (bound t)(key := None)"
    and forget_group_laws:
      "fd_of (forget_group g t) key = (if fst key = g then None else fd_of t key)"
      "inode_of (forget_group g t) i =
         (if \<exists>fd. bound t (g, fd) = Some i then None else inode_of t i)"
      "bound (forget_group g t) key = (if fst key = g then None else bound t key)"
begin

text \<open>
  A destination is resolvable when the local proxy finds it both by inode and by descriptor, and
  no other descriptor is bound to the inode.
\<close>

definition resolvable :: "fd_key \<Rightarrow> string \<Rightarrow> socket_info \<Rightarrow> 't \<Rightarrow> bool" where
  "resolvable key i info t \<longleftrightarrow>
     fd_of t key = Some info \<and> inode_of t i = Some info \<and> bound t key = Some i \<and>
     (\<forall>key'. bound t key' = Some i \<longrightarrow> key' = key)"

lemma record_resolvable:
  "(\<forall>key'. bound t key' = Some i \<longrightarrow> key' = key) \<Longrightarrow>
     resolvable key i info (put_inode key i (put_dest key info t))"
  by (simp add: resolvable_def put_dest_laws put_inode_laws)

lemma put_dest_keeps:
  "resolvable key i info t \<Longrightarrow> key' \<noteq> key \<Longrightarrow> resolvable key i info (put_dest key' info' t)"
  by (auto simp: resolvable_def put_dest_laws)

lemma put_inode_keeps:
  "resolvable key i info t \<Longrightarrow> key' \<noteq> key \<Longrightarrow> i' \<noteq> i \<Longrightarrow>
     resolvable key i info (put_inode key' i' t)"
  by (auto simp: resolvable_def put_inode_laws split: option.splits)

lemma forget_keeps:
  "resolvable key i info t \<Longrightarrow> key' \<noteq> key \<Longrightarrow> resolvable key i info (forget key' t)"
  by (cases key'; cases "bound t key'") (auto simp: resolvable_def forget_laws)

lemma forget_group_keeps:
  "resolvable key i info t \<Longrightarrow> g \<noteq> fst key \<Longrightarrow> resolvable key i info (forget_group g t)"
  by (auto simp: resolvable_def forget_group_laws)

lemma forget_clears:
  "resolvable key i info t \<Longrightarrow> fd_of (forget key t) key = None \<and> inode_of (forget key t) i = None"
  by (simp add: resolvable_def forget_laws)

lemma forget_group_clears:
  "resolvable (g, fd) i info t \<Longrightarrow>
     fd_of (forget_group g t) (g, fd) = None \<and> inode_of (forget_group g t) i = None"
  by (auto simp: resolvable_def forget_group_laws)

end

text \<open>The tracker's operations on a key that is already resolved.\<close>

definition key_put_dest :: "fd_key \<Rightarrow> socket_info \<Rightarrow> tracker \<Rightarrow> tracker" where
  "key_put_dest key info t = t\<lparr>fd_dest := (fd_dest t)(key \<mapsto> info)\<rparr>"

definition key_put_inode :: "fd_key \<Rightarrow> string \<Rightarrow> tracker \<Rightarrow> tracker" where
  "key_put_inode key inode t =
     t\<lparr>inode_dest := (case fd_dest t key of
                        Some info \<Rightarrow> (inode_dest t)(inode \<mapsto> info) | None \<Rightarrow> inode_dest t),
       fd_inode := (fd_inode t)(key \<mapsto> inode)\<rparr>"

definition key_forget :: "fd_key \<Rightarrow> tracker \<Rightarrow> tracker" where
  "key_forget key t =
     t\<lparr>stream_fds := stream_fds t - {key},
       fd_dest := (fd_dest t)(key := None),
       inode_dest := (case fd_inode t key of
                        Some inode \<Rightarrow> (inode_dest t)(inode := None) | None \<Rightarrow> inode_dest t),
       fd_inode := (fd_inode t)(key := None)\<rparr>"

lemmas key_defs = key_put_dest_def key_put_inode_def key_forget_def

lemma insert_dest_key: "insert_dest fs pid fd info t =
    key_put_dest (tgid_of fs t pid, fd) info (cached fs pid t)"
  by (simp add: insert_dest_def resolve_tgid_eq key_put_dest_def)

lemma bind_inode_key: "bind_inode fs pid fd inode t =
    key_put_inode (tgid_of fs t pid, fd) inode (cached fs pid t)"
  by (auto simp: bind_inode_def resolve_tgid_eq key_put_inode_def Let_def split: option.splits)

lemma close_enter_key: "close_enter fs pid fd t =
    key_forget (tgid_of fs t pid, fd) (cached fs pid t)"
  by (auto simp: close_enter_def resolve_tgid_eq key_forget_def Let_def fun_upd_idem_iff
      intro!: tracker.equality split: option.splits)

interpretation reg: dest_registry fd_dest inode_dest fd_inode key_put_dest key_put_inode key_forget drop_group
  by unfold_locales
    (auto simp: key_defs drop_group_def group_inodes_def split: option.splits)

section \<open>Sequences of operations\<close>

text \<open>What the connect handler does to the table for a connection it redirects.\<close>

definition record_connect ::
  "procfs \<Rightarrow> i32 \<Rightarrow> i32 \<Rightarrow> socket_info \<Rightarrow> string option \<Rightarrow> tracker \<Rightarrow> tracker" where
  "record_connect fs pid fd info inode t =
     (case is_stream_socket_fd fs pid fd t of
        (tracked, t1) \<Rightarrow>
          (let t2 = (if tracked then t1 else mark_stream_socket_fd fs pid fd t1);
               t3 = insert_dest fs pid fd info t2
           in case inode of None \<Rightarrow> t3 | Some i \<Rightarrow> bind_inode fs pid fd i t3))"

text \<open>The table with the thread resolved and the descriptor known to be a stream socket.\<close>

definition stream_marked :: "procfs \<Rightarrow> i32 \<Rightarrow> i32 \<Rightarrow> tracker \<Rightarrow> tracker" where
  "stream_marked fs pid fd t =
     (cached fs pid t)\<lparr>stream_fds := insert (tgid_of fs t pid, fd) (stream_fds t)\<rparr>"

lemma record_connect_key:
  "record_connect fs pid fd info inode t =
     (let key = (tgid_of fs t pid, fd); t1 = key_put_dest key info (stream_marked fs pid fd t)
      in case inode of None \<Rightarrow> t1 | Some i \<Rightarrow> key_put_inode key i t1)"
proof -
  let ?g = "tgid_of fs t pid" and ?s = "stream_marked fs pid fd t"
  have known: "tid_to_tgid (cached fs pid t) pid = Some ?g" "tid_to_tgid ?s pid = Some ?g"
    by (simp_all add: stream_marked_def)
  have mark: "(if (?g, fd) \<in> stream_fds t then cached fs pid t
      else mark_stream_socket_fd fs pid fd (cached fs pid t)) = ?s"
    using known(1)
    by (auto simp: mark_stream_socket_fd_def resolve_tgid_def stream_marked_def insert_absorb
        intro!: tracker.equality)
  have put: "insert_dest fs pid fd info ?s = key_put_dest (?g, fd) info ?s"
    by (simp add: insert_dest_key tgid_of_known [OF known(2)] cached_known [OF known(2)])
  have "tid_to_tgid (key_put_dest (?g, fd) info ?s) pid = Some ?g"
    using known(2) by (simp add: key_put_dest_def)
  then have "bind_inode fs pid fd i (key_put_dest (?g, fd) info ?s) =
      key_put_inode (?g, fd) i (key_put_dest (?g, fd) info ?s)" for i
    by (simp add: bind_inode_key tgid_of_known cached_known)
  moreover have "record_connect fs pid fd info inode t =
      (case inode of None \<Rightarrow> insert_dest fs pid fd info ?s
       | Some i \<Rightarrow> bind_inode fs pid fd i (insert_dest fs pid fd info ?s))"
    unfolding mark [symmetric]
    by (simp add: record_connect_def is_stream_socket_fd_def resolve_tgid_eq Let_def
        split: option.splits)
  ultimately show ?thesis by (simp add: put Let_def split: option.splits)
qed

lemma record_connect_marked:
  assumes known: "tid_to_tgid t pid = Some g" and "(g, fd) \<in> stream_fds t"
  shows "record_connect fs pid fd info inode t =
    (let t1 = insert_dest fs pid fd info t
     in case inode of None \<Rightarrow> t1 | Some i \<Rightarrow> bind_inode fs pid fd i t1)"
  using assms(2)
  by (simp add: record_connect_def is_stream_socket_fd_def resolve_tgid_eq tgid_of_known [OF known]
      cached_known [OF known] Let_def)

lemma record_connect_dest:
  "get_by_pid_fd (record_connect fs pid fd info inode t) (tgid_of fs t pid) fd = Some info"
  "inode = Some i \<Longrightarrow> get_by_inode (record_connect fs pid fd info inode t) i = Some info"
  by (auto simp: record_connect_key get_by_pid_fd_def get_by_inode_def key_defs Let_def
      split: option.splits)

text \<open>The tables the tracer can produce, with the set of destinations it redirected so far.\<close>

inductive tracer_run :: "socket_addr set \<Rightarrow> tracker \<Rightarrow> bool" where
  start: "tracer_run {} tracker_new"
| socket_enter: "tracer_run D t \<Longrightarrow> tracer_run D (socket_enter pid domain sock_type t)"
| socket_exit: "tracer_run D t \<Longrightarrow> tracer_run D (socket_exit fs pid ret_fd t)"
| close: "tracer_run D t \<Longrightarrow> tracer_run D (close_enter fs pid fd t)"
| probe: "tracer_run D t \<Longrightarrow> tracer_run D (snd (is_stream_socket_fd fs pid fd t))"
| mark: "tracer_run D t \<Longrightarrow> tracer_run D (mark_stream_socket_fd fs pid fd t)"
| connect: "tracer_run D t \<Longrightarrow>
    tracer_run (insert (si_dest info) D) (record_connect fs pid fd info inode t)"
| cleanup: "tracer_run D t \<Longrightarrow> tracer_run D (cleanup_process fs pid t)"

definition tracker_inv :: "tracker \<Rightarrow> bool" where
  "tracker_inv t \<longleftrightarrow>
     finite (dom (fd_dest t)) \<and> finite (stream_fds t) \<and>
     dom (fd_inode t) \<subseteq> dom (fd_dest t) \<and> dom (fd_dest t) \<subseteq> stream_fds t"

definition known_dests :: "tracker \<Rightarrow> socket_addr set" where
  "known_dests t = si_dest ` (ran (fd_dest t) \<union> ran (inode_dest t))"

text \<open>The facts of the table that invariant and lookups depend on.\<close>

definition same_table :: "tracker \<Rightarrow> tracker \<Rightarrow> bool" where
  "same_table t u \<longleftrightarrow> fd_dest t = fd_dest u \<and> inode_dest t = inode_dest u \<and> fd_inode t = fd_inode u"

lemma tracker_inv_cong:
  "same_table t u \<Longrightarrow> stream_fds u \<subseteq> stream_fds t \<Longrightarrow> finite (stream_fds t) \<Longrightarrow>
     tracker_inv u \<Longrightarrow> tracker_inv t"
  by (auto simp: tracker_inv_def same_table_def)

lemma tracker_inv_finite: "tracker_inv t \<Longrightarrow> finite (stream_fds t)"
  by (simp add: tracker_inv_def)

lemma known_dests_cong: "same_table t u \<Longrightarrow> known_dests t = known_dests u"
  by (simp add: known_dests_def same_table_def)

lemma socket_exit_effect:
  "same_table (socket_exit fs pid ret_fd t) t"
  "stream_fds (socket_exit fs pid ret_fd t) =
     (case pending_socket t pid of
        Some p \<Rightarrow> if \<not> ret_fd <s 0 \<and> is_stream_inet_socket (ps_domain p) (ps_type p)
                   then insert (tgid_of fs t pid, ret_fd) (stream_fds t) else stream_fds t
      | None \<Rightarrow> stream_fds t)"
proof -
  have "tgid_of fs (t\<lparr>pending_socket := x\<rparr>) pid = tgid_of fs t pid" for x
    by (simp add: tgid_of_def resolve_tgid_def Let_def split: option.splits)
  then show "same_table (socket_exit fs pid ret_fd t) t"
    and "stream_fds (socket_exit fs pid ret_fd t) =
     (case pending_socket t pid of
        Some p \<Rightarrow> if \<not> ret_fd <s 0 \<and> is_stream_inet_socket (ps_domain p) (ps_type p)
                   then insert (tgid_of fs t pid, ret_fd) (stream_fds t) else stream_fds t
      | None \<Rightarrow> stream_fds t)"
    by (auto simp: socket_exit_def same_table_def resolve_tgid_eq Let_def split: option.splits)
qed

lemma lookup_effect:
  "same_table (snd (is_stream_socket_fd fs pid fd t)) t"
  "stream_fds (snd (is_stream_socket_fd fs pid fd t)) = stream_fds t"
  "same_table (mark_stream_socket_fd fs pid fd t) t"
  "stream_fds (mark_stream_socket_fd fs pid fd t) = insert (tgid_of fs t pid, fd) (stream_fds t)"
  "same_table (socket_enter pid domain sock_type t) t"
  "stream_fds (socket_enter pid domain sock_type t) = stream_fds t"
  by (simp_all add: same_table_def is_stream_socket_fd_def mark_stream_socket_fd_def
      socket_enter_def resolve_tgid_eq)

lemma key_forget_inv: "tracker_inv t \<Longrightarrow> tracker_inv (key_forget key t)"
  by (auto simp: tracker_inv_def key_forget_def)

lemma drop_group_inv: "tracker_inv t \<Longrightarrow> tracker_inv (drop_group g t)"
  by (auto simp: tracker_inv_def drop_group_def dom_retain_keys)

lemma key_forget_dests: "known_dests (key_forget key t) \<subseteq> known_dests t"
  using ran_del_subset [of "fd_dest t" key] ran_del_subset [of "inode_dest t"]
  by (auto simp: known_dests_def key_forget_def split: option.splits)

lemma drop_group_dests: "known_dests (drop_group g t) \<subseteq> known_dests t"
  by (simp add: known_dests_def drop_group_def) (intro image_mono Un_mono ran_retain_keys)

lemma record_connect_inv: "tracker_inv t \<Longrightarrow> tracker_inv (record_connect fs pid fd info inode t)"
  by (auto simp: tracker_inv_def record_connect_key Let_def key_defs stream_marked_def
      split: option.splits)

lemma record_connect_dests:
  "known_dests (record_connect fs pid fd info inode t) \<subseteq> insert (si_dest info) (known_dests t)"
  using ran_upd_subset [of "fd_dest t" "(tgid_of fs t pid, fd)" info]
    ran_upd_subset [of "inode_dest t" _ info]
  by (auto simp: known_dests_def record_connect_key Let_def key_defs stream_marked_def
      split: option.splits)

lemma cleanup_cases:
  "\<exists>t1. same_table t1 t \<and> stream_fds t1 = stream_fds t \<and>
     cleanup_process fs tid t =
       (if tid \<noteq> tgid_of fs t tid \<and> process_exists fs (tgid_of fs t tid) then t1
        else drop_group (tgid_of fs t tid) t1)"
  by (rule exI [of _ "t\<lparr>pending_socket := (pending_socket t)(tid := None),
                 tid_to_tgid := (tid_to_tgid t)(tid := None)\<rparr>"])
    (auto simp: cleanup_process_def same_table_def tgid_of_def resolve_tgid_def Let_def
      split: option.splits)

lemma cleanup_inv: "tracker_inv t \<Longrightarrow> tracker_inv (cleanup_process fs tid t)"
  using cleanup_cases [of t fs tid] tracker_inv_cong drop_group_inv
  by (metis order_refl tracker_inv_def)

lemma cleanup_dests: "known_dests (cleanup_process fs tid t) \<subseteq> known_dests t"
  using cleanup_cases [of t fs tid] known_dests_cong drop_group_dests by (metis order_refl)

text \<open>One call on the table, and a sequence of calls, each with the proc file system it sees.\<close>

datatype tracker_op =
    SocketEnter i32 i32 i32
  | SocketExit i32 i32
  | CloseEnter i32 i32
  | IsStream i32 i32
  | MarkStream i32 i32
  | InsertDest i32 i32 socket_info
  | BindInode i32 i32 string
  | Cleanup i32

fun run_op :: "procfs \<Rightarrow> tracker_op \<Rightarrow> tracker \<Rightarrow> tracker" where
  "run_op fs (SocketEnter pid d ty) t = socket_enter pid d ty t"
| "run_op fs (SocketExit pid fd) t = socket_exit fs pid fd t"
| "run_op fs (CloseEnter pid fd) t = close_enter fs pid fd t"
| "run_op fs (IsStream pid fd) t = snd (is_stream_socket_fd fs pid fd t)"
| "run_op fs (MarkStream pid fd) t = mark_stream_socket_fd fs pid fd t"
| "run_op fs (InsertDest pid fd info) t = insert_dest fs pid fd info t"
| "run_op fs (BindInode pid fd i) t = bind_inode fs pid fd i t"
| "run_op fs (Cleanup tid) t = cleanup_process fs tid t"

fun run_ops :: "(procfs \<times> tracker_op) list \<Rightarrow> tracker \<Rightarrow> tracker" where
  "run_ops [] t = t"
| "run_ops ((fs, oper) # ops) t = run_ops ops (run_op fs oper t)"

text \<open>
  A call spares a descriptor and its inode when it does not close or rebind the descriptor, does
  not bind another descriptor to the inode and does not tear down the descriptor's process.
\<close>

fun spares :: "fd_key \<Rightarrow> string \<Rightarrow> procfs \<Rightarrow> tracker \<Rightarrow> tracker_op \<Rightarrow> bool" where
  "spares key i fs t (CloseEnter pid fd) = ((tgid_of fs t pid, fd) \<noteq> key)"
| "spares key i fs t (InsertDest pid fd info) = ((tgid_of fs t pid, fd) \<noteq> key)"
| "spares key i fs t (BindInode pid fd i') = ((tgid_of fs t pid, fd) \<noteq> key \<and> i' \<noteq> i)"
| "spares key i fs t (Cleanup tid) =
     (tgid_of fs t tid \<noteq> fst key \<or> tid \<noteq> fst key \<and> process_exists fs (fst key))"
| "spares key i fs t _ = True"

fun all_spare :: "fd_key \<Rightarrow> string \<Rightarrow> (procfs \<times> tracker_op) list \<Rightarrow> tracker \<Rightarrow> bool" where
  "all_spare key i [] t = True"
| "all_spare key i ((fs, oper) # ops) t =
     (spares key i fs t oper \<and> all_spare key i ops (run_op fs oper t))"

lemma resolvable_cong:
  "same_table t u \<Longrightarrow> reg.resolvable key i info t = reg.resolvable key i info u"
  by (simp add: reg.resolvable_def same_table_def)

lemma same_table_cached: "same_table (cached fs pid t) t"
  by (simp add: same_table_def)

lemma cleanup_keeps:
  assumes "reg.resolvable key i info t" and "spares key i fs t (Cleanup tid)"
  shows "reg.resolvable key i info (cleanup_process fs tid t)"
proof -
  let ?g = "tgid_of fs t tid"
  obtain t1 where t1: "same_table t1 t"
    "cleanup_process fs tid t = (if tid \<noteq> ?g \<and> process_exists fs ?g then t1 else drop_group ?g t1)"
    using cleanup_cases by blast
  have "reg.resolvable key i info t1" using assms(1) t1(1) resolvable_cong by blast
  then show ?thesis using assms(2) by (auto simp: t1(2) intro: reg.forget_group_keeps)
qed

lemma run_op_keeps:
  assumes "reg.resolvable key i info t" and "spares key i fs t oper"
  shows "reg.resolvable key i info (run_op fs oper t)"
proof -
  have c: "reg.resolvable key i info (cached fs pid t)" for pid
    using assms(1) resolvable_cong [OF same_table_cached] by blast
  show ?thesis
  proof (cases oper)
    case (Cleanup tid)
    then show ?thesis using assms cleanup_keeps by simp
  qed (use assms c in
      \<open>auto simp: close_enter_key insert_dest_key bind_inode_key
        resolvable_cong [OF lookup_effect(1)] resolvable_cong [OF lookup_effect(3)]
        resolvable_cong [OF lookup_effect(5)] resolvable_cong [OF socket_exit_effect(1)]
        intro: reg.forget_keeps reg.put_dest_keeps reg.put_inode_keeps\<close>)
qed

lemma run_ops_keeps:
  "reg.resolvable key i info t \<Longrightarrow> all_spare key i ops t \<Longrightarrow>
     reg.resolvable key i info (run_ops ops t)"
proof (induction ops arbitrary: t)
  case (Cons a ops)
  then show ?case by (cases a) (auto intro: run_op_keeps)
qed simp

lemma record_connect_resolvable:
  assumes "\<And>key. fd_inode t key = Some i \<Longrightarrow> key = (tgid_of fs t pid, fd)"
  shows "reg.resolvable (tgid_of fs t pid, fd) i info (record_connect fs pid fd info (Some i) t)"
  unfolding record_connect_key Let_def option.case
  by (rule reg.record_resolvable) (use assms in \<open>auto simp: stream_marked_def\<close>)

inductive_cases tracer_runE: "tracer_run D t"

lemma tracer_run_inv: "tracer_run D t \<Longrightarrow> tracker_inv t"
proof (induction rule: tracer_run.induct)
  case start
  show ?case by (simp add: tracker_inv_def tracker_new_def)
next
  case (close D t fs pid fd)
  have "tracker_inv (cached fs pid t)" using close.IH by (simp add: tracker_inv_def)
  then show ?case by (simp add: close_enter_key key_forget_inv)
next
  case (connect D t info fs pid fd inode)
  then show ?case by (simp add: record_connect_inv)
next
  case (cleanup D t fs pid)
  then show ?case by (simp add: cleanup_inv)
next
  case (socket_exit D t fs pid ret_fd)
  then show ?case
    by (intro tracker_inv_cong [OF socket_exit_effect(1)])
      (auto simp: socket_exit_effect(2) tracker_inv_finite split: option.splits)
qed (auto simp: lookup_effect tracker_inv_finite intro: tracker_inv_cong [OF lookup_effect(1)]
    tracker_inv_cong [OF lookup_effect(3)] tracker_inv_cong [OF lookup_effect(5)])

lemma tracer_run_dests: "tracer_run D t \<Longrightarrow> known_dests t \<subseteq> D"
proof (induction rule: tracer_run.induct)
  case start
  show ?case by (simp add: known_dests_def tracker_new_def)
next
  case (close D t fs pid fd)
  have "known_dests (cached fs pid t) = known_dests t" by (simp add: known_dests_def)
  then show ?case using close.IH key_forget_dests by (simp add: close_enter_key) blast
next
  case (connect D t info fs pid fd inode)
  then show ?case using record_connect_dests by blast
next
  case (cleanup D t fs pid)
  then show ?case using cleanup_dests by blast
qed (simp_all add: known_dests_cong [OF socket_exit_effect(1)] known_dests_cong [OF lookup_effect(1)]
    known_dests_cong [OF lookup_effect(3)] known_dests_cong [OF lookup_effect(5)])

lemma and_one_odd: "(ty :: i32) AND 1 = 1 \<longleftrightarrow> odd (sint ty)"
proof -
  have "ty AND 1 = 1 \<longleftrightarrow> bit ty 0" by (simp add: and_one_eq odd_iff_mod_2_eq_one bit_0)
  also have "\<dots> \<longleftrightarrow> bit (sint ty) 0" by (simp add: bit_sint_iff)
  finally show ?thesis by (simp add: bit_0)
qed

text \<open>The descriptors the probe opens on the program's own side, and its answer.\<close>

lemma probe_own_descriptors:
  assumes "own_descriptors os own"
  shows "own (snd (probe_socket_is_stream os k pid fd)) = own k"
proof -
  let ?target = "tgid_or_self (proc_view os k) pid"
  obtain r1 k1 where open1: "pidfd_open os k ?target = (r1, k1)" by fastforce
  have o1: "opens own k (r1, k1)" using assms open1 unfolding own_descriptors_def by metis
  show ?thesis
  proof (cases r1)
    case (Inl e)
    then show ?thesis using o1 open1 by (simp add: probe_socket_is_stream_def Let_def)
  next
    case (Inr pidfd)
    obtain r2 k2 where open2: "pidfd_getfd os k1 pidfd fd = (r2, k2)" by fastforce
    have o2: "opens own k1 (r2, k2)" using assms open2 unfolding own_descriptors_def by metis
    have closes: "own (close_own os k' x) = own k' - {x}" for k' x
      using assms by (simp add: own_descriptors_def)
    show ?thesis using o1 o2 open1 open2 Inr
      by (cases r2) (auto simp: probe_socket_is_stream_def Let_def closes split: sum.splits)
  qed
qed

section \<open>The table without the cache\<close>

text \<open>
  What the tracker promises about descriptors, with the thread group of every thread given: the
  destinations and stream marks of the descriptors of each group, and the pending
  \<open>socket\<close> calls. No cache of thread groups appears here.
\<close>

record fd_table =
  ft_dest :: "fd_key \<rightharpoonup> socket_info"
  ft_streams :: "fd_key set"
  ft_pending :: "i32 \<rightharpoonup> pending_sock"

definition fd_table_new :: fd_table where
  "fd_table_new = \<lparr>ft_dest = Map.empty, ft_streams = {}, ft_pending = Map.empty\<rparr>"

definition spec_socket_exit :: "fd_key \<Rightarrow> i32 \<Rightarrow> fd_table \<Rightarrow> fd_table" where
  "spec_socket_exit key tid s =
     (case ft_pending s tid of
        None \<Rightarrow> s
      | Some p \<Rightarrow>
          s\<lparr>ft_pending := (ft_pending s)(tid := None),
            ft_streams := (if \<not> snd key <s 0 \<and> is_stream_inet_socket (ps_domain p) (ps_type p)
                           then insert key (ft_streams s) else ft_streams s)\<rparr>)"

fun spec_op :: "(i32 \<Rightarrow> i32) \<Rightarrow> procfs \<Rightarrow> tracker_op \<Rightarrow> fd_table \<Rightarrow> fd_table" where
  "spec_op grp fs (SocketEnter tid d ty) s =
     s\<lparr>ft_pending := (ft_pending s)(tid \<mapsto> \<lparr>ps_domain = d, ps_type = ty\<rparr>)\<rparr>"
| "spec_op grp fs (SocketExit tid fd) s = spec_socket_exit (grp tid, fd) tid s"
| "spec_op grp fs (CloseEnter tid fd) s =
     s\<lparr>ft_dest := (ft_dest s)((grp tid, fd) := None), ft_streams := ft_streams s - {(grp tid, fd)}\<rparr>"
| "spec_op grp fs (IsStream tid fd) s = s"
| "spec_op grp fs (MarkStream tid fd) s = s\<lparr>ft_streams := insert (grp tid, fd) (ft_streams s)\<rparr>"
| "spec_op grp fs (InsertDest tid fd info) s = s\<lparr>ft_dest := (ft_dest s)((grp tid, fd) \<mapsto> info)\<rparr>"
| "spec_op grp fs (BindInode tid fd i) s = s"
| "spec_op grp fs (Cleanup tid) s =
     (let s1 = s\<lparr>ft_pending := (ft_pending s)(tid := None)\<rparr>
      in if tid \<noteq> grp tid \<and> process_exists fs (grp tid) then s1
         else s1\<lparr>ft_dest := retain_keys (\<lambda>key. fst key \<noteq> grp tid) (ft_dest s),
                 ft_streams := {key \<in> ft_streams s. fst key \<noteq> grp tid}\<rparr>)"

fun op_thread :: "tracker_op \<Rightarrow> i32" where
  "op_thread (SocketEnter tid d ty) = tid"
| "op_thread (SocketExit tid fd) = tid"
| "op_thread (CloseEnter tid fd) = tid"
| "op_thread (IsStream tid fd) = tid"
| "op_thread (MarkStream tid fd) = tid"
| "op_thread (InsertDest tid fd info) = tid"
| "op_thread (BindInode tid fd i) = tid"
| "op_thread (Cleanup tid) = tid"

definition table_of :: "tracker \<Rightarrow> fd_table" where
  "table_of t = \<lparr>ft_dest = fd_dest t, ft_streams = stream_fds t, ft_pending = pending_socket t\<rparr>"

definition coherent :: "(i32 \<Rightarrow> i32) \<Rightarrow> tracker \<Rightarrow> bool" where
  "coherent grp t \<longleftrightarrow> (\<forall>tid g. tid_to_tgid t tid = Some g \<longrightarrow> g = grp tid)"

text \<open>
  Which operations need the group of their thread, and the threads whose group has been asked for since
  they or their group were last cleaned up.
\<close>

fun needs_group :: "tracker_op \<Rightarrow> fd_table \<Rightarrow> bool" where
  "needs_group (SocketEnter tid d ty) s = False"
| "needs_group (SocketExit tid fd) s =
     (case ft_pending s tid of
        None \<Rightarrow> False
      | Some p \<Rightarrow> \<not> fd <s 0 \<and> is_stream_inet_socket (ps_domain p) (ps_type p))"
| "needs_group oper s = True"

fun known_after :: "(i32 \<Rightarrow> i32) \<Rightarrow> procfs \<Rightarrow> tracker_op \<Rightarrow> fd_table \<Rightarrow> i32 set \<Rightarrow> i32 set" where
  "known_after grp fs (Cleanup tid) s K =
     (if tid \<noteq> grp tid \<and> process_exists fs (grp tid) then K - {tid} else {x \<in> K - {tid}. grp x \<noteq> grp tid})"
| "known_after grp fs oper s K = (if needs_group oper s then insert (op_thread oper) K else K)"

text \<open>When a group is needed that is not known, the status file names it; at other times it may say anything.\<close>

fun status_names_group :: "(i32 \<Rightarrow> i32) \<Rightarrow> (procfs \<times> tracker_op) list \<Rightarrow> i32 set \<Rightarrow> fd_table \<Rightarrow> bool" where
  "status_names_group grp [] K s = True"
| "status_names_group grp ((fs, oper) # ops) K s =
     ((needs_group oper s \<and> op_thread oper \<notin> K \<longrightarrow> tgid_or_self fs (op_thread oper) = grp (op_thread oper)) \<and>
      status_names_group grp ops (known_after grp fs oper s K) (spec_op grp fs oper s))"

lemma table_of_simps [simp]:
  "ft_dest (table_of t) = fd_dest t" "ft_streams (table_of t) = stream_fds t" "ft_pending (table_of t) = pending_socket t"
  by (simp_all add: table_of_def)

lemma coherent_tgid:
  assumes "coherent grp t" and "K \<subseteq> dom (tid_to_tgid t)" and "tid \<notin> K \<Longrightarrow> tgid_or_self fs tid = grp tid"
  shows "tgid_of fs t tid = grp tid"
proof (cases "tid_to_tgid t tid")
  case None
  then have "tid \<notin> K" using assms(2) by auto
  then show ?thesis using None assms(3) by (simp add: tgid_of_def resolve_tgid_def Let_def)
next
  case (Some g)
  then show ?thesis using assms(1) by (simp add: tgid_of_known coherent_def)
qed

lemma coherent_cached: "coherent grp t \<Longrightarrow> tgid_of fs t tid = grp tid \<Longrightarrow> coherent grp (cached fs tid t)"
  by (simp add: coherent_def)

lemma coherent_cong: "tid_to_tgid t = tid_to_tgid u \<Longrightarrow> coherent grp t = coherent grp u"
  by (simp add: coherent_def)

lemma run_op_groups:
  "(\<forall>tid. oper \<noteq> Cleanup tid) \<Longrightarrow> tid_to_tgid (run_op fs oper t) =
     (if needs_group oper (table_of t) then tid_to_tgid (cached fs (op_thread oper) t) else tid_to_tgid t)"
proof (cases oper)
  case (SocketExit tid fd)
  then show ?thesis
    by (auto simp: socket_exit_def resolve_tgid_def cached_def Let_def split: option.splits)
qed (auto simp: socket_enter_def close_enter_key is_stream_socket_fd_def mark_stream_socket_fd_def
    insert_dest_key bind_inode_key key_defs resolve_tgid_eq)

lemma cleanup_groups:
  assumes "coherent grp t" and "tgid_of fs t tid = grp tid"
  shows "coherent grp (cleanup_process fs tid t)"
    and "K \<subseteq> dom (tid_to_tgid t) \<Longrightarrow>
      known_after grp fs (Cleanup tid) s K \<subseteq> dom (tid_to_tgid (cleanup_process fs tid t))"
proof -
  have g: "(case tid_to_tgid t tid of Some g \<Rightarrow> g | None \<Rightarrow> tgid_or_self fs tid) = grp tid"
    using assms(2) by (auto simp: tgid_of_def resolve_tgid_def Let_def split: option.splits)
  show "coherent grp (cleanup_process fs tid t)"
    using assms(1) by (auto simp: coherent_def cleanup_process_def drop_group_def Let_def split: if_splits)
  show "known_after grp fs (Cleanup tid) s K \<subseteq> dom (tid_to_tgid (cleanup_process fs tid t))"
    if "K \<subseteq> dom (tid_to_tgid t)"
    using that assms(1) by (auto simp: cleanup_process_def drop_group_def coherent_def g Let_def)
qed

lemma cleanup_refines:
  assumes "tgid_of fs t tid = grp tid"
  shows "table_of (cleanup_process fs tid t) = spec_op grp fs (Cleanup tid) (table_of t)"
proof -
  have "(case tid_to_tgid t tid of Some g \<Rightarrow> g | None \<Rightarrow> tgid_or_self fs tid) = grp tid"
    using assms by (auto simp: tgid_of_def resolve_tgid_def Let_def split: option.splits)
  moreover have "(\<lambda>(p, _). p \<noteq> g) = (\<lambda>key :: fd_key. fst key \<noteq> g)" for g by auto
  ultimately show ?thesis
    by (simp add: cleanup_process_def drop_group_def table_of_def Let_def)
qed

lemma socket_exit_refines:
  assumes "tgid_of fs t tid = grp tid"
  shows "table_of (socket_exit fs tid fd t) = spec_op grp fs (SocketExit tid fd) (table_of t)"
proof -
  let ?t = "t\<lparr>pending_socket := (pending_socket t)(tid := None)\<rparr>"
  have "tgid_of fs ?t tid = grp tid" using assms by (simp add: tgid_of_def resolve_tgid_def Let_def split: option.splits)
  then show ?thesis
    by (auto simp: socket_exit_def spec_socket_exit_def table_of_def resolve_tgid_eq Let_def split: option.splits)
qed

lemma run_op_refines:
  assumes co: "coherent grp t" and known: "K \<subseteq> dom (tid_to_tgid t)"
    and reads: "needs_group oper (table_of t) \<and> op_thread oper \<notin> K \<longrightarrow>
      tgid_or_self fs (op_thread oper) = grp (op_thread oper)"
  shows "coherent grp (run_op fs oper t)"
    and "known_after grp fs oper (table_of t) K \<subseteq> dom (tid_to_tgid (run_op fs oper t))"
    and "table_of (run_op fs oper t) = spec_op grp fs oper (table_of t)"
proof -
  have g: "tgid_of fs t (op_thread oper) = grp (op_thread oper)" if "needs_group oper (table_of t)"
    using coherent_tgid [OF co known] reads that by blast
  show "coherent grp (run_op fs oper t)"
  proof (cases "\<exists>tid. oper = Cleanup tid")
    case True
    then show ?thesis using cleanup_groups(1) [OF co] g by auto
  next
    case False
    then show ?thesis
      using coherent_cached [OF co g] coherent_cong [of "run_op fs oper t" "cached fs (op_thread oper) t"]
        coherent_cong [of "run_op fs oper t" t] run_op_groups [of oper fs t] co by (auto split: if_splits)
  qed
  show "known_after grp fs oper (table_of t) K \<subseteq> dom (tid_to_tgid (run_op fs oper t))"
  proof (cases "\<exists>tid. oper = Cleanup tid")
    case True
    then obtain tid where tid: "oper = Cleanup tid" by blast
    then show ?thesis using cleanup_groups(2) [OF co _ known, of fs tid] g by simp
  next
    case False
    then have "known_after grp fs oper (table_of t) K =
        (if needs_group oper (table_of t) then insert (op_thread oper) K else K)"
      by (cases oper) auto
    then show ?thesis using False known run_op_groups [of oper fs t] by auto
  qed
  show "table_of (run_op fs oper t) = spec_op grp fs oper (table_of t)"
  proof (cases oper)
    case (SocketExit tid fd)
    show ?thesis
    proof (cases "needs_group oper (table_of t)")
      case True
      then show ?thesis using g SocketExit socket_exit_refines by simp
    next
      case False
      then show ?thesis using SocketExit
        by (auto simp: socket_exit_def spec_socket_exit_def table_of_def Let_def split: option.splits)
    qed
  next
    case (Cleanup tid)
    then show ?thesis using g cleanup_refines by simp
  qed (use g in \<open>auto simp: table_of_def socket_enter_def close_enter_key is_stream_socket_fd_def
      mark_stream_socket_fd_def insert_dest_key bind_inode_key key_defs resolve_tgid_eq\<close>)
qed

lemma run_ops_refines:
  "coherent grp t \<Longrightarrow> K \<subseteq> dom (tid_to_tgid t) \<Longrightarrow> status_names_group grp ops K (table_of t) \<Longrightarrow>
     table_of (run_ops ops t) = fold (\<lambda>(fs, oper). spec_op grp fs oper) ops (table_of t)"
proof (induction ops arbitrary: t K)
  case (Cons a ops)
  obtain fs oper where a: "a = (fs, oper)" by (cases a)
  note step = run_op_refines [OF Cons.prems(1,2), of oper fs]
  show ?case using Cons.IH [OF step(1,2)] step(3) Cons.prems(3) by (simp add: a)
qed simp

section \<open>Properties\<close>

definition sample_dest :: socket_addr where
  "sample_dest = SockV4 0x5DB8D822 443"

text \<open>
  C11. The tracker's cache of thread groups is right and is used. Take any sequence of calls, each with
  its own view of the proc file system, in which the status file of a thread names its group at the
  first call that needs the group, and again only after the thread or its group has been cleaned up; in
  between the file may be gone or name anything, as when a thread that has been reaped is cleaned up.
  Then destinations, stream marks and pending calls are, after every such sequence, those of a table
  that is told the right group in every call.
\<close>

theorem tracker_refines_table:
  assumes "status_names_group grp ops {} fd_table_new"
  shows "table_of (run_ops ops tracker_new) = fold (\<lambda>(fs, oper). spec_op grp fs oper) ops fd_table_new"
proof -
  have "coherent grp tracker_new" "table_of tracker_new = fd_table_new"
    by (simp_all add: coherent_def tracker_new_def table_of_def fd_table_new_def)
  then show ?thesis using run_ops_refines [of grp tracker_new "{}" ops] assms by simp
qed

text \<open>
  Threads 12 and 14 of group 12. The status file of 14 is there at its first call only; what it closes
  and its cleanup still count for the group.
\<close>

theorem tracker_refines_table_witness:
  "table_of (run_ops [(sample_procfs, MarkStream 14 5), (sample_procfs, MarkStream 12 6),
       (empty_fs, InsertDest 14 5 \<lparr>si_dest = SockV4 1 443\<rparr>), (empty_fs, CloseEnter 14 6), (empty_fs, Cleanup 14)] tracker_new) =
     \<lparr>ft_dest = [(12, 5) \<mapsto> \<lparr>si_dest = SockV4 1 443\<rparr>], ft_streams = {(12, 5)}, ft_pending = Map.empty\<rparr>"
  using tracker_refines_table [where grp = "\<lambda>_. 12" and ops = "[(sample_procfs, MarkStream 14 5),
      (sample_procfs, MarkStream 12 6), (empty_fs, InsertDest 14 5 \<lparr>si_dest = SockV4 1 443\<rparr>),
      (empty_fs, CloseEnter 14 6), (empty_fs, Cleanup 14)]"]
  by (simp add: sample_tgid_12 fd_table_new_def process_exists_def empty_fs_def Let_def)

text \<open>
  C12. A destination recorded for a redirected connection is what the local proxy finds by the
  socket's inode and by process and descriptor, through every later sequence of calls on the table
  by any threads, each with its own view of the proc file system, as long as no call closes or
  rebinds the descriptor, binds the inode to another one or tears down the process; the first close
  of the descriptor by a thread of the group makes both lookups fail and unmarks the descriptor.
\<close>

theorem recorded_dest_lifetime:
  fixes fs :: procfs and t :: tracker and pid fd :: i32
  defines "g \<equiv> tgid_of fs t pid"
  assumes fresh: "\<And>key. fd_inode t key = Some i \<Longrightarrow> key = (g, fd)"
    and spare: "all_spare (g, fd) i ops (record_connect fs pid fd info (Some i) t)"
    and u: "u = run_ops ops (record_connect fs pid fd info (Some i) t)"
    and closer: "tgid_of fs' u tid = g"
  shows "get_by_inode u i = Some info \<and> get_by_pid_fd u g fd = Some info \<and>
    get_by_inode (close_enter fs' tid fd u) i = None \<and>
    get_by_pid_fd (close_enter fs' tid fd u) g fd = None \<and>
    (g, fd) \<notin> stream_fds (close_enter fs' tid fd u)"
proof -
  have r: "reg.resolvable (g, fd) i info u"
    using record_connect_resolvable [of t i fs pid fd info] fresh spare run_ops_keeps
    unfolding u g_def by blast
  then have "reg.resolvable (g, fd) i info (cached fs' tid u)"
    using resolvable_cong [OF same_table_cached] by blast
  from reg.forget_clears [OF this] r show ?thesis
    unfolding close_enter_key closer
    by (simp add: get_by_inode_def get_by_pid_fd_def reg.resolvable_def key_forget_def)
qed

theorem recorded_dest_lifetime_witness:
  "get_by_inode (run_ops [(empty_fs, SocketEnter 8 2 1), (empty_fs, CloseEnter 8 5)]
     (record_connect empty_fs 7 5 \<lparr>si_dest = sample_dest\<rparr> (Some ''8812'') tracker_new)) ''8812''
   = Some \<lparr>si_dest = sample_dest\<rparr>"
  using recorded_dest_lifetime [of tracker_new "''8812''" empty_fs 7 5
      "[(empty_fs, SocketEnter 8 2 1), (empty_fs, CloseEnter 8 5)]" "\<lparr>si_dest = sample_dest\<rparr>"
      _ empty_fs 7]
  by (simp add: tracker_new_def record_connect_key stream_marked_def key_defs tgid_of_def cached_def
      resolve_tgid_def tgid_or_self_def read_tgid_from_proc_status_def empty_fs_def Let_def
      close_enter_def socket_enter_def)



text \<open>
  From entry to exit of a \<open>socket\<close> call: the descriptor it returned becomes a known
  stream socket of the caller's group exactly when the call succeeded, asked for an IPv4 or IPv6
  socket and for an odd type value. The odd values include \<open>SOCK_STREAM\<close> (1) with any of
  the flags \<open>SOCK_NONBLOCK\<close> and \<open>SOCK_CLOEXEC\<close>, but \<open>SOCK_RAW\<close>
  (3) and \<open>SOCK_SEQPACKET\<close> (5) too. Nothing stays pending for the thread.
\<close>

lemma socket_call_tracked:
  fixes fs :: procfs and t :: tracker and pid :: i32
  shows "stream_fds (socket_exit fs pid ret (socket_enter pid domain ty t)) =
    stream_fds t \<union>
      (if 0 \<le> sint ret \<and> domain \<in> {2, 10} \<and> odd (sint ty) then {(tgid_of fs t pid, ret)} else {}) \<and>
    pending_socket (socket_exit fs pid ret (socket_enter pid domain ty t)) =
      (pending_socket t)(pid := None)"
proof -
  have "tgid_of fs (socket_enter pid domain ty t) pid = tgid_of fs t pid"
    by (simp add: tgid_of_def resolve_tgid_def socket_enter_def Let_def split: option.splits)
  then have "stream_fds (socket_exit fs pid ret (socket_enter pid domain ty t)) =
      (if \<not> ret <s 0 \<and> is_stream_inet_socket domain ty
       then insert (tgid_of fs t pid, ret) (stream_fds t) else stream_fds t)"
    by (simp add: socket_exit_effect(2) lookup_effect(6)) (simp add: socket_enter_def)
  moreover have "\<not> ret <s 0 \<longleftrightarrow> 0 \<le> sint ret" by (simp add: word_sless_alt not_less)
  moreover have "pending_socket (socket_exit fs pid ret (socket_enter pid domain ty t)) =
      (pending_socket t)(pid := None)"
    by (simp add: socket_exit_def socket_enter_def resolve_tgid_eq Let_def)
  ultimately show ?thesis by (auto simp: is_stream_inet_socket_def and_one_odd)
qed

end
