(* ===== verification/Trace_Handlers.thy ===== *)
theory Trace_Handlers
  imports No_Proxy Tracee_Memory Tracker
begin

text \<open>
  The system call handlers of \<open>src/tracer/trace_loop.rs\<close>: what the tracer does at the
  entry and at the exit of a system call of one thread. A handler works on the kernel state, the
  shared table, the statistics and the \<open>ThreadState\<close> of the stopped thread, the record
  \<open>hctx\<close>, and returns a result together with the context it leaves, also when it fails.

  The main results: the decision chain of \<open>handle_connect_enter\<close> computes the
  specification \<open>connect_policy\<close>, tracee memory and the table change for a redirected
  connection only; a redirected sockaddr is restored at the exit; \<open>CLONE_UNTRACED\<close> never
  survives the entry of \<open>clone\<close> or \<open>clone3\<close>; entry and exit alternate; the
  counters of the trace summary add up.
\<close>

section \<open>State\<close>

datatype syscall_phase = Entering | Exiting

record pending_connect_restore =
  addr_ptr :: u64
  restore_dest :: socket_addr

record thread_state =
  phase :: syscall_phase
  forced_connect_errno :: "i32 option"
  pending_restore :: "pending_connect_restore option"

definition thread_state_default :: thread_state where
  "thread_state_default =
     \<lparr>phase = Entering, forced_connect_errno = None, pending_restore = None\<rparr>"

record trace_stats =
  connect_seen :: u64
  connect_unknown_family_skipped :: u64
  connect_non_stream_skipped :: u64
  connect_stream_probed :: u64
  connect_ipv6_blocked :: u64
  connect_loopback_skipped :: u64
  connect_unspecified_skipped :: u64
  connect_port0_skipped :: u64
  connect_upstream_skipped :: u64
  connect_rewritten :: u64
  socket_enter_seen :: u64
  socket_exit_seen :: u64

definition trace_stats_default :: trace_stats where
  "trace_stats_default =
     \<lparr>connect_seen = 0, connect_unknown_family_skipped = 0, connect_non_stream_skipped = 0,
      connect_stream_probed = 0, connect_ipv6_blocked = 0, connect_loopback_skipped = 0,
      connect_unspecified_skipped = 0, connect_port0_skipped = 0, connect_upstream_skipped = 0,
      connect_rewritten = 0, socket_enter_seen = 0, socket_exit_seen = 0\<rparr>"

text \<open>The arguments of \<open>run\<close> that do not change.\<close>

record trace_config =
  tc_child :: i32
  tc_local :: socket_addr
  tc_proxy :: socket_addr
  tc_no_proxy :: no_proxy
  tc_disable_ipv6 :: bool
  tc_seccomp :: bool

record 'k hctx =
  kern :: 'k
  trk :: tracker
  tstate :: thread_state
  stats :: trace_stats

section \<open>Handlers\<close>

definition handle_socket_enter ::
  "'k os \<Rightarrow> i32 \<Rightarrow> user_regs \<Rightarrow> 'k hctx \<Rightarrow> (error + unit) \<times> 'k hctx" where
  "handle_socket_enter os pid regs h =
     (let h1 = h\<lparr>stats := (stats h)\<lparr>socket_enter_seen := socket_enter_seen (stats h) + 1\<rparr>\<rparr>;
          domain = ucast (syscall_arg regs 0);
          sock_type = ucast (syscall_arg regs 1)
      in (Inr (), h1\<lparr>trk := socket_enter pid domain sock_type (trk h1)\<rparr>))"

definition handle_socket_exit :: "'k os \<Rightarrow> i32 \<Rightarrow> user_regs \<Rightarrow> 'k hctx \<Rightarrow> 'k hctx" where
  "handle_socket_exit os pid regs h =
     (let h1 = h\<lparr>stats := (stats h)\<lparr>socket_exit_seen := socket_exit_seen (stats h) + 1\<rparr>\<rparr>;
          ret_fd = ucast (get_return_value regs)
      in h1\<lparr>trk := socket_exit (proc_view os (kern h1)) pid ret_fd (trk h1)\<rparr>)"

definition handle_close_enter ::
  "'k os \<Rightarrow> i32 \<Rightarrow> user_regs \<Rightarrow> 'k hctx \<Rightarrow> (error + unit) \<times> 'k hctx" where
  "handle_close_enter os pid regs h =
     (let fd = ucast (syscall_arg regs 0)
      in (Inr (), h\<lparr>trk := close_enter (proc_view os (kern h)) pid fd (trk h)\<rparr>))"

text \<open>
  A failed \<open>set_regs\<close> is reported as the thread's last \<open>errno\<close>, which is
  the one the failed call has just set.
\<close>

fun last_errno :: "io_error \<Rightarrow> errno" where
  "last_errno (Os_Error e) = e"
| "last_errno Unexpected_Eof = 0"
| "last_errno (Io_Other s) = 0"

definition set_regs_or_ptrace ::
  "'k os \<Rightarrow> i32 \<Rightarrow> user_regs \<Rightarrow> 'k hctx \<Rightarrow> (error + unit) \<times> 'k hctx" where
  "set_regs_or_ptrace os pid regs h =
     (case set_regs os (kern h) pid regs of
        (r, k) \<Rightarrow> (map_err (\<lambda>e. Ptrace (last_errno e)) r, h\<lparr>kern := k\<rparr>))"

definition CLONE_UNTRACED :: u64 where "CLONE_UNTRACED = 0x00800000"

definition handle_clone_enter ::
  "'k os \<Rightarrow> i32 \<Rightarrow> user_regs \<Rightarrow> 'k hctx \<Rightarrow> (error + unit) \<times> 'k hctx" where
  "handle_clone_enter os pid regs h =
     (let flags = syscall_arg regs 0
      in if flags AND CLONE_UNTRACED \<noteq> 0
         then (let new_flags = flags AND NOT CLONE_UNTRACED
               in case set_syscall_arg regs 0 new_flags of
                    Some regs' \<Rightarrow> set_regs_or_ptrace os pid regs' h
                  | None \<Rightarrow> (Inr (), h))
         else (Inr (), h))"

definition handle_clone3_enter ::
  "'k os \<Rightarrow> i32 \<Rightarrow> user_regs \<Rightarrow> 'k hctx \<Rightarrow> (error + unit) \<times> 'k hctx" where
  "handle_clone3_enter os pid regs h =
     (let clone_args_ptr = syscall_arg regs 0
      in if clone_args_ptr = 0 then (Inr (), h)
         else case read_u64 os (kern h) pid clone_args_ptr of
                Inl e \<Rightarrow> (Inl e, h)
              | Inr flags \<Rightarrow>
                  if flags AND CLONE_UNTRACED \<noteq> 0
                  then (case write_u64 os (kern h) pid clone_args_ptr (flags AND NOT CLONE_UNTRACED) of
                          (r, k) \<Rightarrow> (r, h\<lparr>kern := k\<rparr>))
                  else (Inr (), h))"

text \<open>
  \<open>handle_connect_enter\<close> in three parts: finding out whether the descriptor is a stream
  socket, redirecting the connection, and the chain of tests around them.
\<close>

definition ensure_stream :: "'k os \<Rightarrow> i32 \<Rightarrow> i32 \<Rightarrow> 'k hctx \<Rightarrow> bool \<times> 'k hctx" where
  "ensure_stream os pid sockfd h =
     (case is_stream_socket_fd (proc_view os (kern h)) pid sockfd (trk h) of
        (is_tracked_stream, t) \<Rightarrow>
          (let h1 = h\<lparr>trk := t\<rparr>
           in if is_tracked_stream then (True, h1)
              else case probe_socket_is_stream os (kern h1) pid sockfd of
                     (Inr True, k) \<Rightarrow>
                       (True, h1\<lparr>kern := k,
                         stats := (stats h1)\<lparr>connect_stream_probed := connect_stream_probed (stats h1) + 1\<rparr>,
                         trk := mark_stream_socket_fd (proc_view os k) pid sockfd (trk h1)\<rparr>)
                   | (_, k) \<Rightarrow>
                       (False, h1\<lparr>kern := k,
                         stats := (stats h1)\<lparr>connect_non_stream_skipped :=
                           connect_non_stream_skipped (stats h1) + 1\<rparr>\<rparr>)))"

definition redirect_connect ::
  "'k os \<Rightarrow> trace_config \<Rightarrow> i32 \<Rightarrow> i32 \<Rightarrow> u64 \<Rightarrow> socket_addr \<Rightarrow> 'k hctx \<Rightarrow>
     (error + unit) \<times> 'k hctx" where
  "redirect_connect os cfg pid sockfd ptr dest h =
     (let fs = proc_view os (kern h);
          t1 = insert_dest fs pid sockfd \<lparr>si_dest = dest\<rparr> (trk h);
          t2 = (case read_socket_inode fs pid sockfd of
                  Some inode \<Rightarrow> bind_inode fs pid sockfd inode t1
                | None \<Rightarrow> t1);
          h1 = h\<lparr>trk := t2\<rparr>
      in case write_sockaddr os (kern h1) pid ptr (tc_local cfg) of
           (Inl e, k) \<Rightarrow> (Inl e, h1\<lparr>kern := k\<rparr>)
         | (Inr _, k) \<Rightarrow>
             (Inr (), h1\<lparr>kern := k,
               tstate := (tstate h1)\<lparr>pending_restore := Some \<lparr>addr_ptr = ptr, restore_dest = dest\<rparr>\<rparr>,
               stats := (stats h1)\<lparr>connect_rewritten := connect_rewritten (stats h1) + 1\<rparr>\<rparr>))"

definition handle_connect_enter ::
  "'k os \<Rightarrow> trace_config \<Rightarrow> i32 \<Rightarrow> user_regs \<Rightarrow> 'k hctx \<Rightarrow> (error + unit) \<times> 'k hctx" where
  "handle_connect_enter os cfg pid regs h =
     (let h1 = h\<lparr>stats := (stats h)\<lparr>connect_seen := connect_seen (stats h) + 1\<rparr>,
                 tstate := (tstate h)\<lparr>pending_restore := None\<rparr>\<rparr>;
          sockfd = ucast (syscall_arg regs 0);
          ptr = syscall_arg regs 1;
          addrlen = syscall_arg regs 2;
          s = stats h1
      in case read_sockaddr os (kern h1) pid ptr addrlen of
           Inl (UnknownAddressFamily _) \<Rightarrow>
             (Inr (), h1\<lparr>stats := s\<lparr>connect_unknown_family_skipped :=
                connect_unknown_family_skipped s + 1\<rparr>\<rparr>)
         | Inl e \<Rightarrow> (Inl e, h1)
         | Inr dest \<Rightarrow>
             if is_loopback (sa_ip dest)
             then (Inr (), h1\<lparr>stats := s\<lparr>connect_loopback_skipped := connect_loopback_skipped s + 1\<rparr>\<rparr>)
             else if is_unspecified (sa_ip dest)
             then (Inr (), h1\<lparr>stats := s\<lparr>connect_unspecified_skipped :=
                connect_unspecified_skipped s + 1\<rparr>\<rparr>)
             else if sa_port dest = 0
             then (Inr (), h1\<lparr>stats := s\<lparr>connect_port0_skipped := connect_port0_skipped s + 1\<rparr>\<rparr>)
             else if should_bypass (tc_no_proxy cfg) dest then (Inr (), h1)
             else if is_v6 dest \<and> tc_disable_ipv6 cfg
             then (Inr (), h1\<lparr>stats := s\<lparr>connect_ipv6_blocked := connect_ipv6_blocked s + 1\<rparr>,
                tstate := (tstate h1)\<lparr>forced_connect_errno := Some EAFNOSUPPORT\<rparr>\<rparr>)
             else case ensure_stream os pid sockfd h1 of
                    (False, h2) \<Rightarrow> (Inr (), h2)
                  | (True, h2) \<Rightarrow>
                      if dest = tc_proxy cfg
                      then (Inr (), h2\<lparr>stats := (stats h2)\<lparr>connect_upstream_skipped :=
                         connect_upstream_skipped (stats h2) + 1\<rparr>\<rparr>)
                      else redirect_connect os cfg pid sockfd ptr dest h2)"

definition handle_syscall_enter ::
  "'k os \<Rightarrow> trace_config \<Rightarrow> i32 \<Rightarrow> user_regs \<Rightarrow> 'k hctx \<Rightarrow> (error + unit) \<times> 'k hctx" where
  "handle_syscall_enter os cfg pid regs h =
     (let nr = get_syscall_nr regs
      in if nr = SYS_SOCKET then handle_socket_enter os pid regs h
         else if nr = SYS_CONNECT then handle_connect_enter os cfg pid regs h
         else if nr = SYS_CLOSE then handle_close_enter os pid regs h
         else if nr = SYS_CLONE then handle_clone_enter os pid regs h
         else if nr = SYS_CLONE3 then handle_clone3_enter os pid regs h
         else (Inr (), h))"

text \<open>The two \<open>take\<close>s of \<open>handle_syscall_exit\<close>: restore the sockaddr, then force the result.\<close>

definition take_restore :: "'k os \<Rightarrow> i32 \<Rightarrow> 'k hctx \<Rightarrow> (error + unit) \<times> 'k hctx" where
  "take_restore os pid h =
     (let h1 = h\<lparr>tstate := (tstate h)\<lparr>pending_restore := None\<rparr>\<rparr>
      in case pending_restore (tstate h) of
           None \<Rightarrow> (Inr (), h1)
         | Some restore \<Rightarrow>
             (case write_sockaddr os (kern h1) pid (addr_ptr restore) (restore_dest restore) of
                (r, k) \<Rightarrow> (r, h1\<lparr>kern := k\<rparr>)))"

definition take_forced_errno ::
  "'k os \<Rightarrow> i32 \<Rightarrow> user_regs \<Rightarrow> 'k hctx \<Rightarrow> (error + unit) \<times> 'k hctx" where
  "take_forced_errno os pid regs h =
     (let h1 = h\<lparr>tstate := (tstate h)\<lparr>forced_connect_errno := None\<rparr>\<rparr>
      in case forced_connect_errno (tstate h) of
           None \<Rightarrow> (Inr (), h1)
         | Some e \<Rightarrow> set_regs_or_ptrace os pid (set_return_value regs (- (scast e))) h1)"

definition handle_syscall_exit ::
  "'k os \<Rightarrow> i32 \<Rightarrow> user_regs \<Rightarrow> 'k hctx \<Rightarrow> (error + unit) \<times> 'k hctx" where
  "handle_syscall_exit os pid regs h =
     (let h1 = (if get_syscall_nr regs = SYS_SOCKET then handle_socket_exit os pid regs h else h)
      in case take_restore os pid h1 of
           (Inl e, h2) \<Rightarrow> (Inl e, h2)
         | (Inr _, h2) \<Rightarrow> take_forced_errno os pid regs h2)"

definition handle_syscall_ptrace ::
  "'k os \<Rightarrow> trace_config \<Rightarrow> i32 \<Rightarrow> 'k hctx \<Rightarrow> (error + unit) \<times> 'k hctx" where
  "handle_syscall_ptrace os cfg pid h =
     (case get_regs os (kern h) pid of
        Inl e \<Rightarrow> (Inl (Io e), h)
      | Inr regs \<Rightarrow>
          (case phase (tstate h) of
             Entering \<Rightarrow>
               (case handle_syscall_enter os cfg pid regs h of
                  (Inl e, h1) \<Rightarrow> (Inl e, h1)
                | (Inr _, h1) \<Rightarrow> (Inr (), h1\<lparr>tstate := (tstate h1)\<lparr>phase := Exiting\<rparr>\<rparr>))
           | Exiting \<Rightarrow>
               (case handle_syscall_exit os pid regs h of
                  (Inl e, h1) \<Rightarrow> (Inl e, h1)
                | (Inr _, h1) \<Rightarrow> (Inr (), h1\<lparr>tstate := (tstate h1)\<lparr>phase := Entering\<rparr>\<rparr>))))"

section \<open>The stream test\<close>

definition known_stream :: "'k os \<Rightarrow> i32 \<Rightarrow> i32 \<Rightarrow> 'k hctx \<Rightarrow> bool" where
  "known_stream os pid fd h = ((tgid_of (proc_view os (kern h)) (trk h) pid, fd) \<in> stream_fds (trk h))"

lemma ensure_stream_effect:
  fixes h :: "'k hctx" and os :: "'k os" and pid :: i32
  defines "g \<equiv> tgid_of (proc_view os (kern h)) (trk h) pid"
  assumes eq: "ensure_stream os pid fd h = (b, h')"
  shows "b \<longleftrightarrow> known_stream os pid fd h \<or> fst (probe_socket_is_stream os (kern h) pid fd) = Inr True"
    and "kern h' = (if known_stream os pid fd h then kern h
           else snd (probe_socket_is_stream os (kern h) pid fd))"
    and "tstate h' = tstate h" and "same_table (trk h') (trk h)"
    and "tid_to_tgid (trk h') pid = Some g" and "b \<Longrightarrow> (g, fd) \<in> stream_fds (trk h')"
    and "tracer_run D (trk h) \<Longrightarrow> tracer_run D (trk h')"
proof -
  let ?fs = "proc_view os (kern h)"
  obtain t where isq: "is_stream_socket_fd ?fs pid fd (trk h) = (known_stream os pid fd h, t)"
    and t: "t = snd (is_stream_socket_fd ?fs pid fd (trk h))"
    by (simp add: is_stream_socket_fd_def known_stream_def resolve_tgid_eq)
  have known: "tid_to_tgid t pid = Some g"
    by (simp add: t is_stream_socket_fd_def resolve_tgid_eq g_def)
  obtain r k where probe: "probe_socket_is_stream os (kern h) pid fd = (r, k)" by fastforce
  let ?m = "mark_stream_socket_fd (proc_view os k) pid fd t"
  have mark: "tid_to_tgid ?m pid = Some g" "(g, fd) \<in> stream_fds ?m"
    by (simp_all add: mark_stream_socket_fd_def resolve_tgid_eq tgid_of_known [OF known])
  have table: "same_table t (trk h)" "same_table ?m (trk h)"
    using lookup_effect(1) [of ?fs pid fd "trk h", folded t] lookup_effect(3) [of "proc_view os k" pid fd t]
    by (auto simp: same_table_def)
  have run: "tracer_run D (trk h) \<Longrightarrow> tracer_run D t"
    "tracer_run D (trk h) \<Longrightarrow> tracer_run D ?m"
    by (auto simp: t intro: tracer_run.probe tracer_run.mark)
  have st: "(g, fd) \<in> stream_fds t" if "known_stream os pid fd h"
    using that by (simp add: t known_stream_def g_def lookup_effect(2))
  have "known_stream os pid fd h \<and> b \<and> h' = h\<lparr>trk := t\<rparr> \<or>
      \<not> known_stream os pid fd h \<and> r = Inr True \<and> b \<and> kern h' = k \<and> trk h' = ?m \<and> tstate h' = tstate h \<or>
      \<not> known_stream os pid fd h \<and> r \<noteq> Inr True \<and> \<not> b \<and> kern h' = k \<and> trk h' = t \<and> tstate h' = tstate h"
    using eq isq probe
    by (auto simp: ensure_stream_def Let_def split: if_splits sum.splits bool.splits)
  then show "b \<longleftrightarrow> known_stream os pid fd h \<or> fst (probe_socket_is_stream os (kern h) pid fd) = Inr True"
    and "kern h' = (if known_stream os pid fd h then kern h
      else snd (probe_socket_is_stream os (kern h) pid fd))"
    and "tstate h' = tstate h" and "same_table (trk h') (trk h)"
    and "tid_to_tgid (trk h') pid = Some g" and "b \<Longrightarrow> (g, fd) \<in> stream_fds (trk h')"
    and "tracer_run D (trk h) \<Longrightarrow> tracer_run D (trk h')"
    using known mark table run st probe by auto
qed

lemma probe_keeps:
  assumes "pidfd_calls_keep os part"
  shows "part (snd (probe_socket_is_stream os k pid fd)) = part k"
proof -
  have "part (snd (pidfd_open os k p)) = part k" "part (snd (pidfd_getfd os k p f)) = part k"
    "part (close_own os k f) = part k" for k p f
    using assms by (auto simp: pidfd_calls_keep_def)
  then show ?thesis
    by (auto simp: probe_socket_is_stream_def Let_def split: prod.splits sum.splits)
      (metis snd_conv)+
qed

section \<open>What is redirected\<close>

text \<open>
  The decision on a readable IPv4 or IPv6 destination: loopback and unspecified addresses, port 0
  and destinations under a no-proxy rule pass; IPv6 is blocked when it is disabled; of the rest,
  stream sockets are intercepted unless they connect to the upstream proxy.
\<close>

datatype verdict = Pass | Block | Intercept

definition connect_policy :: "trace_config \<Rightarrow> socket_addr \<Rightarrow> bool \<Rightarrow> verdict" where
  "connect_policy cfg dest stream =
     (if is_loopback (sa_ip dest) \<or> is_unspecified (sa_ip dest) \<or> sa_port dest = 0 \<or>
         should_bypass (tc_no_proxy cfg) dest then Pass
      else if is_v6 dest \<and> tc_disable_ipv6 cfg then Block
      else if stream \<and> dest \<noteq> tc_proxy cfg then Intercept
      else Pass)"

text \<open>The destinations that are intercepted on a stream socket: the only ones the tracer records.\<close>

definition intercepted :: "trace_config \<Rightarrow> socket_addr set" where
  "intercepted cfg = {dest. connect_policy cfg dest True = Intercept}"

lemma interceptedI: "connect_policy cfg dest stream = Intercept \<Longrightarrow> dest \<in> intercepted cfg"
  by (cases stream) (auto simp: intercepted_def connect_policy_def split: if_splits)

definition stream_socket :: "'k os \<Rightarrow> i32 \<Rightarrow> i32 \<Rightarrow> 'k hctx \<Rightarrow> bool" where
  "stream_socket os pid fd h \<longleftrightarrow>
     known_stream os pid fd h \<or> fst (probe_socket_is_stream os (kern h) pid fd) = Inr True"

definition connect_start :: "'k hctx \<Rightarrow> 'k hctx" where
  "connect_start h =
     h\<lparr>stats := (stats h)\<lparr>connect_seen := connect_seen (stats h) + 1\<rparr>,
       tstate := (tstate h)\<lparr>pending_restore := None\<rparr>\<rparr>"

lemma connect_start_simps [simp]:
  "kern (connect_start h) = kern h" "trk (connect_start h) = trk h"
  "tstate (connect_start h) = (tstate h)\<lparr>pending_restore := None\<rparr>"
  "known_stream os pid fd (connect_start h) = known_stream os pid fd h"
  by (simp_all add: connect_start_def known_stream_def)

text \<open>The descriptor a \<open>connect\<close> is called on.\<close>

abbreviation connect_fd :: "user_regs \<Rightarrow> i32" where
  "connect_fd regs \<equiv> ucast (rdi regs)"

lemma connect_enter_pass:
  assumes read: "read_sockaddr os (kern h) pid (rsi regs) (rdx regs) = Inr dest"
    and pass: "connect_policy cfg dest (stream_socket os pid (connect_fd regs) h) = Pass"
    and eq: "handle_connect_enter os cfg pid regs h = (r, h')"
  shows "r = Inr ()" and "kern h' \<in> {kern h, snd (probe_socket_is_stream os (kern h) pid (connect_fd regs))}"
    and "same_table (trk h') (trk h)" and "tstate h' = (tstate h)\<lparr>pending_restore := None\<rparr>"
    and "tracer_run D (trk h) \<Longrightarrow> tracer_run D (trk h')"
proof -
  obtain b h2 where es: "ensure_stream os pid (connect_fd regs) (connect_start h) = (b, h2)"
    by fastforce
  note fx = ensure_stream_effect [OF es]
  have "r = Inr () \<and> tstate h' = (tstate h)\<lparr>pending_restore := None\<rparr> \<and>
      (kern h' = kern h \<and> trk h' = trk h \<or> kern h' = kern h2 \<and> trk h' = trk h2)"
    using eq pass fx(1,3) es unfolding handle_connect_enter_def connect_start_def [symmetric] Let_def
    by (auto simp: read connect_policy_def stream_socket_def split: if_splits)
  then show "r = Inr ()" and "kern h' \<in> {kern h, snd (probe_socket_is_stream os (kern h) pid (connect_fd regs))}"
    and "same_table (trk h') (trk h)" and "tstate h' = (tstate h)\<lparr>pending_restore := None\<rparr>"
    and "tracer_run D (trk h) \<Longrightarrow> tracer_run D (trk h')"
    using fx by (auto simp: same_table_def split: if_splits)
qed

lemma connect_enter_block:
  assumes read: "read_sockaddr os (kern h) pid (rsi regs) (rdx regs) = Inr dest"
    and block: "connect_policy cfg dest (stream_socket os pid (connect_fd regs) h) = Block"
    and eq: "handle_connect_enter os cfg pid regs h = (r, h')"
  shows "r = Inr ()" and "kern h' = kern h" and "trk h' = trk h"
    and "tstate h' = (tstate h)\<lparr>pending_restore := None, forced_connect_errno := Some EAFNOSUPPORT\<rparr>"
  using eq block unfolding handle_connect_enter_def connect_start_def [symmetric] Let_def
  by (auto simp: read connect_policy_def split: if_splits)

lemma connect_enter_intercept:
  assumes read: "read_sockaddr os (kern h) pid (rsi regs) (rdx regs) = Inr dest"
    and "connect_policy cfg dest (stream_socket os pid (connect_fd regs) h) = Intercept"
  shows "\<exists>h2. ensure_stream os pid (connect_fd regs) (connect_start h) = (True, h2) \<and>
    handle_connect_enter os cfg pid regs h =
      redirect_connect os cfg pid (connect_fd regs) (rsi regs) dest h2"
proof -
  obtain b h2 where es: "ensure_stream os pid (connect_fd regs) (connect_start h) = (b, h2)"
    by fastforce
  have "b" using ensure_stream_effect(1) [OF es] assms(2)
    by (simp add: connect_policy_def stream_socket_def split: if_splits)
  then show ?thesis
    using assms(2) es unfolding handle_connect_enter_def connect_start_def [symmetric] Let_def
    by (auto simp: read connect_policy_def split: if_splits)
qed

lemma redirect_connect_effect:
  assumes known: "tid_to_tgid (trk h) pid = Some g" "(g, fd) \<in> stream_fds (trk h)"
    and eq: "redirect_connect os cfg pid fd ptr dest h = (r, h')"
  shows "trk h' = record_connect (proc_view os (kern h)) pid fd \<lparr>si_dest = dest\<rparr>
           (read_socket_inode (proc_view os (kern h)) pid fd) (trk h)"
    and "(r, kern h') = write_sockaddr os (kern h) pid ptr (tc_local cfg)"
    and "tstate h' = (if is_ok r
           then (tstate h)\<lparr>pending_restore := Some \<lparr>addr_ptr = ptr, restore_dest = dest\<rparr>\<rparr>
           else tstate h)"
  using eq unfolding record_connect_marked [OF known] redirect_connect_def
  by (auto simp: Let_def split: prod.splits sum.splits option.splits)

lemma connect_enter_redirects:
  fixes h :: "'k hctx" and os :: "'k os" and pid :: i32
  defines "g \<equiv> tgid_of (proc_view os (kern h)) (trk h) pid"
  assumes mem: "tracee_memory os mem pid" and keep: "pidfd_calls_keep os mem"
    and r: "readable (mem (kern h) pid) (rsi regs) 32" and loc: "\<not> is_v6 (tc_local cfg)"
    and read: "read_sockaddr os (kern h) pid (rsi regs) (rdx regs) = Inr dest"
    and pol: "connect_policy cfg dest (stream_socket os pid (connect_fd regs) h) = Intercept"
  shows "\<exists>(h2 :: 'k hctx) h'. handle_connect_enter os cfg pid regs h = (Inr (), h') \<and>
    trk h' = record_connect (proc_view os (kern h2)) pid (connect_fd regs) \<lparr>si_dest = dest\<rparr>
      (read_socket_inode (proc_view os (kern h2)) pid (connect_fd regs)) (trk h2) \<and>
    same_table (trk h2) (trk h) \<and> tid_to_tgid (trk h2) pid = Some g \<and>
    kern h2 \<in> {kern h, snd (probe_socket_is_stream os (kern h) pid (connect_fd regs))} \<and>
    tstate h' = (tstate h)\<lparr>pending_restore := Some \<lparr>addr_ptr = rsi regs, restore_dest = dest\<rparr>\<rparr> \<and>
    mem (kern h') pid = store_bytes (mem (kern h) pid) (rsi regs) (sockaddr_buf (tc_local cfg))"
proof -
  obtain h2 where h2: "ensure_stream os pid (connect_fd regs) (connect_start h) = (True, h2)"
    "handle_connect_enter os cfg pid regs h =
      redirect_connect os cfg pid (connect_fd regs) (rsi regs) dest h2"
    using connect_enter_intercept [OF read pol] by blast
  note fx = ensure_stream_effect [OF h2(1), simplified, folded g_def]
  have m2: "mem (kern h2) = mem (kern h)" using fx(2) probe_keeps [OF keep] by simp
  obtain x h' where red: "redirect_connect os cfg pid (connect_fd regs) (rsi regs) dest h2 = (x, h')"
    by fastforce
  note eff = redirect_connect_effect [OF fx(5,6) red]
  have "readable (mem (kern h2) pid) (rsi regs) (sockaddr_span (tc_local cfg))"
    unfolding m2 using readable_mono [OF r] loc by (simp add: sockaddr_span_def)
  from write_sockaddr_stores [OF mem this] have
    "x = Inr ()" "mem (kern h') pid = store_bytes (mem (kern h) pid) (rsi regs) (sockaddr_buf (tc_local cfg))"
    using eff(2) m2 by auto
  then show ?thesis
    using eff(1,3) fx red h2(2) by - (rule exI [of _ h2], rule exI [of _ h'], auto split: if_splits)
qed

text \<open>
  The counters of the trace summary: a \<open>connect\<close> that succeeds in its handler is counted
  once as seen and once under its outcome. Only destinations under a no-proxy rule have no counter of
  their own, and a call whose handler fails is counted as seen alone.
\<close>

definition settled :: "trace_stats \<Rightarrow> u64" where
  "settled s = connect_unknown_family_skipped s + connect_non_stream_skipped s + connect_ipv6_blocked s +
     connect_loopback_skipped s + connect_unspecified_skipped s + connect_port0_skipped s +
     connect_upstream_skipped s + connect_rewritten s"

definition connect_bypassed :: "trace_config \<Rightarrow> socket_addr \<Rightarrow> bool" where
  "connect_bypassed cfg dest \<longleftrightarrow> \<not> is_loopback (sa_ip dest) \<and> \<not> is_unspecified (sa_ip dest) \<and>
     sa_port dest \<noteq> 0 \<and> should_bypass (tc_no_proxy cfg) dest"

lemma settled_bump:
  "settled (s\<lparr>connect_unknown_family_skipped := connect_unknown_family_skipped s + 1\<rparr>) = settled s + 1"
  "settled (s\<lparr>connect_non_stream_skipped := connect_non_stream_skipped s + 1\<rparr>) = settled s + 1"
  "settled (s\<lparr>connect_ipv6_blocked := connect_ipv6_blocked s + 1\<rparr>) = settled s + 1"
  "settled (s\<lparr>connect_loopback_skipped := connect_loopback_skipped s + 1\<rparr>) = settled s + 1"
  "settled (s\<lparr>connect_unspecified_skipped := connect_unspecified_skipped s + 1\<rparr>) = settled s + 1"
  "settled (s\<lparr>connect_port0_skipped := connect_port0_skipped s + 1\<rparr>) = settled s + 1"
  "settled (s\<lparr>connect_upstream_skipped := connect_upstream_skipped s + 1\<rparr>) = settled s + 1"
  "settled (s\<lparr>connect_rewritten := connect_rewritten s + 1\<rparr>) = settled s + 1"
  "settled (s\<lparr>connect_seen := n\<rparr>) = settled s" "settled (s\<lparr>connect_stream_probed := n\<rparr>) = settled s"
  by (simp_all add: settled_def)

lemma ensure_stream_counted:
  assumes "ensure_stream os pid fd h = (b, h')"
  shows "connect_seen (stats h') = connect_seen (stats h)"
    and "settled (stats h') = settled (stats h) + (if b then 0 else 1)"
  using assms by (auto simp: ensure_stream_def settled_bump Let_def split: prod.splits sum.splits bool.splits if_splits)

lemma redirect_connect_counted:
  assumes "redirect_connect os cfg pid fd ptr dest h = (r, h')"
  shows "connect_seen (stats h') = connect_seen (stats h)"
    and "settled (stats h') = settled (stats h) + (if is_ok r then 1 else 0)"
  using assms by (auto simp: redirect_connect_def settled_bump Let_def split: prod.splits sum.splits)

lemma connect_counted:
  assumes eq: "handle_connect_enter os cfg pid regs h = (r, h')"
  defines "out \<equiv> read_sockaddr os (kern h) pid (rsi regs) (rdx regs)"
  shows "connect_seen (stats h') = connect_seen (stats h) + 1 \<and>
    settled (stats h') = settled (stats h) +
      (if is_ok r \<and> (\<forall>dest. out = Inr dest \<longrightarrow> \<not> connect_bypassed cfg dest) then 1 else 0)"
proof (cases out)
  case (Inl e)
  then show ?thesis
    using eq unfolding out_def by (cases e) (auto simp: handle_connect_enter_def settled_def Let_def)
next
  case (Inr dest)
  obtain b h2 where es: "ensure_stream os pid (connect_fd regs) (connect_start h) = (b, h2)" by fastforce
  obtain x h3 where red: "redirect_connect os cfg pid (connect_fd regs) (rsi regs) dest h2 = (x, h3)" by fastforce
  have start: "connect_seen (stats (connect_start h)) = connect_seen (stats h) + 1"
    "settled (stats (connect_start h)) = settled (stats h)"
    by (simp_all add: connect_start_def settled_bump)
  show ?thesis
    using eq es ensure_stream_counted [OF es] redirect_connect_counted [OF red] start Inr
    unfolding handle_connect_enter_def connect_start_def [symmetric] Let_def out_def
    by (auto simp: settled_bump connect_bypassed_def red split: if_splits bool.splits)
qed

section \<open>The exit of a call\<close>

lemma take_restore_effect:
  assumes mem: "tracee_memory os mem pid"
    and p: "pending_restore (tstate h) = Some \<lparr>addr_ptr = a, restore_dest = dest\<rparr>"
    and r: "readable (mem (kern h) pid) a 32"
  shows "\<exists>k. take_restore os pid h =
      (Inr (), h\<lparr>tstate := (tstate h)\<lparr>pending_restore := None\<rparr>, kern := k\<rparr>) \<and>
    mem k pid = store_bytes (mem (kern h) pid) a (sockaddr_buf dest)"
proof -
  have "readable (mem (kern h) pid) a (sockaddr_span dest)"
    using readable_mono [OF r] by (simp add: sockaddr_span_def)
  from write_sockaddr_stores [OF mem this] show ?thesis
    using p by (auto simp: take_restore_def Let_def)
qed

lemma exit_effect:
  assumes "handle_syscall_exit os pid regs h = (r, h')"
  shows "is_ok r \<Longrightarrow> pending_restore (tstate h') = None \<and> forced_connect_errno (tstate h') = None"
    and "phase (tstate h') = phase (tstate h)"
    and "trk h' = (if get_syscall_nr regs = SYS_SOCKET
           then socket_exit (proc_view os (kern h)) pid (ucast (get_return_value regs)) (trk h)
           else trk h)"
  using assms
  by (auto simp: handle_syscall_exit_def take_restore_def take_forced_errno_def set_regs_or_ptrace_def
      handle_socket_exit_def Let_def split: if_splits option.splits prod.splits sum.splits)

section \<open>Every handler\<close>

lemma connect_enter_unread:
  assumes "read_sockaddr os (kern h) pid (rsi regs) (rdx regs) = Inl e"
    and "handle_connect_enter os cfg pid regs h = (r, h')"
  shows "r = (case e of UnknownAddressFamily f \<Rightarrow> Inr () | _ \<Rightarrow> Inl e)"
    and "kern h' = kern h" and "trk h' = trk h" and "tstate h' = (tstate h)\<lparr>pending_restore := None\<rparr>"
  using assms by (auto simp: handle_connect_enter_def Let_def split: error.splits)

lemma connect_enter_run:
  assumes eq: "handle_connect_enter os cfg pid regs h = (r, h')"
  shows "tracer_run D (trk h) \<Longrightarrow> tracer_run D (trk h') \<or> (\<exists>dest \<in> intercepted cfg. tracer_run (insert dest D) (trk h'))"
    and "phase (tstate h') = phase (tstate h)"
    and "\<not> is_ok r \<Longrightarrow> tstate h' = (tstate h)\<lparr>pending_restore := None\<rparr>"
proof -
  have "(tracer_run D (trk h) \<longrightarrow> tracer_run D (trk h') \<or> (\<exists>dest \<in> intercepted cfg. tracer_run (insert dest D) (trk h'))) \<and>
    phase (tstate h') = phase (tstate h) \<and>
    (\<not> is_ok r \<longrightarrow> tstate h' = (tstate h)\<lparr>pending_restore := None\<rparr>)"
  proof (cases "read_sockaddr os (kern h) pid (rsi regs) (rdx regs)")
    case (Inl e)
    then show ?thesis using connect_enter_unread [OF Inl eq] by simp
  next
    case (Inr dest)
    show ?thesis
    proof (cases "connect_policy cfg dest (stream_socket os pid (connect_fd regs) h)")
      case Pass
      then show ?thesis using connect_enter_pass [OF Inr Pass eq] by auto
    next
      case Block
      then show ?thesis using connect_enter_block [OF Inr Block eq] by simp
    next
      case Intercept
      obtain h2 where h2: "ensure_stream os pid (connect_fd regs) (connect_start h) = (True, h2)"
        "handle_connect_enter os cfg pid regs h =
          redirect_connect os cfg pid (connect_fd regs) (rsi regs) dest h2"
        using connect_enter_intercept [OF Inr Intercept] by blast
      note fx = ensure_stream_effect [OF h2(1), simplified]
      note eff = redirect_connect_effect [OF fx(5,6) eq [unfolded h2(2)]]
      have "tracer_run (insert dest D) (trk h')" if "tracer_run D (trk h)"
        using tracer_run.connect [OF fx(7) [OF that], of "\<lparr>si_dest = dest\<rparr>"] by (simp add: eff(1))
      moreover have "dest \<in> intercepted cfg" using Intercept by (rule interceptedI)
      ultimately show ?thesis using eff(3) fx(3) by auto
    qed
  qed
  then show "tracer_run D (trk h) \<Longrightarrow> tracer_run D (trk h') \<or> (\<exists>dest \<in> intercepted cfg. tracer_run (insert dest D) (trk h'))"
    and "phase (tstate h') = phase (tstate h)"
    and "\<not> is_ok r \<Longrightarrow> tstate h' = (tstate h)\<lparr>pending_restore := None\<rparr>" by auto
qed

lemma other_enter_effect:
  assumes "get_syscall_nr regs \<noteq> SYS_CONNECT" and "handle_syscall_enter os cfg pid regs h = (r, h')"
  shows "tracer_run D (trk h) \<Longrightarrow> tracer_run D (trk h')" and "tstate h' = tstate h"
  using assms
  by (auto simp: handle_syscall_enter_def handle_socket_enter_def handle_close_enter_def
      handle_clone_enter_def handle_clone3_enter_def set_regs_or_ptrace_def Let_def
      intro: tracer_run.socket_enter tracer_run.close
      split: if_splits option.splits prod.splits sum.splits)

lemma enter_run:
  assumes eq: "handle_syscall_enter os cfg pid regs h = (r, h')"
  shows "tracer_run D (trk h) \<Longrightarrow> \<exists>D'. D' \<subseteq> D \<union> intercepted cfg \<and> tracer_run D' (trk h')"
    and "phase (tstate h') = phase (tstate h)"
    and "\<not> is_ok r \<Longrightarrow> pending_restore (tstate h') \<in> {None, pending_restore (tstate h)} \<and>
           forced_connect_errno (tstate h') = forced_connect_errno (tstate h)"
proof -
  have conn: "handle_connect_enter os cfg pid regs h = (r, h')" if "get_syscall_nr regs = SYS_CONNECT"
    using eq that by (simp add: handle_syscall_enter_def syscall_numbers)
  note other = other_enter_effect [OF _ eq]
  show "tracer_run D (trk h) \<Longrightarrow> \<exists>D'. D' \<subseteq> D \<union> intercepted cfg \<and> tracer_run D' (trk h')"
    using connect_enter_run(1) [OF conn, of D] other(1) [of D]
    by (cases "get_syscall_nr regs = SYS_CONNECT") blast+
  show "phase (tstate h') = phase (tstate h)"
    using connect_enter_run(2) [OF conn] other(2)
    by (cases "get_syscall_nr regs = SYS_CONNECT") auto
  show "\<not> is_ok r \<Longrightarrow> pending_restore (tstate h') \<in> {None, pending_restore (tstate h)} \<and>
      forced_connect_errno (tstate h') = forced_connect_errno (tstate h)"
    using connect_enter_run(3) [OF conn] other(2)
    by (cases "get_syscall_nr regs = SYS_CONNECT") auto
qed

text \<open>Between calls nothing is left to restore or to force.\<close>

definition thread_inv :: "thread_state \<Rightarrow> bool" where
  "thread_inv s \<longleftrightarrow>
     (phase s = Entering \<longrightarrow> pending_restore s = None \<and> forced_connect_errno s = None)"

lemma thread_inv_default [simp]: "thread_inv thread_state_default"
  by (simp add: thread_inv_def thread_state_default_def)

lemma ptrace_stop_effect:
  assumes inv: "thread_inv (tstate h)"
    and eq: "handle_syscall_ptrace os cfg pid h = (r, h')"
  shows "thread_inv (tstate h')" and "tracer_run D (trk h) \<Longrightarrow> \<exists>D'. D' \<subseteq> D \<union> intercepted cfg \<and> tracer_run D' (trk h')"
    and "phase (tstate h') =
      (if is_ok r then (case phase (tstate h) of Entering \<Rightarrow> Exiting | Exiting \<Rightarrow> Entering)
       else phase (tstate h))"
proof -
  have "thread_inv (tstate h') \<and> (tracer_run D (trk h) \<longrightarrow> (\<exists>D'. D' \<subseteq> D \<union> intercepted cfg \<and> tracer_run D' (trk h'))) \<and>
    phase (tstate h') =
      (if is_ok r then (case phase (tstate h) of Entering \<Rightarrow> Exiting | Exiting \<Rightarrow> Entering)
       else phase (tstate h))"
  proof (cases "get_regs os (kern h) pid")
    case (Inl e)
    then show ?thesis using eq inv by (auto simp: handle_syscall_ptrace_def)
  next
    case (Inr regs)
    show ?thesis
    proof (cases "phase (tstate h)")
      case Entering
      obtain x h1 where e: "handle_syscall_enter os cfg pid regs h = (x, h1)" by fastforce
      show ?thesis
        using enter_run(1) [OF e, of D] enter_run(2,3) [OF e] inv eq Entering Inr e
        by (cases x) (auto simp: handle_syscall_ptrace_def thread_inv_def)
    next
      case Exiting
      obtain x h1 where e: "handle_syscall_exit os pid regs h = (x, h1)" by fastforce
      have "\<exists>D'. D' \<subseteq> D \<union> intercepted cfg \<and> tracer_run D' (trk h1)" if "tracer_run D (trk h)"
        using that by (auto simp: exit_effect(3) [OF e] intro: tracer_run.socket_exit)
      then show ?thesis
        using exit_effect(1,2) [OF e] eq Exiting Inr e
        by (cases x) (auto simp: handle_syscall_ptrace_def thread_inv_def)
    qed
  qed
  then show "thread_inv (tstate h')" and "tracer_run D (trk h) \<Longrightarrow> \<exists>D'. D' \<subseteq> D \<union> intercepted cfg \<and> tracer_run D' (trk h')"
    and "phase (tstate h') =
      (if is_ok r then (case phase (tstate h) of Entering \<Rightarrow> Exiting | Exiting \<Rightarrow> Entering)
       else phase (tstate h))" by auto
qed

text \<open>
  From the entry of an intercepted call to its exit: when the tracee's memory is as the entry left
  it, the exit restores every byte but the padding of the address.
\<close>

lemma connect_restored:
  fixes h :: "'k hctx" and os :: "'k os" and pid :: i32
  assumes mem: "tracee_memory os mem pid" and keep: "pidfd_calls_keep os mem"
    and r: "readable (mem (kern h) pid) (rsi regs) 32" and loc: "\<not> is_v6 (tc_local cfg)"
    and read: "read_sockaddr os (kern h) pid (rsi regs) (rdx regs) = Inr dest"
    and pol: "connect_policy cfg dest (stream_socket os pid (connect_fd regs) h) = Intercept"
    and idle: "forced_connect_errno (tstate h) = None"
    and enter: "handle_connect_enter os cfg pid regs h = (res, h1)"
    and stop: "tstate h2 = (tstate h1)\<lparr>phase := p\<rparr>" "mem (kern h2) pid = mem (kern h1) pid"
    and nr: "get_syscall_nr regs' \<noteq> SYS_SOCKET"
  shows "\<exists>k. handle_syscall_exit os pid regs' h2 =
      (Inr (), h2\<lparr>tstate := (tstate h)\<lparr>pending_restore := None, phase := p\<rparr>, kern := k\<rparr>) \<and>
    read_sockaddr os k pid (rsi regs) addrlen = Inr dest \<and>
    (\<forall>x. mem k pid x = (if unat (x - rsi regs) \<in> sockaddr_padding dest then Some 0 else mem (kern h) pid x))"
proof -
  let ?m = "mem (kern h) pid" and ?a = "rsi regs"
  note parsed = read_sockaddr_parsed [OF mem read]
  have h1: "tstate h1 = (tstate h)\<lparr>pending_restore := Some \<lparr>addr_ptr = ?a, restore_dest = dest\<rparr>\<rparr>"
    "mem (kern h1) pid = store_bytes ?m ?a (sockaddr_buf (tc_local cfg))"
    using connect_enter_redirects [OF mem keep r loc read pol] enter by auto
  have "readable (mem (kern h2) pid) ?a 32"
    unfolding stop(2) h1(2) using r by (rule readable_store)
  from take_restore_effect [OF mem _ this] obtain k where k:
    "take_restore os pid h2 = (Inr (), h2\<lparr>tstate := (tstate h2)\<lparr>pending_restore := None\<rparr>, kern := k\<rparr>)"
    "mem k pid = store_bytes (store_bytes ?m ?a (sockaddr_buf (tc_local cfg))) ?a (sockaddr_buf dest)"
    using h1 stop by auto
  have "handle_syscall_exit os pid regs' h2 =
      (Inr (), h2\<lparr>tstate := (tstate h)\<lparr>pending_restore := None, phase := p\<rparr>, kern := k\<rparr>)"
    using k(1) nr idle by (simp add: handle_syscall_exit_def take_forced_errno_def stop(1) h1(1))
  moreover have "read_sockaddr os k pid ?a addrlen = Inr dest"
    using read_sockaddr_stored [OF mem k(2) readable_store [OF readable_mono [OF r]]] parsed(3) by simp
  moreover have "mem k pid x = ?m x" if "unat (x - ?a) \<notin> sockaddr_padding dest" for x
    unfolding k(2) by (rule redirect_restore_bytes [OF parsed(1,2) loc that])
  moreover have "mem k pid x = Some 0" if "unat (x - ?a) \<in> sockaddr_padding dest" for x
    using sockaddr_padding_zero [OF that] by (simp add: k(2) store_bytes_def)
  ultimately show ?thesis by auto
qed

section \<open>Kernel calls of the handlers\<close>

lemma write_words_steps: "os_steps os k (snd (write_words os pid a buf i n k))"
proof (induction n arbitrary: i k)
  case (Suc n)
  let ?p = "ptrace_poke os k pid (a + of_nat (i * word_size)) (u64_from_ne_bytes (take word_size (drop (i * word_size) buf)))"
  have "os_steps os k (snd ?p)" by (rule r_into_rtranclp) (rule os_step.poke)
  then show ?case
    using os_steps_trans [OF _ Suc.IH, of k "snd ?p" "Suc i"]
    by (cases ?p; cases "fst ?p") (simp_all add: Let_def)
qed simp

lemma write_remainder_steps: "os_steps os k (snd (write_remainder os pid a buf k))"
  using os_step.poke [of os k]
  by (auto simp: write_remainder_def Let_def split: prod.splits sum.splits) (metis r_into_rtranclp snd_conv)+

lemma write_sockaddr_steps: "os_steps os k (snd (write_sockaddr os k pid a sa))"
proof -
  let ?buf = "sockaddr_buf sa"
  obtain r k1 where w: "write_words os pid a ?buf 0 (length ?buf div word_size) k = (r, k1)"
    by fastforce
  have "os_steps os k k1"
    using write_words_steps [of os k pid a ?buf 0 "length ?buf div word_size"] by (simp add: w)
  then show ?thesis
    using os_steps_trans [OF _ write_remainder_steps, of os k k1 pid a ?buf]
    by (cases r) (simp_all add: write_sockaddr_def w)
qed

lemma probe_steps: "os_steps os k (snd (probe_socket_is_stream os k pid fd))"
proof -
  obtain r1 k1 where o1: "pidfd_open os k (tgid_or_self (proc_view os k) pid) = (r1, k1)" by fastforce
  have s1: "os_steps os k k1" using os_step.pidfd_open [of os k] o1 by (metis r_into_rtranclp snd_conv)
  show ?thesis
  proof (cases r1)
    case (Inl e)
    then show ?thesis using o1 s1 by (simp add: probe_socket_is_stream_def Let_def)
  next
    case (Inr pidfd)
    obtain r2 k2 where o2: "pidfd_getfd os k1 pidfd fd = (r2, k2)" by fastforce
    have s2: "os_step os k1 k2" using os_step.pidfd_getfd [of os k1] o2 by (metis snd_conv)
    have s3: "os_steps os k (close_own os k2 fd')" for fd'
      using s1 s2 os_step.close by (meson rtranclp.rtrancl_into_rtrancl)
    have s4: "os_steps os k (close_own os (close_own os k2 fd') fd'')" for fd' fd''
      using s3 os_step.close by (meson rtranclp.rtrancl_into_rtrancl)
    show ?thesis using o1 o2 Inr s3 s4
      by (cases r2) (auto simp: probe_socket_is_stream_def Let_def split: sum.splits)
  qed
qed

lemma set_regs_steps: "os_steps os (kern h) (kern (snd (set_regs_or_ptrace os pid regs h)))"
  using os_step.setregs [of os "kern h" pid regs]
  by (auto simp: set_regs_or_ptrace_def set_regs_def split: prod.splits)

lemma connect_enter_steps: "os_steps os (kern h) (kern (snd (handle_connect_enter os cfg pid regs h)))"
proof -
  obtain r h' where eq: "handle_connect_enter os cfg pid regs h = (r, h')" by fastforce
  have "os_steps os (kern h) (kern h')"
  proof (cases "read_sockaddr os (kern h) pid (rsi regs) (rdx regs)")
    case (Inl e)
    then show ?thesis using connect_enter_unread [OF Inl eq] by simp
  next
    case (Inr dest)
    show ?thesis
    proof (cases "connect_policy cfg dest (stream_socket os pid (connect_fd regs) h)")
      case Pass
      then show ?thesis using connect_enter_pass(2) [OF Inr Pass eq] probe_steps by auto
    next
      case Block
      then show ?thesis using connect_enter_block [OF Inr Block eq] by simp
    next
      case Intercept
      obtain h2 where h2: "ensure_stream os pid (connect_fd regs) (connect_start h) = (True, h2)"
        "handle_connect_enter os cfg pid regs h =
          redirect_connect os cfg pid (connect_fd regs) (rsi regs) dest h2"
        using connect_enter_intercept [OF Inr Intercept] by blast
      note fx = ensure_stream_effect [OF h2(1), simplified]
      note eff = redirect_connect_effect [OF fx(5,6) eq [unfolded h2(2)]]
      have "os_steps os (kern h) (kern h2)" using fx(2) probe_steps by (metis connect_start_simps(1) rtranclp.rtrancl_refl)
      then show ?thesis using eff(2) write_sockaddr_steps by (metis os_steps_trans snd_conv)
    qed
  qed
  then show ?thesis by (simp add: eq)
qed

lemma enter_steps: "os_steps os (kern h) (kern (snd (handle_syscall_enter os cfg pid regs h)))"
proof -
  have "os_steps os k (snd (write_u64 os k p a v))" for k p a v
    using os_step.poke [of os k p a v] by (auto simp: write_u64_def split: prod.splits sum.splits)
  then have "os_steps os (kern h) (kern (snd (handle_clone3_enter os pid regs h)))"
    by (auto simp: handle_clone3_enter_def Let_def split: sum.splits prod.splits) (metis snd_conv)+
  moreover have "os_steps os (kern h) (kern (snd (handle_clone_enter os pid regs h)))"
    using set_regs_steps by (auto simp: handle_clone_enter_def Let_def split: option.splits)
  ultimately show ?thesis using connect_enter_steps
    by (auto simp: handle_syscall_enter_def handle_socket_enter_def handle_close_enter_def Let_def)
qed

lemma exit_steps:
  fixes h :: "'k hctx"
  shows "os_steps os (kern h) (kern (snd (handle_syscall_exit os pid regs h)))"
proof -
  have forced: "os_steps os (kern h) (kern (snd (take_forced_errno os pid regs h)))" for h :: "'k hctx"
    using set_regs_steps [of os "h\<lparr>tstate := (tstate h)\<lparr>forced_connect_errno := None\<rparr>\<rparr>" pid]
    by (auto simp: take_forced_errno_def Let_def split: option.splits)
  have restore: "os_steps os (kern h) (kern (snd (take_restore os pid h)))" for h :: "'k hctx"
    using write_sockaddr_steps [of os "kern h" pid]
    by (auto simp: take_restore_def Let_def split: option.splits prod.splits) (metis snd_conv)
  let ?h1 = "if get_syscall_nr regs = SYS_SOCKET then handle_socket_exit os pid regs h else h"
  have "kern ?h1 = kern h" by (simp add: handle_socket_exit_def Let_def)
  then show ?thesis using restore [of ?h1] forced
    by (cases "take_restore os pid ?h1"; cases "fst (take_restore os pid ?h1)")
      (auto simp: handle_syscall_exit_def Let_def intro: os_steps_trans)
qed

lemma ptrace_stop_steps: "os_steps os (kern h) (kern (snd (handle_syscall_ptrace os cfg pid h)))"
  using enter_steps [of os h cfg pid] exit_steps [of os h pid]
  by (auto simp: handle_syscall_ptrace_def split: sum.splits prod.splits syscall_phase.splits)
    (metis snd_conv)+

section \<open>A stopped thread about to connect\<close>

definition sample_cfg :: trace_config where
  "sample_cfg =
     \<lparr>tc_child = 7, tc_local = SockV4 0x7F000001 9999, tc_proxy = SockV4 0x0A000001 1080,
      tc_no_proxy = \<lparr>rules = [], unsupported_suffix_patterns = [], unresolved_hostnames = []\<rparr>,
      tc_disable_ipv6 = False, tc_seccomp = True\<rparr>"

definition sample_connect_regs :: user_regs where
  "sample_connect_regs =
     \<lparr>orig_rax = 42, rax = 0, rdi = 5, rsi = 4096, rdx = 16, r10 = 0, r8 = 0, r9 = 0,
      other_regs = []\<rparr>"

definition sample_connect_state :: sample_kernel where
  "sample_connect_state =
     snd (write_sockaddr sample_os sample_state 7 4096 sample_dest)
       \<lparr>sk_regs := [7 \<mapsto> sample_connect_regs]\<rparr>"

definition sample_hctx :: "sample_kernel hctx" where
  "sample_hctx =
     \<lparr>kern = sample_connect_state, trk = tracker_new\<lparr>stream_fds := {(7, 5)}\<rparr>,
      tstate = thread_state_default, stats = trace_stats_default\<rparr>"

lemma sample_connect_mem:
  "sk_mem sample_connect_state 7 = store_bytes (page_at 4096) 4096 (sockaddr_buf sample_dest)"
  using write_sockaddr_stores [OF sample_memory, of sample_state 7 4096 sample_dest]
    sample_readable [of 16 7]
  by (auto simp: sample_connect_state_def sockaddr_span_def sample_dest_def sample_state_def)

lemma sample_connect_readable: "readable (sk_mem sample_connect_state 7) 4096 32"
  unfolding sample_connect_mem by (intro readable_store readable_page) simp

lemma sample_connect_read:
  "read_sockaddr sample_os sample_connect_state 7 4096 addrlen = Inr sample_dest"
  using read_sockaddr_stored [OF sample_memory sample_connect_mem readable_page]
  by (simp add: sample_dest_def)

lemma write_sockaddr_keeps:
  assumes poke: "\<And>k pid a w. f (snd (ptrace_poke os k pid a w)) = f k"
  shows "f (snd (write_sockaddr os k pid a sa)) = f k"
proof -
  have words: "f (snd (write_words os pid a buf i n k)) = f k" for buf i n k
  proof (induction n arbitrary: i k)
    case (Suc n)
    then show ?case using poke by (auto simp: Let_def split: prod.splits sum.splits) (metis snd_conv)+
  qed simp
  show ?thesis
    using words poke
    by (auto simp: write_sockaddr_def write_remainder_def Let_def split: prod.splits sum.splits)
      (metis snd_conv)+
qed

lemma write_sockaddr_sample:
  "sk_fs (snd (write_sockaddr sample_os k pid a sa)) = sk_fs k"
  "sk_regs (snd (write_sockaddr sample_os k pid a sa)) = sk_regs k"
  "sk_waits (snd (write_sockaddr sample_os k pid a sa)) = sk_waits k"
  "sk_signals (snd (write_sockaddr sample_os k pid a sa)) = sk_signals k"
  "sk_resume (snd (write_sockaddr sample_os k pid a sa)) = sk_resume k"
  by (rule write_sockaddr_keeps, simp add: sample_os_def sample_poke_def)+

lemma sample_tgid:
  "sk_fs k = empty_fs \<Longrightarrow> tid_to_tgid t pid = None \<Longrightarrow> tgid_of (proc_view sample_os k) t pid = pid"
  by (simp add: tgid_of_def resolve_tgid_def Let_def sample_os_def tgid_or_self_def
      read_tgid_from_proc_status_def empty_fs_def)

lemma sample_stream: "stream_socket sample_os 7 5 sample_hctx"
proof -
  have "sk_fs sample_connect_state = empty_fs"
    by (simp add: sample_connect_state_def write_sockaddr_sample sample_state_def)
  then show ?thesis
    by (simp add: stream_socket_def known_stream_def sample_hctx_def sample_tgid tracker_new_def)
qed

lemma sample_policy: "connect_policy sample_cfg sample_dest True = Intercept"
  by code_simp

definition sample_v6 :: socket_addr where "sample_v6 = SockV6 0x20010DB8000000000000000000000001 443 0 0"

definition sample_v6_hctx :: "sample_kernel hctx" where
  "sample_v6_hctx =
     sample_hctx\<lparr>kern := snd (write_sockaddr sample_os sample_state 7 4096 sample_v6)
       \<lparr>sk_regs := [7 \<mapsto> sample_connect_regs]\<rparr>\<rparr>"

lemma sample_v6_read:
  "read_sockaddr sample_os (kern sample_v6_hctx) 7 4096 addrlen = Inr sample_v6"
proof -
  obtain k where "write_sockaddr sample_os sample_state 7 4096 sample_v6 = (Inr (), k)"
    "sk_mem k 7 = store_bytes (sk_mem sample_state 7) 4096 (sockaddr_buf sample_v6)"
    using write_sockaddr_stores [OF sample_memory, of sample_state 7 4096 sample_v6]
      sample_readable [of 32 7] by (auto simp: sockaddr_span_def sample_v6_def)
  then show ?thesis
    using read_sockaddr_stored [OF sample_memory, of "k\<lparr>sk_regs := [7 \<mapsto> sample_connect_regs]\<rparr>" 7
        "sk_mem sample_state 7" 4096 sample_v6]
      sample_readable [of 28 7] by (simp add: sample_v6_hctx_def) (simp add: sample_v6_def)
qed

lemma sample_exit_ok:
  "pending_restore (tstate h) = None \<Longrightarrow> sk_regs (kern h) 7 \<noteq> None \<Longrightarrow>
     fst (handle_syscall_exit sample_os 7 regs h) = Inr ()"
  by (auto simp: handle_syscall_exit_def take_restore_def take_forced_errno_def Let_def
      set_regs_or_ptrace_def set_regs_def handle_socket_exit_def sample_os_def split: option.splits)

lemma and_not_and_zero: "((x :: u64) AND NOT m) AND m = 0"
  by (rule bit_word_eqI) (auto simp: bit_simps)

lemma and_not_idle: "(x :: u64) AND m = 0 \<Longrightarrow> x AND NOT m = x"
  by (rule bit_word_eqI) (metis bit_0_eq bit_and_iff bit_not_iff bit_imp_le_length bot_apply bot_bool_def possible_bit_word)

section \<open>Properties\<close>

text \<open>
  C7. On a destination that can be read, the connect handler follows the policy. A connection that
  passes or is blocked leaves the tracee's memory and the destination table as they were, and a
  blocked one only sets the result to be forced at the exit. An intercepted connection finds the
  local proxy's address in the tracee's memory in place of its own, the table resolves its
  descriptor, and its socket inode if there is one, to the original destination, and the address to
  restore is remembered.
\<close>

theorem connect_enter_follows_policy:
  fixes h :: "'k hctx" and os :: "'k os" and pid :: i32
  defines "g \<equiv> tgid_of (proc_view os (kern h)) (trk h) pid"
  assumes mem: "tracee_memory os mem pid" and keep: "pidfd_calls_keep os mem"
    and r: "readable (mem (kern h) pid) (rsi regs) 32" and loc: "\<not> is_v6 (tc_local cfg)"
    and read: "read_sockaddr os (kern h) pid (rsi regs) (rdx regs) = Inr dest"
    and eq: "handle_connect_enter os cfg pid regs h = (res, h')"
  shows "res = Inr () \<and>
    (case connect_policy cfg dest (stream_socket os pid (connect_fd regs) h) of
       Pass \<Rightarrow> mem (kern h') = mem (kern h) \<and> same_table (trk h') (trk h) \<and>
         tstate h' = (tstate h)\<lparr>pending_restore := None\<rparr>
     | Block \<Rightarrow> mem (kern h') = mem (kern h) \<and> trk h' = trk h \<and>
         tstate h' = (tstate h)\<lparr>pending_restore := None, forced_connect_errno := Some EAFNOSUPPORT\<rparr>
     | Intercept \<Rightarrow>
         mem (kern h') pid = store_bytes (mem (kern h) pid) (rsi regs) (sockaddr_buf (tc_local cfg)) \<and>
         tstate h' = (tstate h)\<lparr>pending_restore := Some \<lparr>addr_ptr = rsi regs, restore_dest = dest\<rparr>\<rparr> \<and>
         get_by_pid_fd (trk h') g (connect_fd regs) = Some \<lparr>si_dest = dest\<rparr> \<and>
         (\<exists>k \<in> {kern h, snd (probe_socket_is_stream os (kern h) pid (connect_fd regs))}.
            \<forall>i. read_socket_inode (proc_view os k) pid (connect_fd regs) = Some i \<longrightarrow>
              get_by_inode (trk h') i = Some \<lparr>si_dest = dest\<rparr>))"
proof (cases "connect_policy cfg dest (stream_socket os pid (connect_fd regs) h)")
  case Pass
  note p = connect_enter_pass [OF read Pass eq]
  show ?thesis using p probe_keeps [OF keep] by (auto simp: Pass)
next
  case Block
  then show ?thesis using connect_enter_block [OF read Block eq] by simp
next
  case Intercept
  obtain h2 :: "'k hctx" where h2: "handle_connect_enter os cfg pid regs h = (Inr (), h')"
    "trk h' = record_connect (proc_view os (kern h2)) pid (connect_fd regs) \<lparr>si_dest = dest\<rparr>
      (read_socket_inode (proc_view os (kern h2)) pid (connect_fd regs)) (trk h2)"
    "tid_to_tgid (trk h2) pid = Some g"
    "kern h2 \<in> {kern h, snd (probe_socket_is_stream os (kern h) pid (connect_fd regs))}"
    "tstate h' = (tstate h)\<lparr>pending_restore := Some \<lparr>addr_ptr = rsi regs, restore_dest = dest\<rparr>\<rparr>"
    "mem (kern h') pid = store_bytes (mem (kern h) pid) (rsi regs) (sockaddr_buf (tc_local cfg))"
    using connect_enter_redirects [OF mem keep r loc read Intercept] eq unfolding g_def by auto
  have "get_by_pid_fd (trk h') g (connect_fd regs) = Some \<lparr>si_dest = dest\<rparr>"
    using record_connect_dest(1) [where pid = pid and t = "trk h2"]
    unfolding h2(2) tgid_of_known [OF h2(3)] .
  moreover have "get_by_inode (trk h') i = Some \<lparr>si_dest = dest\<rparr>"
    if "read_socket_inode (proc_view os (kern h2)) pid (connect_fd regs) = Some i" for i
    unfolding h2(2) using that by (rule record_connect_dest(2))
  ultimately show ?thesis using h2 eq Intercept by auto
qed

theorem connect_enter_follows_policy_witness:
  "fst (handle_connect_enter sample_os sample_cfg 7 sample_connect_regs sample_hctx) = Inr () \<and>
   get_by_pid_fd (trk (snd (handle_connect_enter sample_os sample_cfg 7 sample_connect_regs sample_hctx)))
     (tgid_of (proc_view sample_os sample_connect_state) (trk sample_hctx) 7) 5
     = Some \<lparr>si_dest = sample_dest\<rparr>"
proof -
  have "stream_socket sample_os 7 (connect_fd sample_connect_regs) sample_hctx"
    using sample_stream by (simp add: sample_connect_regs_def)
  then show ?thesis
    using connect_enter_follows_policy [OF sample_memory sample_pidfd_calls,
        of sample_hctx 7 sample_connect_regs sample_cfg sample_dest
        "fst (handle_connect_enter sample_os sample_cfg 7 sample_connect_regs sample_hctx)"
        "snd (handle_connect_enter sample_os sample_cfg 7 sample_connect_regs sample_hctx)"]
      sample_connect_readable sample_connect_read sample_policy
    by (simp add: sample_hctx_def sample_connect_regs_def sample_cfg_def)
qed

text \<open>
  C28. A blocked IPv6 \<open>connect\<close>: the handler leaves the tracee's registers and memory
  alone at the entry, so the system call is executed with the original destination; at the exit the
  result register is set to \<open>-EAFNOSUPPORT\<close> (-97) whatever the call returned, every
  other register keeps its value, and the forced error is used up.
\<close>

theorem blocked_connect_result:
  assumes regs: "tracee_regs os regs_of pid"
    and read: "read_sockaddr os (kern h) pid (rsi regs) (rdx regs) = Inr dest"
    and pol: "connect_policy cfg dest (stream_socket os pid (connect_fd regs) h) = Block"
    and enter: "handle_connect_enter os cfg pid regs h = (res, h1)"
    and stop: "tstate h2 = tstate h1" and nr: "get_syscall_nr regs' \<noteq> SYS_SOCKET"
    and exit: "handle_syscall_exit os pid regs' h2 = (Inr (), h3)"
  shows "kern h1 = kern h \<and> regs_of (kern h3) pid = regs'\<lparr>rax := - 97\<rparr> \<and>
    forced_connect_errno (tstate h3) = None"
proof -
  note b = connect_enter_block [OF read pol enter]
  let ?forced = "set_return_value regs' (- 97)"
  have e: "(scast EAFNOSUPPORT :: i64) = 97" unfolding EAFNOSUPPORT_def by code_simp
  obtain x k where set: "ptrace_setregs os (kern h2) pid ?forced = (x, k)" by fastforce
  have "x = Inr () \<and> kern h3 = k \<and> forced_connect_errno (tstate h3) = None"
    using exit nr set
    by (auto simp: handle_syscall_exit_def take_restore_def take_forced_errno_def stop b(4) e
        set_regs_or_ptrace_def set_regs_def Let_def split: sum.splits)
  moreover have "regs_of k pid = ?forced" if "x = Inr ()"
    using regs set that unfolding tracee_regs_def by (metis fst_conv is_ok_simps(2) snd_conv)
  ultimately show ?thesis using b(2) by (simp add: set_return_value_def)
qed

theorem blocked_connect_result_witness:
  "let cfg = sample_cfg\<lparr>tc_disable_ipv6 := True\<rparr>;
       h1 = snd (handle_connect_enter sample_os cfg 7 sample_connect_regs sample_v6_hctx);
       h3 = snd (handle_syscall_exit sample_os 7 sample_connect_regs h1)
   in the (sk_regs (kern h3) 7) = sample_connect_regs\<lparr>rax := - 97\<rparr>"
proof -
  let ?cfg = "sample_cfg\<lparr>tc_disable_ipv6 := True\<rparr>" and ?r = sample_connect_regs
  let ?e = "handle_connect_enter sample_os ?cfg 7 ?r sample_v6_hctx"
  let ?x = "handle_syscall_exit sample_os 7 ?r (snd ?e)"
  have read: "read_sockaddr sample_os (kern sample_v6_hctx) 7 (rsi ?r) (rdx ?r) = Inr sample_v6"
    using sample_v6_read by (simp add: sample_connect_regs_def)
  have "connect_policy ?cfg sample_v6 b = Block" for b by (cases b; code_simp)
  then have pol: "connect_policy ?cfg sample_v6
      (stream_socket sample_os 7 (connect_fd ?r) sample_v6_hctx) = Block" by simp
  have "pending_restore (tstate (snd ?e)) = None"
    using connect_enter_block(4) [OF read pol, of "fst ?e" "snd ?e"] by simp
  moreover have "sk_regs (kern (snd ?e)) 7 \<noteq> None"
    using connect_enter_block(2) [OF read pol, of "fst ?e" "snd ?e"] by (simp add: sample_v6_hctx_def)
  ultimately have "fst ?x = Inr ()" by (rule sample_exit_ok)
  then have "?x = (Inr (), snd ?x)" by (metis prod.collapse)
  then show ?thesis
    using blocked_connect_result [OF sample_regs read pol, of "fst ?e" "snd ?e" "snd ?e" ?r "snd ?x"]
    by (simp add: Let_def sample_connect_regs_def get_syscall_nr_def syscall_numbers)
qed

text \<open>
  C26. After the entry of a \<open>clone\<close> call has been handled, the call runs with its flags
  argument less \<open>CLONE_UNTRACED\<close> and with every other register as it was.
\<close>

theorem clone_enter_traced:
  assumes regs: "tracee_regs os regs_of pid" "regs_of (kern h) pid = regs"
    and nr: "get_syscall_nr regs = SYS_CLONE"
    and ok: "handle_syscall_enter os cfg pid regs h = (Inr (), h')"
  shows "regs_of (kern h') pid = regs\<lparr>rdi := rdi regs AND NOT CLONE_UNTRACED\<rparr> \<and>
    rdi (regs_of (kern h') pid) AND CLONE_UNTRACED = 0 \<and> trk h' = trk h \<and> tstate h' = tstate h"
proof -
  let ?new = "regs\<lparr>rdi := rdi regs AND NOT CLONE_UNTRACED\<rparr>"
  have eq: "handle_clone_enter os pid regs h = (Inr (), h')"
    using ok nr by (simp add: handle_syscall_enter_def syscall_numbers)
  have "regs_of (kern h') pid = ?new \<and> trk h' = trk h \<and> tstate h' = tstate h"
  proof (cases "rdi regs AND CLONE_UNTRACED = 0")
    case True
    then show ?thesis using eq regs(2) by (auto simp: handle_clone_enter_def and_not_idle)
  next
    case False
    obtain x k where set: "ptrace_setregs os (kern h) pid ?new = (x, k)" by fastforce
    have "x = Inr () \<and> h' = h\<lparr>kern := k\<rparr>"
      using eq False set by (cases x) (auto simp: handle_clone_enter_def set_syscall_arg_def
          set_regs_or_ptrace_def set_regs_def Let_def)
    then show ?thesis
      using regs(1) set unfolding tracee_regs_def by (metis fst_conv hctx.select_convs(1) hctx.simps
          hctx.surjective hctx.update_convs(1) is_ok_simps(2) snd_conv)
  qed
  then show ?thesis by (simp add: and_not_and_zero)
qed

theorem clone_enter_traced_witness:
  "let regs = sample_connect_regs\<lparr>orig_rax := 56, rdi := 0x00800011\<rparr>;
       h = sample_hctx\<lparr>kern := sample_state\<lparr>sk_regs := [7 \<mapsto> regs]\<rparr>\<rparr>;
       h' = snd (handle_syscall_enter sample_os sample_cfg 7 regs h)
   in rdi (the (sk_regs (kern h') 7)) = 0x11"
proof -
  let ?regs = "sample_connect_regs\<lparr>orig_rax := 56, rdi := 0x00800011\<rparr>"
  let ?h = "sample_hctx\<lparr>kern := sample_state\<lparr>sk_regs := [7 \<mapsto> ?regs]\<rparr>\<rparr>"
  have "fst (handle_syscall_enter sample_os sample_cfg 7 ?regs ?h) = Inr ()"
    by (simp add: handle_syscall_enter_def handle_clone_enter_def set_syscall_arg_def
        set_regs_or_ptrace_def set_regs_def sample_os_def get_syscall_nr_def syscall_numbers Let_def)
  then have "handle_syscall_enter sample_os sample_cfg 7 ?regs ?h =
      (Inr (), snd (handle_syscall_enter sample_os sample_cfg 7 ?regs ?h))"
    by (metis prod.collapse)
  from clone_enter_traced [OF sample_regs _ _ this] show ?thesis
    by (simp add: Let_def get_syscall_nr_def syscall_numbers CLONE_UNTRACED_def)
qed

text \<open>
  C27. After the entry of a \<open>clone3\<close> call has been handled, the call runs without
  \<open>CLONE_UNTRACED\<close> in its flags, the first word of a structure in the tracee's memory:
  when the word is mapped, the handler succeeds, the word loses this bit and no other, and no other
  byte of memory changes.
\<close>

theorem clone3_enter_traced:
  fixes h :: "'k hctx"
  assumes mem: "tracee_memory os mem pid" and r: "readable (mem (kern h) pid) (rdi regs) 8"
    and nr: "get_syscall_nr regs = SYS_CLONE3" and p: "rdi regs \<noteq> 0"
    and flags: "flags = u64_from_ne_bytes (bytes_at (mem (kern h) pid) (rdi regs) 8)"
  shows "\<exists>k. handle_syscall_enter os cfg pid regs h = (Inr (), h\<lparr>kern := k\<rparr>) \<and>
    mem k pid = store_bytes (mem (kern h) pid) (rdi regs) (u64_to_ne_bytes (flags AND NOT CLONE_UNTRACED)) \<and>
    read_u64 os k pid (rdi regs) = Inr (flags AND NOT CLONE_UNTRACED)"
proof -
  let ?m = "mem (kern h) pid" and ?a = "rdi regs" and ?new = "flags AND NOT CLONE_UNTRACED"
  have read: "read_u64 os (kern h) pid ?a = Inr flags"
    using tracee_readvD [OF mem r] by (simp add: read_u64_def flags)
  have "\<exists>k. handle_clone3_enter os pid regs h = (Inr (), h\<lparr>kern := k\<rparr>) \<and>
    mem k pid = store_bytes ?m ?a (u64_to_ne_bytes ?new)"
  proof (cases "flags AND CLONE_UNTRACED = 0")
    case True
    have "u64_to_ne_bytes flags = bytes_at ?m ?a 8" by (simp add: flags u64_ne.enc_dec)
    then have "store_bytes ?m ?a (u64_to_ne_bytes ?new) = ?m"
      using store_bytes_same [OF r] by (simp add: and_not_idle [OF True])
    then show ?thesis
      using True p read by (intro exI [of _ "kern h"]) (simp add: handle_clone3_enter_def)
  next
    case False
    then show ?thesis
      using p read tracee_pokeD [OF mem r, of ?new]
      by (intro exI [of _ "snd (ptrace_poke os (kern h) pid ?a ?new)"])
        (auto simp: handle_clone3_enter_def write_u64_def split: prod.splits)
  qed
  then obtain k where k: "handle_clone3_enter os pid regs h = (Inr (), h\<lparr>kern := k\<rparr>)"
    "mem k pid = store_bytes ?m ?a (u64_to_ne_bytes ?new)" by blast
  have "readable (mem k pid) ?a 8" unfolding k(2) using r by (rule readable_store)
  then have "read_u64 os k pid ?a = Inr ?new"
    using tracee_readvD [OF mem, of k ?a 8] bytes_at_store [of "u64_to_ne_bytes ?new" ?m ?a]
    by (simp add: read_u64_def k(2) u64_ne.length_enc u64_ne.dec_enc)
  then show ?thesis
    using k nr by - (rule exI [of _ k], simp add: handle_syscall_enter_def syscall_numbers)
qed

theorem clone3_enter_traced_witness:
  "\<exists>k. handle_syscall_enter sample_os sample_cfg 7
       (sample_connect_regs\<lparr>orig_rax := 435, rdi := 4096\<rparr>) (sample_hctx\<lparr>kern := sample_state\<rparr>) =
     (Inr (), sample_hctx\<lparr>kern := k\<rparr>)"
  using clone3_enter_traced [OF sample_memory, of "sample_hctx\<lparr>kern := sample_state\<rparr>" 7
      "sample_connect_regs\<lparr>orig_rax := 435, rdi := 4096\<rparr>" _ sample_cfg]
    sample_readable [of 8 7]
  by (auto simp: get_syscall_nr_def syscall_numbers)

text \<open>
  C25. A stop of a traced thread alternates between entry and exit: it flips the phase when its
  handler succeeds and keeps it when the handler fails, and between two calls no address is waiting
  to be restored and no result to be forced.
\<close>

theorem syscall_stops_alternate:
  assumes "thread_inv (tstate h)" and "handle_syscall_ptrace os cfg pid h = (r, h')"
  shows "thread_inv (tstate h') \<and>
    (phase (tstate h') \<noteq> phase (tstate h) \<longleftrightarrow> is_ok r)"
  using ptrace_stop_effect [OF assms] by (auto split: syscall_phase.splits)

theorem syscall_stops_alternate_witness:
  "thread_inv (tstate (snd (handle_syscall_ptrace sample_os sample_cfg 7 sample_hctx)))"
  using syscall_stops_alternate [OF _ surjective_pairing, of sample_hctx sample_os sample_cfg 7]
  by (simp add: sample_hctx_def)

end
