(* ===== verification/Trace_Loop.thy ===== *)
theory Trace_Loop
  imports Trace_Handlers
begin

text \<open>
  The trace loop of \<open>src/tracer/trace_loop.rs\<close>: the bookkeeping of traced tasks,
  shutdown on a signal and the loop of \<open>run\<close> over what \<open>waitpid\<close> reports.

  The local variables of \<open>run\<close> and the two atomics of the signal handler are the record
  \<open>tracer\<close>; one pass of the loop is \<open>loop_step\<close>, which continues, leaves
  the loop, returns an error or blocks in \<open>waitpid\<close> for ever; the loop itself is
  \<open>run_loop\<close>, a partial function whose value is \<open>None\<close> when it does not
  return. A signal handler may run between any two instructions of the loop; what it stores is
  observed only where the atomics are read, so the signals delivered since the last read are handled
  there.

  The main results: \<open>loop_inv\<close> holds throughout; the loop returns for every program that
  produces finitely many events, unless \<open>waitpid\<close> blocks; the exit status and the
  shutdown escalation, with the signals that are sent, are characterised pass by pass.
\<close>

section \<open>State\<close>

record shutdown_state =
  sd_signal :: signal
  started_at :: nat
  escalated :: bool

record 'k tracer =
  t_kern :: 'k
  t_trk :: tracker
  t_threads :: "i32 \<rightharpoonup> thread_state"
  t_active :: "i32 set"
  t_stats :: trace_stats
  t_shutdown :: "shutdown_state option"
  t_exit :: i32
  t_main_exited :: bool
  t_signal :: i32
  t_count :: usize

datatype 'k outcome =
    Continue "'k tracer"
  | Break "'k tracer"
  | Fail error "'k tracer"
  | Hang "'k tracer"

definition PTRACE_EVENT_FORK :: i32 where "PTRACE_EVENT_FORK = 1"
definition PTRACE_EVENT_VFORK :: i32 where "PTRACE_EVENT_VFORK = 2"
definition PTRACE_EVENT_CLONE :: i32 where "PTRACE_EVENT_CLONE = 3"
definition PTRACE_EVENT_SECCOMP :: i32 where "PTRACE_EVENT_SECCOMP = 7"

lemmas ptrace_events =
  PTRACE_EVENT_FORK_def PTRACE_EVENT_VFORK_def PTRACE_EVENT_CLONE_def PTRACE_EVENT_SECCOMP_def

section \<open>Signals\<close>

definition handle_shutdown_signal :: "signal \<Rightarrow> 'k tracer \<Rightarrow> 'k tracer" where
  "handle_shutdown_signal sig st =
     (let st1 = (if t_signal st = 0 then st\<lparr>t_signal := sig\<rparr> else st)
      in st1\<lparr>t_count := t_count st1 + 1\<rparr>)"

definition deliver_signals :: "'k os \<Rightarrow> 'k tracer \<Rightarrow> 'k tracer" where
  "deliver_signals os st =
     (case delivered_signals os (t_kern st) of
        (sigs, k) \<Rightarrow> fold handle_shutdown_signal sigs (st\<lparr>t_kern := k\<rparr>))"

fun install_actions :: "'k os \<Rightarrow> signal list \<Rightarrow> 'k \<Rightarrow> (error + unit) \<times> 'k" where
  "install_actions os [] k = (Inr (), k)"
| "install_actions os (sig # sigs) k =
     (case sys_sigaction os k sig of
        (Inl e, k1) \<Rightarrow> (Inl (Ptrace e), k1)
      | (Inr _, k1) \<Rightarrow> install_actions os sigs k1)"

definition install_shutdown_handlers :: "'k os \<Rightarrow> 'k tracer \<Rightarrow> (error + unit) \<times> 'k tracer" where
  "install_shutdown_handlers os st =
     (case install_actions os [SIGINT, SIGTERM, SIGHUP] (t_kern st) of
        (Inl e, k) \<Rightarrow> (Inl e, st\<lparr>t_kern := k\<rparr>)
      | (Inr _, k) \<Rightarrow> (Inr (), (deliver_signals os (st\<lparr>t_kern := k\<rparr>))\<lparr>t_signal := 0, t_count := 0\<rparr>))"

definition shutdown_signal_of :: "i32 \<Rightarrow> signal option" where
  "shutdown_signal_of v =
     (if v = 0 then None
      else if v = SIGINT then Some SIGINT
      else if v = SIGTERM then Some SIGTERM
      else if v = SIGHUP then Some SIGHUP
      else Some SIGTERM)"

definition pending_shutdown_signal :: "'k os \<Rightarrow> 'k tracer \<Rightarrow> signal option \<times> 'k tracer" where
  "pending_shutdown_signal os st =
     (let st1 = deliver_signals os st in (shutdown_signal_of (t_signal st1), st1))"

section \<open>Bookkeeping of traced tasks\<close>

definition cleanup_dead_tracee :: "'k os \<Rightarrow> i32 \<Rightarrow> 'k tracer \<Rightarrow> 'k tracer" where
  "cleanup_dead_tracee os pid st =
     st\<lparr>t_threads := (t_threads st)(pid := None),
        t_trk := cleanup_process (proc_view os (t_kern st)) pid (t_trk st),
        t_active := t_active st - {pid}\<rparr>"

definition active_list :: "'k os \<Rightarrow> 'k tracer \<Rightarrow> i32 list" where
  "active_list os st = hash_order os (t_kern st) (t_active st)"

definition prune_gone_tracees :: "'k os \<Rightarrow> 'k tracer \<Rightarrow> 'k tracer" where
  "prune_gone_tracees os st =
     (let gone = filter (\<lambda>pid. \<not> path_exists (proc_view os (t_kern st)) (proc_path pid))
                   (active_list os st)
      in fold (cleanup_dead_tracee os) gone st)"

definition resume_or_drop ::
  "'k os \<Rightarrow> i32 \<Rightarrow> (errno + unit) \<times> 'k \<Rightarrow> 'k tracer \<Rightarrow> 'k tracer" where
  "resume_or_drop os pid rk st =
     (let st1 = st\<lparr>t_kern := snd rk\<rparr>
      in case fst rk of
           Inr _ \<Rightarrow> st1
         | Inl err \<Rightarrow> if is_esrch_nix err then cleanup_dead_tracee os pid st1 else st1)"

definition terminate_tracee :: "'k os \<Rightarrow> bool \<Rightarrow> signal \<Rightarrow> i32 \<Rightarrow> 'k tracer \<Rightarrow> 'k tracer" where
  "terminate_tracee os use_seccomp sig pid st =
     (let k = sys_kill os (t_kern st) pid sig
      in resume_or_drop os pid
           (if use_seccomp then ptrace_cont os k pid (Some sig) else ptrace_syscall os k pid (Some sig)) st)"

definition terminate_active_tracees :: "'k os \<Rightarrow> bool \<Rightarrow> signal \<Rightarrow> 'k tracer \<Rightarrow> 'k tracer" where
  "terminate_active_tracees os use_seccomp sig st =
     fold (terminate_tracee os use_seccomp sig) (active_list os st) st"

definition kill_tracee :: "'k os \<Rightarrow> i32 \<Rightarrow> 'k tracer \<Rightarrow> 'k tracer" where
  "kill_tracee os pid st =
     (let k = sys_kill os (t_kern st) pid SIGKILL
      in resume_or_drop os pid (ptrace_kill os k pid) st)"

definition kill_active_tracees :: "'k os \<Rightarrow> 'k tracer \<Rightarrow> 'k tracer" where
  "kill_active_tracees os st = fold (kill_tracee os) (active_list os st) st"

definition poll_tracee :: "'k os \<Rightarrow> i32 \<Rightarrow> 'k tracer \<Rightarrow> 'k tracer" where
  "poll_tracee os pid st =
     (case waitpid_nohang os (t_kern st) pid of
        (r, k) \<Rightarrow>
          (let st1 = st\<lparr>t_kern := k\<rparr>
           in case r of
                Inr (Exited done_pid _) \<Rightarrow> cleanup_dead_tracee os done_pid st1
              | Inr (Signaled done_pid _ _) \<Rightarrow> cleanup_dead_tracee os done_pid st1
              | Inr _ \<Rightarrow> st1
              | Inl err \<Rightarrow>
                  if err = ECHILD \<or> err = ESRCH then cleanup_dead_tracee os pid st1 else st1))"

definition poll_known_tracees :: "'k os \<Rightarrow> 'k tracer \<Rightarrow> 'k tracer" where
  "poll_known_tracees os st = fold (poll_tracee os) (active_list os st) st"

definition resume_tracee ::
  "'k os \<Rightarrow> bool \<Rightarrow> i32 \<Rightarrow> signal option \<Rightarrow> 'k tracer \<Rightarrow> (error + unit) \<times> 'k tracer" where
  "resume_tracee os use_seccomp pid sig st =
     (let should_trace_exit =
            (case t_threads st pid of Some s \<Rightarrow> phase s = Exiting | None \<Rightarrow> False)
      in case (if use_seccomp \<and> \<not> should_trace_exit then ptrace_cont os (t_kern st) pid sig
               else ptrace_syscall os (t_kern st) pid sig) of
           (r, k) \<Rightarrow>
             (let st1 = st\<lparr>t_kern := k\<rparr>
              in case r of
                   Inr _ \<Rightarrow> (Inr (), st1)
                 | Inl err \<Rightarrow>
                     if is_esrch_nix err then (Inr (), cleanup_dead_tracee os pid st1)
                     else (Inl (Ptrace err), st1)))"

section \<open>Shutdown\<close>

definition begin_shutdown :: "'k os \<Rightarrow> trace_config \<Rightarrow> 'k tracer \<Rightarrow> 'k tracer" where
  "begin_shutdown os cfg st =
     terminate_active_tracees os (tc_seccomp cfg) SIGTERM
       (st\<lparr>t_kern := sys_killpg os (t_kern st) (tc_child cfg) SIGTERM\<rparr>)"

definition escalate_shutdown :: "'k os \<Rightarrow> trace_config \<Rightarrow> 'k tracer \<Rightarrow> 'k tracer" where
  "escalate_shutdown os cfg st =
     kill_active_tracees os (st\<lparr>t_kern := sys_killpg os (t_kern st) (tc_child cfg) SIGKILL\<rparr>)"

definition update_shutdown_state :: "'k os \<Rightarrow> trace_config \<Rightarrow> 'k tracer \<Rightarrow> 'k tracer" where
  "update_shutdown_state os cfg st =
     (case pending_shutdown_signal os st of
        (None, st1) \<Rightarrow> st1
      | (Some sig, st1) \<Rightarrow>
          (case t_shutdown st1 of
             None \<Rightarrow>
               (let st2 = begin_shutdown os cfg st1
                in st2\<lparr>t_exit := 128 + sig,
                       t_shutdown := Some \<lparr>sd_signal = sig, started_at = clock_millis os (t_kern st2),
                                            escalated = False\<rparr>\<rparr>)
           | Some sd \<Rightarrow>
               if escalated sd then st1
               else (let st2 = deliver_signals os st1
                     in if 1 < t_count st2 \<or> 2000 \<le> clock_millis os (t_kern st2) - started_at sd
                        then (escalate_shutdown os cfg st2)\<lparr>t_shutdown := Some (sd\<lparr>escalated := True\<rparr>)\<rparr>
                        else st2)))"

definition ptrace_options :: "bool \<Rightarrow> u32" where
  "ptrace_options use_seccomp =
     (let options = 0x8 OR 0x10 OR 0x2 OR 0x4 OR 0x1
      in if use_seccomp then options OR 0x80 else options)"

definition setup_ptrace_options :: "'k os \<Rightarrow> i32 \<Rightarrow> bool \<Rightarrow> 'k \<Rightarrow> 'k" where
  "setup_ptrace_options os pid use_seccomp k =
     snd (ptrace_setoptions os k pid (ptrace_options use_seccomp))"

section \<open>One pass of the loop\<close>

definition thread_ctx :: "i32 \<Rightarrow> 'k tracer \<Rightarrow> 'k hctx" where
  "thread_ctx pid st =
     \<lparr>kern = t_kern st, trk = t_trk st,
      tstate = (case t_threads st pid of Some s \<Rightarrow> s | None \<Rightarrow> thread_state_default),
      stats = t_stats st\<rparr>"

definition put_ctx :: "i32 \<Rightarrow> 'k hctx \<Rightarrow> 'k tracer \<Rightarrow> 'k tracer" where
  "put_ctx pid h st =
     st\<lparr>t_kern := kern h, t_trk := trk h, t_threads := (t_threads st)(pid \<mapsto> tstate h),
        t_stats := stats h\<rparr>"

definition resume_or_fail ::
  "'k os \<Rightarrow> trace_config \<Rightarrow> i32 \<Rightarrow> signal option \<Rightarrow> 'k tracer \<Rightarrow> 'k outcome" where
  "resume_or_fail os cfg pid sig st =
     (case resume_tracee os (tc_seccomp cfg) pid sig st of
        (Inl e, st1) \<Rightarrow> Fail e st1
      | (Inr _, st1) \<Rightarrow> Continue st1)"

text \<open>A task is gone: drop it, keep the exit status of the first child, stop when none is left.\<close>

definition on_gone :: "'k os \<Rightarrow> trace_config \<Rightarrow> i32 \<Rightarrow> i32 \<Rightarrow> 'k tracer \<Rightarrow> 'k outcome" where
  "on_gone os cfg pid code st =
     (let st1 = cleanup_dead_tracee os pid st;
          st2 = (if pid = tc_child cfg then st1\<lparr>t_exit := code, t_main_exited := True\<rparr> else st1)
      in if t_active st2 = {} then Break st2 else Continue st2)"

definition get_ptrace_event_msg :: "'k os \<Rightarrow> 'k \<Rightarrow> i32 \<Rightarrow> error + u64" where
  "get_ptrace_event_msg os k pid = map_err Ptrace (ptrace_geteventmsg os k pid)"

text \<open>The errors after which the loop takes the task for gone and goes on.\<close>

fun is_gone_error :: "error \<Rightarrow> bool" where
  "is_gone_error (Io io_err) = is_esrch_io io_err"
| "is_gone_error _ = False"

definition on_seccomp_event :: "'k os \<Rightarrow> trace_config \<Rightarrow> i32 \<Rightarrow> 'k tracer \<Rightarrow> 'k outcome" where
  "on_seccomp_event os cfg pid st =
     (let h = thread_ctx pid st
      in case get_regs os (kern h) pid of
           Inl e \<Rightarrow> Fail (Io e) (put_ctx pid h st)
         | Inr regs \<Rightarrow>
             (case handle_syscall_enter os cfg pid regs h of
                (Inl err, h1) \<Rightarrow>
                  (let st1 = put_ctx pid h1 st
                   in if is_gone_error err then Continue (cleanup_dead_tracee os pid st1)
                      else Fail err st1)
              | (Inr _, h1) \<Rightarrow>
                  resume_or_fail os cfg pid None
                    (put_ctx pid (h1\<lparr>tstate := (tstate h1)\<lparr>phase := Exiting\<rparr>\<rparr>) st)))"

definition on_ptrace_event :: "'k os \<Rightarrow> trace_config \<Rightarrow> i32 \<Rightarrow> i32 \<Rightarrow> 'k tracer \<Rightarrow> 'k outcome" where
  "on_ptrace_event os cfg pid event st =
     (let st1 = (if pid \<in> t_active st then st
                 else st\<lparr>t_active := insert pid (t_active st),
                         t_kern := setup_ptrace_options os pid (tc_seccomp cfg) (t_kern st)\<rparr>)
      in if event = PTRACE_EVENT_SECCOMP then on_seccomp_event os cfg pid st1
         else if event = PTRACE_EVENT_FORK \<or> event = PTRACE_EVENT_VFORK \<or> event = PTRACE_EVENT_CLONE
         then (case get_ptrace_event_msg os (t_kern st1) pid of
                 Inl e \<Rightarrow> Fail e st1
               | Inr msg \<Rightarrow>
                   resume_or_fail os cfg pid None (st1\<lparr>t_active := insert (ucast msg) (t_active st1)\<rparr>))
         else resume_or_fail os cfg pid None st1)"

definition on_syscall_stop :: "'k os \<Rightarrow> trace_config \<Rightarrow> i32 \<Rightarrow> 'k tracer \<Rightarrow> 'k outcome" where
  "on_syscall_stop os cfg pid st =
     (let st1 = st\<lparr>t_active := insert pid (t_active st)\<rparr>
      in case handle_syscall_ptrace os cfg pid (thread_ctx pid st1) of
           (Inl err, h) \<Rightarrow>
             (let st2 = put_ctx pid h st1
              in if is_gone_error err then Continue (cleanup_dead_tracee os pid st2) else Fail err st2)
         | (Inr _, h) \<Rightarrow> resume_or_fail os cfg pid None (put_ctx pid h st1))"

definition on_sigstop :: "'k os \<Rightarrow> trace_config \<Rightarrow> i32 \<Rightarrow> 'k tracer \<Rightarrow> 'k outcome" where
  "on_sigstop os cfg pid st =
     (let is_new = pid \<notin> t_active st;
          st1 = st\<lparr>t_active := insert pid (t_active st)\<rparr>;
          st2 = (if is_new \<or> pid = tc_child cfg
                 then st1\<lparr>t_kern := setup_ptrace_options os pid (tc_seccomp cfg) (t_kern st1)\<rparr> else st1)
      in resume_or_fail os cfg pid None st2)"

definition on_signal_stop :: "'k os \<Rightarrow> trace_config \<Rightarrow> i32 \<Rightarrow> signal \<Rightarrow> 'k tracer \<Rightarrow> 'k outcome" where
  "on_signal_stop os cfg pid sig st =
     (case ptrace_getsiginfo os (t_kern st) pid of
        Inr _ \<Rightarrow> resume_or_fail os cfg pid (Some sig) st
      | Inl err \<Rightarrow>
          if is_esrch_nix err then Continue (cleanup_dead_tracee os pid st)
          else resume_or_fail os cfg pid None st)"

definition on_other_status :: "'k os \<Rightarrow> trace_config \<Rightarrow> 'k tracer \<Rightarrow> 'k outcome" where
  "on_other_status os cfg st =
     Continue
       (if t_active st = {} then st
        else case active_list os st of
               [] \<Rightarrow> st
             | first_pid # _ \<Rightarrow> snd (resume_tracee os (tc_seccomp cfg) first_pid None st))"

definition on_interrupted :: "'k os \<Rightarrow> trace_config \<Rightarrow> 'k tracer \<Rightarrow> 'k outcome" where
  "on_interrupted os cfg st =
     (let st1 = prune_gone_tracees os st
      in if t_active st1 = {} then Break st1 else Continue (update_shutdown_state os cfg st1))"

definition on_invalid :: "'k os \<Rightarrow> 'k tracer \<Rightarrow> 'k outcome" where
  "on_invalid os st =
     (let st1 = prune_gone_tracees os (poll_known_tracees os st)
      in if t_active st1 = {} then Break st1
         else if t_main_exited st1
         then (let st2 = prune_gone_tracees os (poll_known_tracees os (kill_active_tracees os st1))
               in if t_active st2 = {} then Break st2 else Continue st2)
         else Continue st1)"

definition on_wait_error :: "'k os \<Rightarrow> trace_config \<Rightarrow> errno \<Rightarrow> 'k tracer \<Rightarrow> 'k outcome" where
  "on_wait_error os cfg e st =
     (if e = EINTR then on_interrupted os cfg st
      else if e = ECHILD then Break st
      else if e = EINVAL then on_invalid os st
      else Fail (Wait e) st)"

fun on_wait :: "'k os \<Rightarrow> trace_config \<Rightarrow> errno + wait_status \<Rightarrow> 'k tracer \<Rightarrow> 'k outcome" where
  "on_wait os cfg (Inr (Exited pid code)) st = on_gone os cfg pid code st"
| "on_wait os cfg (Inr (Signaled pid sig core)) st = on_gone os cfg pid (128 + sig) st"
| "on_wait os cfg (Inr (PtraceEvent pid sig event)) st = on_ptrace_event os cfg pid event st"
| "on_wait os cfg (Inr (PtraceSyscall pid)) st = on_syscall_stop os cfg pid st"
| "on_wait os cfg (Inr (Stopped pid sig)) st =
     (if sig = SIGSTOP then on_sigstop os cfg pid st
      else if sig = SIGTRAP then resume_or_fail os cfg pid None st
      else on_signal_stop os cfg pid sig st)"
| "on_wait os cfg (Inr (Continued pid)) st = on_other_status os cfg st"
| "on_wait os cfg (Inr StillAlive) st = on_other_status os cfg st"
| "on_wait os cfg (Inl e) st = on_wait_error os cfg e st"

definition loop_step :: "'k os \<Rightarrow> trace_config \<Rightarrow> 'k tracer \<Rightarrow> 'k outcome" where
  "loop_step os cfg st =
     (let st1 = prune_gone_tracees os st
      in if t_active st1 = {} then Break st1
         else (let st2 = update_shutdown_state os cfg st1
               in case wait_for_tracee os (t_kern st2) of
                    None \<Rightarrow> Hang st2
                  | Some (w, k) \<Rightarrow> on_wait os cfg w (st2\<lparr>t_kern := k\<rparr>)))"

partial_function (option) run_loop ::
  "'k os \<Rightarrow> trace_config \<Rightarrow> 'k tracer \<Rightarrow> ((error + i32) \<times> 'k tracer) option" where
  "run_loop os cfg st =
     (case loop_step os cfg st of
        Continue st' \<Rightarrow> run_loop os cfg st'
      | Break st' \<Rightarrow> Some (Inr (t_exit st'), st')
      | Fail e st' \<Rightarrow> Some (Inl e, st')
      | Hang st' \<Rightarrow> None)"

definition tracer_start :: "'k \<Rightarrow> tracker \<Rightarrow> trace_config \<Rightarrow> 'k tracer" where
  "tracer_start k t cfg =
     \<lparr>t_kern = k, t_trk = t, t_threads = Map.empty, t_active = {tc_child cfg},
      t_stats = trace_stats_default, t_shutdown = None, t_exit = 0, t_main_exited = False,
      t_signal = 0, t_count = 0\<rparr>"

definition run_tracer ::
  "'k os \<Rightarrow> 'k \<Rightarrow> tracker \<Rightarrow> trace_config \<Rightarrow> ((error + i32) \<times> 'k tracer) option" where
  "run_tracer os k t cfg =
     (case install_shutdown_handlers os (tracer_start k t cfg) of
        (Inl e, st) \<Rightarrow> Some (Inl e, st)
      | (Inr _, st) \<Rightarrow> run_loop os cfg st)"

section \<open>What a pass can do to the state\<close>

text \<open>
  The locale \<open>call_relation\<close> states what a relation between tracer states has to admit,
  the elementary changes the loop makes, to hold from one end of a pass to the other, as long as no
  task is reported gone, \<open>waitpid\<close> does not answer \<open>EINVAL\<close> and a reported
  stop is one of the tasks in \<open>T\<close>; \<open>poll_relation\<close> adds polling after
  \<open>EINVAL\<close>, \<open>task_relation\<close> admits all tasks, \<open>step_relation\<close>
  the end of the first child. Invariants, monotonicity of the shutdown, the exit status, the use of
  events and the answering of stops are instances of them.
\<close>

fun outcome_state :: "'k outcome \<Rightarrow> 'k tracer" where
  "outcome_state (Continue st) = st"
| "outcome_state (Break st) = st"
| "outcome_state (Fail e st) = st"
| "outcome_state (Hang st) = st"

fun is_gone :: "errno + wait_status \<Rightarrow> bool" where
  "is_gone (Inr (Exited pid code)) = True"
| "is_gone (Inr (Signaled pid sig core)) = True"
| "is_gone _ = False"

lemma cleanup_keeps_shutdown [simp]:
  "t_shutdown (cleanup_dead_tracee os pid st) = t_shutdown st"
  "t_signal (cleanup_dead_tracee os pid st) = t_signal st"
  by (simp_all add: cleanup_dead_tracee_def)

lemma fold_keeps: "(\<And>x st. g (f x st) = g st) \<Longrightarrow> g (fold f xs st) = g st"
  by (induction xs arbitrary: st) auto

lemma drop_keeps_shutdown [simp]:
  "t_shutdown (resume_or_drop os pid rk st) = t_shutdown st"
  "t_signal (resume_or_drop os pid rk st) = t_signal st"
  by (simp_all add: resume_or_drop_def Let_def split: sum.splits)

lemma t_shutdown_begin:
  "t_shutdown (begin_shutdown os cfg st) = t_shutdown st"
  "t_signal (begin_shutdown os cfg st) = t_signal st"
  unfolding begin_shutdown_def terminate_active_tracees_def
  by (simp_all add: terminate_tracee_def Let_def fold_keeps [of t_shutdown] fold_keeps [of t_signal])

lemma t_shutdown_escalate: "t_shutdown (escalate_shutdown os cfg st) = t_shutdown st"
  unfolding escalate_shutdown_def kill_active_tracees_def
  by (subst fold_keeps [of t_shutdown]) (simp_all add: kill_tracee_def Let_def)

lemma t_shutdown_deliver: "t_shutdown (deliver_signals os st) = t_shutdown st"
  unfolding deliver_signals_def
  by (auto simp: handle_shutdown_signal_def Let_def fold_keeps [of t_shutdown] split: prod.splits)

locale call_relation =
  fixes os :: "'k os" and cfg :: trace_config and T :: "i32 set" and R :: "'k tracer \<Rightarrow> 'k tracer \<Rightarrow> bool"
  assumes R_refl: "R st st"
    and R_trans: "R st st' \<Longrightarrow> R st' st'' \<Longrightarrow> R st st''"
    and R_kernel: "os_step os (t_kern st) k \<Longrightarrow> R st (st\<lparr>t_kern := k\<rparr>)"
    and R_deliver: "R st (deliver_signals os st)"
    and R_cleanup: "R st (cleanup_dead_tracee os pid st)"
    and R_activate: "R st (st\<lparr>t_active := insert pid (t_active st)\<rparr>)"
    and R_begin: "t_shutdown st = None \<Longrightarrow> t_signal st \<noteq> 0 \<Longrightarrow>
      R st (st\<lparr>t_exit := c, t_shutdown := Some sd\<rparr>)"
    and R_escalate:
      "t_shutdown st = Some sd \<Longrightarrow> R st (st\<lparr>t_shutdown := Some (sd\<lparr>escalated := True\<rparr>)\<rparr>)"
    and R_entry: "pid \<in> T \<Longrightarrow> pid \<in> t_active st \<Longrightarrow> R st (put_ctx pid (thread_ctx pid st) st)"
    and R_stop: "pid \<in> T \<Longrightarrow> pid \<in> t_active st \<Longrightarrow>
      handle_syscall_ptrace os cfg pid (thread_ctx pid st) = (r, h) \<Longrightarrow> R st (put_ctx pid h st)"
    and R_enter: "pid \<in> T \<Longrightarrow> pid \<in> t_active st \<Longrightarrow>
      handle_syscall_enter os cfg pid regs (thread_ctx pid st) = (Inr (), h) \<Longrightarrow>
      R st (put_ctx pid (h\<lparr>tstate := (tstate h)\<lparr>phase := Exiting\<rparr>\<rparr>) st)"
    and R_enter_fail: "pid \<in> T \<Longrightarrow> pid \<in> t_active st \<Longrightarrow>
      handle_syscall_enter os cfg pid regs (thread_ctx pid st) = (Inl e, h) \<Longrightarrow> R st (put_ctx pid h st)"
begin

lemma kernels: "os_steps os (t_kern st) k \<Longrightarrow> R st (st\<lparr>t_kern := k\<rparr>)"
proof (induction rule: rtranclp_induct)
  case base
  show ?case by (simp add: R_refl)
next
  case (step k k')
  have "R (st\<lparr>t_kern := k\<rparr>) (st\<lparr>t_kern := k'\<rparr>)"
    using R_kernel [of "st\<lparr>t_kern := k\<rparr>" k'] step.hyps(2) by simp
  then show ?case using step.IH R_trans by blast
qed

lemma folds: "(\<And>x st. R st (f x st)) \<Longrightarrow> R st (fold f xs st)"
  by (induction xs arbitrary: st) (auto intro: R_refl R_trans)

lemma prune: "R st (prune_gone_tracees os st)"
  unfolding prune_gone_tracees_def Let_def by (intro folds R_cleanup)

lemma dropped: "os_steps os (t_kern st) (snd rk) \<Longrightarrow> R st (resume_or_drop os pid rk st)"
  using R_trans [OF kernels R_cleanup, of st "snd rk" pid] kernels [of st "snd rk"]
  by (simp add: resume_or_drop_def Let_def split: sum.splits)

lemma terminate: "R st (terminate_active_tracees os use sig st)"
  unfolding terminate_active_tracees_def
proof (rule folds)
  fix pid and st :: "'k tracer"
  let ?k = "sys_kill os (t_kern st) pid sig"
  have "os_steps os (t_kern st) (snd (ptrace_cont os ?k pid (Some sig)))"
    "os_steps os (t_kern st) (snd (ptrace_syscall os ?k pid (Some sig)))"
    by (meson os_step.kill os_step.cont os_step.syscall converse_rtranclp_into_rtranclp r_into_rtranclp)+
  then show "R st (terminate_tracee os use sig pid st)"
    by (simp add: terminate_tracee_def Let_def dropped)
qed

lemma kill_all: "R st (kill_active_tracees os st)"
  unfolding kill_active_tracees_def
proof (rule folds)
  fix pid and st :: "'k tracer"
  let ?k = "sys_kill os (t_kern st) pid SIGKILL"
  have "os_steps os (t_kern st) (snd (ptrace_kill os ?k pid))"
    by (meson os_step.kill os_step.ptrace_kill converse_rtranclp_into_rtranclp r_into_rtranclp)
  then show "R st (kill_tracee os pid st)" by (simp add: kill_tracee_def Let_def dropped)
qed

lemma resume: "R st (snd (resume_tracee os use pid sig st))"
proof -
  let ?stop = "case t_threads st pid of Some s \<Rightarrow> phase s = Exiting | None \<Rightarrow> False"
  obtain r k where res: "(if use \<and> \<not> ?stop then ptrace_cont os (t_kern st) pid sig
      else ptrace_syscall os (t_kern st) pid sig) = (r, k)" by fastforce
  have k: "R st (st\<lparr>t_kern := k\<rparr>)"
    using R_kernel [OF os_step.cont] R_kernel [OF os_step.syscall] res by (metis snd_conv)
  have "R st (cleanup_dead_tracee os pid (st\<lparr>t_kern := k\<rparr>))" using k R_cleanup by (rule R_trans)
  then show ?thesis unfolding resume_tracee_def Let_def res using k by (simp split: sum.splits)
qed

lemma resumed: "R st st' \<Longrightarrow> R st (outcome_state (resume_or_fail os cfg pid sig st'))"
  using R_trans [OF _ resume, of st st' "tc_seccomp cfg" pid sig]
  by (auto simp: resume_or_fail_def split: prod.splits sum.splits)

lemma set_options: "R st (st\<lparr>t_kern := setup_ptrace_options os pid use (t_kern st)\<rparr>)"
  unfolding setup_ptrace_options_def by (rule R_kernel) (rule os_step.setoptions)

lemma update: "R st (update_shutdown_state os cfg st)"
proof -
  let ?s1 = "deliver_signals os st"
  note d = R_deliver [of st]
  show ?thesis
  proof (cases "t_shutdown st")
    case None
    let ?s2 = "begin_shutdown os cfg ?s1"
    let ?kg = "?s1\<lparr>t_kern := sys_killpg os (t_kern ?s1) (tc_child cfg) SIGTERM\<rparr>"
    have "R ?s1 ?kg" by (intro R_kernel os_step.killpg)
    then have "R st ?s2" unfolding begin_shutdown_def using d terminate R_trans by blast
    moreover have "R ?s2 (?s2\<lparr>t_exit := c, t_shutdown := Some sd\<rparr>)" if "t_signal ?s1 \<noteq> 0" for c sd
      using that by (intro R_begin) (simp_all add: t_shutdown_begin t_shutdown_deliver None)
    ultimately have "R st (?s2\<lparr>t_exit := c, t_shutdown := Some sd\<rparr>)" if "t_signal ?s1 \<noteq> 0" for c sd
      using that R_trans by blast
    moreover have "t_signal ?s1 \<noteq> 0" if "shutdown_signal_of (t_signal ?s1) = Some sig" for sig
      using that by (auto simp: shutdown_signal_of_def)
    ultimately show ?thesis using d None
      by (simp add: update_shutdown_state_def pending_shutdown_signal_def t_shutdown_deliver Let_def
          split: option.splits)
  next
    case (Some sd)
    let ?s2 = "deliver_signals os ?s1"
    have d2: "R st ?s2" using d R_deliver by (rule R_trans)
    let ?s3 = "escalate_shutdown os cfg ?s2"
    have "R ?s2 (?s2\<lparr>t_kern := sys_killpg os (t_kern ?s2) (tc_child cfg) SIGKILL\<rparr>)"
      by (intro R_kernel os_step.killpg)
    then have "R st ?s3" unfolding escalate_shutdown_def using d2 kill_all R_trans by blast
    moreover have "R ?s3 (?s3\<lparr>t_shutdown := Some (sd\<lparr>escalated := True\<rparr>)\<rparr>)"
      by (intro R_escalate) (simp add: t_shutdown_escalate t_shutdown_deliver Some)
    ultimately have "R st (?s3\<lparr>t_shutdown := Some (sd\<lparr>escalated := True\<rparr>)\<rparr>)" by (rule R_trans)
    then show ?thesis using d d2 Some
      by (simp add: update_shutdown_state_def pending_shutdown_signal_def t_shutdown_deliver Let_def
          split: option.splits)
  qed
qed

lemma cleaned: "R st st' \<Longrightarrow> R st (cleanup_dead_tracee os pid st')"
  using R_trans [OF _ R_cleanup] by blast

lemma seccomp_event: "pid \<in> T \<Longrightarrow> pid \<in> t_active st \<Longrightarrow> R st (outcome_state (on_seccomp_event os cfg pid st))"
  by (auto simp: on_seccomp_event_def Let_def R_entry cleaned R_enter_fail
      intro!: resumed R_enter split: sum.splits prod.splits)

lemma ptrace_event:
  assumes T: "pid \<in> T"
  shows "R st (outcome_state (on_ptrace_event os cfg pid event st))"
proof -
  let ?new = "st\<lparr>t_active := insert pid (t_active st)\<rparr>"
  define st1 where "st1 = (if pid \<in> t_active st then st
      else st\<lparr>t_active := insert pid (t_active st),
              t_kern := setup_ptrace_options os pid (tc_seccomp cfg) (t_kern st)\<rparr>)"
  have "R st (?new\<lparr>t_kern := setup_ptrace_options os pid (tc_seccomp cfg) (t_kern st)\<rparr>)"
    using R_trans [OF R_activate set_options, of st pid "tc_seccomp cfg" pid] by simp
  then have r1: "R st st1" by (simp add: st1_def R_refl)
  have "pid \<in> t_active st1" by (simp add: st1_def)
  then have sec: "R st (outcome_state (on_seccomp_event os cfg pid st1))"
    using r1 seccomp_event [OF T] R_trans by blast
  have "R st (st1\<lparr>t_active := insert c (t_active st1)\<rparr>)" for c
    using r1 R_activate by (rule R_trans)
  then show ?thesis
    unfolding on_ptrace_event_def st1_def [symmetric] Let_def using r1 sec resumed
    by (auto split: sum.splits)
qed

lemma syscall_stop:
  assumes T: "pid \<in> T"
  shows "R st (outcome_state (on_syscall_stop os cfg pid st))"
proof -
  let ?s = "st\<lparr>t_active := insert pid (t_active st)\<rparr>"
  obtain r h where h: "handle_syscall_ptrace os cfg pid (thread_ctx pid ?s) = (r, h)" by fastforce
  have "R ?s (put_ctx pid h ?s)" using h T by (intro R_stop) simp_all
  then have "R st (put_ctx pid h ?s)" using R_activate R_trans by blast
  then show ?thesis
    unfolding on_syscall_stop_def Let_def h using resumed cleaned by (simp split: sum.splits)
qed

lemma sigstop: "R st (outcome_state (on_sigstop os cfg pid st))"
proof -
  let ?s = "st\<lparr>t_active := insert pid (t_active st)\<rparr>"
  have "R st ?s" by (rule R_activate)
  moreover have "R st (?s\<lparr>t_kern := setup_ptrace_options os pid (tc_seccomp cfg) (t_kern ?s)\<rparr>)"
    using R_activate set_options by (rule R_trans)
  ultimately show ?thesis using resumed by (simp add: on_sigstop_def Let_def)
qed

lemma interrupted: "R st (outcome_state (on_interrupted os cfg st))"
  using prune [of st] R_trans [OF prune update] by (simp add: on_interrupted_def Let_def)

lemma other_status: "R st (outcome_state (on_other_status os cfg st))"
  using resume R_refl by (simp add: on_other_status_def split: list.splits)

lemma waited_call:
  assumes "\<not> is_gone w" and "w \<noteq> Inl EINVAL" and T: "stop_of w \<subseteq> T"
  shows "R st (outcome_state (on_wait os cfg w st))"
proof (cases w)
  case (Inl e)
  then show ?thesis using assms by (simp add: on_wait_error_def interrupted R_refl)
next
  case (Inr ws)
  then show ?thesis using assms(1) T
    by (cases ws) (auto simp: ptrace_event syscall_stop sigstop other_status on_signal_stop_def
        R_cleanup R_refl resumed split: sum.splits)
qed

lemma before_wait: "R st (update_shutdown_state os cfg (prune_gone_tracees os st))"
  using prune update by (rule R_trans)

end

locale poll_relation = call_relation os cfg T R
  for os :: "'k os" and cfg :: trace_config and T :: "i32 set" and R :: "'k tracer \<Rightarrow> 'k tracer \<Rightarrow> bool" +
  assumes R_poll: "R st (st\<lparr>t_kern := snd (waitpid_nohang os (t_kern st) pid)\<rparr>)"
begin

lemma poll: "R st (poll_known_tracees os st)"
  unfolding poll_known_tracees_def
proof (rule folds)
  fix pid and st :: "'k tracer"
  obtain r k where w: "waitpid_nohang os (t_kern st) pid = (r, k)" by fastforce
  have k: "R st (st\<lparr>t_kern := k\<rparr>)" using R_poll [of st pid] w by simp
  have "R st (cleanup_dead_tracee os p (st\<lparr>t_kern := k\<rparr>))" for p using k R_cleanup by (rule R_trans)
  then show "R st (poll_tracee os pid st)"
    using k by (auto simp: poll_tracee_def w Let_def split: sum.splits wait_status.splits)
qed

lemma invalid: "R st (outcome_state (on_invalid os st))"
proof -
  define st1 where "st1 = prune_gone_tracees os (poll_known_tracees os st)"
  define st2 where "st2 = prune_gone_tracees os (poll_known_tracees os (kill_active_tracees os st1))"
  have r1: "R st st1" unfolding st1_def using poll prune by (rule R_trans)
  have "R st1 st2" unfolding st2_def using kill_all poll prune R_trans by blast
  with r1 have "R st st2" by (rule R_trans)
  then show ?thesis
    unfolding on_invalid_def st1_def [symmetric] st2_def [symmetric] Let_def using r1 by simp
qed

lemma waited_poll:
  "\<not> is_gone w \<Longrightarrow> stop_of w \<subseteq> T \<Longrightarrow> R st (outcome_state (on_wait os cfg w st))"
  using invalid by (cases "w = Inl EINVAL") (simp_all add: on_wait_error_def errno_defs waited_call)

end

locale task_relation = poll_relation os cfg UNIV R
  for os :: "'k os" and cfg :: trace_config and R :: "'k tracer \<Rightarrow> 'k tracer \<Rightarrow> bool"
begin

lemma waited_task: "\<not> is_gone w \<Longrightarrow> R st (outcome_state (on_wait os cfg w st))"
  by (simp add: waited_poll)

lemmas call_axioms = call_relation_axioms

end

locale step_relation = task_relation +
  assumes R_main: "R st (st\<lparr>t_exit := c, t_main_exited := True\<rparr>)"
begin

lemma gone: "R st (outcome_state (on_gone os cfg pid code st))"
proof -
  let ?s = "cleanup_dead_tracee os pid st"
  have "R st ?s" "R st (?s\<lparr>t_exit := code, t_main_exited := True\<rparr>)"
    using R_cleanup R_trans [OF R_cleanup R_main] by blast+
  then show ?thesis by (auto simp: on_gone_def Let_def)
qed

lemma waited: "R st (outcome_state (on_wait os cfg w st))"
proof (cases "is_gone w")
  case True
  then show ?thesis by (cases w rule: is_gone.cases) (auto simp: gone)
qed (rule waited_task)

end

section \<open>The invariant of the loop\<close>

definition loop_inv :: "trace_config \<Rightarrow> 'k tracer \<Rightarrow> bool" where
  "loop_inv cfg st \<longleftrightarrow>
     finite (t_active st) \<and> dom (t_threads st) \<subseteq> t_active st \<and>
     (\<forall>s \<in> ran (t_threads st). thread_inv s) \<and> (\<exists>D \<subseteq> intercepted cfg. tracer_run D (t_trk st))"

lemma thread_ctx_simps [simp]:
  "kern (thread_ctx pid st) = t_kern st" "trk (thread_ctx pid st) = t_trk st"
  by (simp_all add: thread_ctx_def)

lemma thread_ctx_inv: "loop_inv cfg st \<Longrightarrow> thread_inv (tstate (thread_ctx pid st))"
  by (auto simp: loop_inv_def thread_ctx_def ran_def split: option.splits)

lemma loop_inv_run: "loop_inv cfg st \<Longrightarrow> \<exists>D \<subseteq> intercepted cfg. tracer_run D (t_trk st)"
  by (simp add: loop_inv_def)

lemma loop_inv_put:
  assumes "loop_inv cfg st" and "pid \<in> t_active st" and "thread_inv (tstate h)"
    and "\<exists>D \<subseteq> intercepted cfg. tracer_run D (trk h)"
  shows "loop_inv cfg (put_ctx pid h st)"
  using assms ran_upd_subset [of "t_threads st" pid "tstate h"]
  by (auto simp: loop_inv_def put_ctx_def)

lemma loop_inv_cleanup: "loop_inv cfg st \<Longrightarrow> loop_inv cfg (cleanup_dead_tracee os pid st)"
  using ran_del_subset [of "t_threads st" pid]
  by (auto simp: loop_inv_def cleanup_dead_tracee_def intro: tracer_run.cleanup)

lemma deliver_keeps:
  "t_active (deliver_signals os st) = t_active st" "t_threads (deliver_signals os st) = t_threads st"
  "t_trk (deliver_signals os st) = t_trk st" "t_exit (deliver_signals os st) = t_exit st"
  "t_main_exited (deliver_signals os st) = t_main_exited st"
  by (auto simp: deliver_signals_def handle_shutdown_signal_def Let_def fold_keeps [of t_active]
      fold_keeps [of t_threads] fold_keeps [of t_trk] fold_keeps [of t_exit]
      fold_keeps [of t_main_exited] split: prod.splits)

lemma loop_inv_enter:
  assumes "loop_inv cfg st" and "handle_syscall_enter os cfg pid regs (thread_ctx pid st) = (r, h)"
  shows "\<exists>D \<subseteq> intercepted cfg. tracer_run D (trk h)"
    and "\<not> is_ok r \<Longrightarrow> thread_inv (tstate h)"
proof -
  obtain D where D: "D \<subseteq> intercepted cfg" and run: "tracer_run D (trk (thread_ctx pid st))"
    using loop_inv_run [OF assms(1)] by auto
  note enter = enter_run [OF assms(2)]
  show "\<exists>D \<subseteq> intercepted cfg. tracer_run D (trk h)" using enter(1) [OF run] D by blast
  show "\<not> is_ok r \<Longrightarrow> thread_inv (tstate h)"
    using enter(2,3) thread_ctx_inv [OF assms(1), of pid] by (auto simp: thread_inv_def)
qed

lemma loop_inv_stop:
  assumes "loop_inv cfg st" and "handle_syscall_ptrace os cfg pid (thread_ctx pid st) = (r, h)"
  shows "\<exists>D \<subseteq> intercepted cfg. tracer_run D (trk h)" and "thread_inv (tstate h)"
proof -
  obtain D where D: "D \<subseteq> intercepted cfg" and run: "tracer_run D (trk (thread_ctx pid st))"
    using loop_inv_run [OF assms(1)] by auto
  note stop = ptrace_stop_effect [OF thread_ctx_inv [OF assms(1)] assms(2)]
  show "\<exists>D \<subseteq> intercepted cfg. tracer_run D (trk h)" and "thread_inv (tstate h)"
    using stop(1) stop(2) [OF run] D by blast+
qed

interpretation inv: step_relation os cfg "\<lambda>st st'. loop_inv cfg st \<longrightarrow> loop_inv cfg st'" for os :: "'k os" and cfg
proof unfold_locales
  fix pid h regs and r :: "error + unit" and e and st :: "'k tracer"
  assume pid: "pid \<in> t_active st"
  show "loop_inv cfg st \<longrightarrow> loop_inv cfg (put_ctx pid (thread_ctx pid st) st)"
    using pid by (auto intro!: loop_inv_put thread_ctx_inv dest: loop_inv_run)
  show "loop_inv cfg st \<longrightarrow> loop_inv cfg (put_ctx pid h st)"
    if "handle_syscall_ptrace os cfg pid (thread_ctx pid st) = (r, h)"
    using loop_inv_stop [OF _ that] pid by (blast intro: loop_inv_put)
  show "loop_inv cfg st \<longrightarrow> loop_inv cfg (put_ctx pid (h\<lparr>tstate := (tstate h)\<lparr>phase := Exiting\<rparr>\<rparr>) st)"
    if "handle_syscall_enter os cfg pid regs (thread_ctx pid st) = (Inr (), h)"
    using loop_inv_enter(1) [OF _ that] pid by (auto intro!: loop_inv_put simp: thread_inv_def)
  show "loop_inv cfg st \<longrightarrow> loop_inv cfg (put_ctx pid h st)"
    if "handle_syscall_enter os cfg pid regs (thread_ctx pid st) = (Inl e, h)"
    using loop_inv_enter [OF _ that] pid by (auto intro!: loop_inv_put)
qed (auto simp: loop_inv_cleanup, auto simp: loop_inv_def deliver_keeps)

section \<open>Shutdown only moves forward\<close>

fun sd_forward :: "shutdown_state option \<Rightarrow> shutdown_state option \<Rightarrow> bool" where
  "sd_forward None x = True"
| "sd_forward (Some sd) None = False"
| "sd_forward (Some sd) (Some sd') =
     (sd_signal sd' = sd_signal sd \<and> started_at sd' = started_at sd \<and> (escalated sd \<longrightarrow> escalated sd'))"

lemma sd_forward_refl [simp]: "sd_forward x x" by (cases x) auto

lemma sd_forward_trans: "sd_forward x y \<Longrightarrow> sd_forward y z \<Longrightarrow> sd_forward x z"
  by (cases x; cases y; cases z) auto

text \<open>
  The first signal is kept, a shutdown that has begun is not begun again and an escalated one stays
  so, the end of the first child is remembered, and the exit status changes only together with one
  of these.
\<close>

definition forward :: "'k tracer \<Rightarrow> 'k tracer \<Rightarrow> bool" where
  "forward st st' \<longleftrightarrow>
     (t_signal st \<noteq> 0 \<longrightarrow> t_signal st' = t_signal st) \<and>
     sd_forward (t_shutdown st) (t_shutdown st') \<and>
     (t_main_exited st \<longrightarrow> t_main_exited st') \<and>
     (t_exit st' = t_exit st \<or> t_shutdown st = None \<and> t_shutdown st' \<noteq> None \<or> t_main_exited st')"

lemma signal_fold: "t_signal st \<noteq> 0 \<Longrightarrow> t_signal (fold handle_shutdown_signal sigs st) = t_signal st"
proof (induction sigs arbitrary: st)
  case (Cons s sigs)
  then have "t_signal (handle_shutdown_signal s st) = t_signal st"
    by (simp add: handle_shutdown_signal_def Let_def)
  then show ?case using Cons by simp
qed simp

lemma deliver_signal: "t_signal st \<noteq> 0 \<Longrightarrow> t_signal (deliver_signals os st) = t_signal st"
  by (auto simp: deliver_signals_def signal_fold split: prod.splits)

interpretation fwd: step_relation os cfg forward for os :: "'k os" and cfg
proof unfold_locales
  fix st st' st'' :: "'k tracer"
  assume "forward st st'" and "forward st' st''"
  then show "forward st st''"
    unfolding forward_def
    by (cases "t_shutdown st"; cases "t_shutdown st'"; cases "t_shutdown st''") auto
qed (auto simp: forward_def deliver_signal t_shutdown_deliver deliver_keeps put_ctx_def
    cleanup_dead_tracee_def)

section \<open>Events are used up\<close>

lemma events_relation:
  assumes "finite_events os left"
  shows "step_relation os cfg (\<lambda>st st'. left (t_kern st') \<le> left (t_kern st))"
proof -
  have steps: "left k' \<le> left k" if "os_steps os k k'" for k k'
    using assms that by (rule finite_events_steps)
  have step: "left k' \<le> left k" if "os_step os k k'" for k k'
    using steps that by blast
  have deliver: "t_kern (deliver_signals os st) = snd (delivered_signals os (t_kern st))" for st
    by (auto simp: deliver_signals_def handle_shutdown_signal_def Let_def fold_keeps [of t_kern]
        split: prod.splits)
  have enter: "left (kern h) \<le> left (t_kern st)"
    if "handle_syscall_enter os cfg pid regs (thread_ctx pid st) = (r, h)" for pid regs st r h
    using steps [OF enter_steps [of os "thread_ctx pid st" cfg pid regs]] that by simp
  have stop: "left (kern h) \<le> left (t_kern st)"
    if "handle_syscall_ptrace os cfg pid (thread_ctx pid st) = (r, h)" for pid st r h
    using steps [OF ptrace_stop_steps [of os "thread_ctx pid st" cfg pid]] that by simp
  show ?thesis
    by unfold_locales (auto simp: deliver put_ctx_def cleanup_dead_tracee_def step os_step.signals
        finite_events_nohang [OF assms] dest: enter stop)
qed

section \<open>Without signals\<close>

definition no_signals :: "'k os \<Rightarrow> bool" where
  "no_signals os \<longleftrightarrow> (\<forall>k. fst (delivered_signals os k) = [])"

lemma quiet_relation:
  assumes "no_signals os"
  shows "task_relation os cfg
    (\<lambda>st st'. t_signal st = 0 \<longrightarrow> t_signal st' = 0 \<and> t_exit st' = t_exit st)"
proof -
  have "t_signal (deliver_signals os st) = t_signal st" for st
    using assms by (auto simp: deliver_signals_def no_signals_def split: prod.splits)
      (metis fold_simps(1) fst_conv select_convs(9) surjective update_convs(1))
  then show ?thesis
    by unfold_locales (auto simp: deliver_keeps put_ctx_def cleanup_dead_tracee_def)
qed

section \<open>Runs of the loop\<close>

text \<open>A complete run with the reports of \<open>waitpid\<close> it consumed.\<close>

inductive loop_run ::
  "'k os \<Rightarrow> trace_config \<Rightarrow> 'k tracer \<Rightarrow> (errno + wait_status) list \<Rightarrow> error + i32 \<Rightarrow> 'k tracer \<Rightarrow> bool"
  for os cfg where
  drained: "prune_gone_tracees os st = st' \<Longrightarrow> t_active st' = {} \<Longrightarrow>
    loop_run os cfg st [] (Inr (t_exit st')) st'"
| last: "prune_gone_tracees os st = st1 \<Longrightarrow> t_active st1 \<noteq> {} \<Longrightarrow>
    update_shutdown_state os cfg st1 = st2 \<Longrightarrow> wait_for_tracee os (t_kern st2) = Some (w, k) \<Longrightarrow>
    on_wait os cfg w (st2\<lparr>t_kern := k\<rparr>) = Break st' \<Longrightarrow> loop_run os cfg st [w] (Inr (t_exit st')) st'"
| failed: "prune_gone_tracees os st = st1 \<Longrightarrow> t_active st1 \<noteq> {} \<Longrightarrow>
    update_shutdown_state os cfg st1 = st2 \<Longrightarrow> wait_for_tracee os (t_kern st2) = Some (w, k) \<Longrightarrow>
    on_wait os cfg w (st2\<lparr>t_kern := k\<rparr>) = Fail e st' \<Longrightarrow> loop_run os cfg st [w] (Inl e) st'"
| again: "prune_gone_tracees os st = st1 \<Longrightarrow> t_active st1 \<noteq> {} \<Longrightarrow>
    update_shutdown_state os cfg st1 = st2 \<Longrightarrow> wait_for_tracee os (t_kern st2) = Some (w, k) \<Longrightarrow>
    on_wait os cfg w (st2\<lparr>t_kern := k\<rparr>) = Continue st3 \<Longrightarrow> loop_run os cfg st3 ws r st' \<Longrightarrow>
    loop_run os cfg st (w # ws) r st'"

inductive_cases loop_run_NilE: "loop_run os cfg st [] r st'"
inductive_cases loop_run_ConsE: "loop_run os cfg st (w # ws) r st'"

lemma loop_run_step:
  assumes "loop_step os cfg st = out"
  shows "(case out of Continue st1 \<Rightarrow> loop_run os cfg st1 ws r st' \<longrightarrow> (\<exists>w. loop_run os cfg st (w # ws) r st')
    | Break st1 \<Rightarrow> \<exists>ws. loop_run os cfg st ws (Inr (t_exit st1)) st1
    | Fail e st1 \<Rightarrow> \<exists>ws. loop_run os cfg st ws (Inl e) st1
    | Hang st1 \<Rightarrow> True)"
proof -
  define st1 where "st1 = prune_gone_tracees os st"
  define st2 where "st2 = update_shutdown_state os cfg st1"
  have out: "out = (if t_active st1 = {} then Break st1
      else case wait_for_tracee os (t_kern st2) of None \<Rightarrow> Hang st2
        | Some (w, k) \<Rightarrow> on_wait os cfg w (st2\<lparr>t_kern := k\<rparr>))"
    using assms unfolding loop_step_def Let_def st1_def [symmetric] st2_def [symmetric] by simp
  consider "t_active st1 = {}" | "t_active st1 \<noteq> {}" "wait_for_tracee os (t_kern st2) = None"
    | w k where "t_active st1 \<noteq> {}" "wait_for_tracee os (t_kern st2) = Some (w, k)" by fastforce
  then show ?thesis
  proof cases
    case 1
    then show ?thesis using loop_run.drained [OF st1_def [symmetric]] by (auto simp: out)
  next
    case 2
    then show ?thesis by (simp add: out)
  next
    case 3
    note False = 3(1) and w = 3(2)
    note rules = loop_run.last [OF st1_def [symmetric] False st2_def [symmetric] w]
      loop_run.failed [OF st1_def [symmetric] False st2_def [symmetric] w]
      loop_run.again [OF st1_def [symmetric] False st2_def [symmetric] w]
    have "on_wait os cfg w (st2\<lparr>t_kern := k\<rparr>) = out" using 3 by (simp add: out)
    then show ?thesis using rules by (cases out; simp; blast)
  qed
qed

lemma run_loop_sound:
  assumes "run_loop os cfg st = Some out"
  shows "\<exists>ws. loop_run os cfg st ws (fst out) (snd out)"
proof (rule run_loop.raw_induct [where P = "\<lambda>os cfg st out. \<exists>ws. loop_run os cfg st ws (fst out) (snd out)",
      OF _ assms])
  fix rl os cfg st and out :: "(error + i32) \<times> 'a tracer"
  assume IH: "\<And>os cfg st out. rl os cfg st = Some out \<Longrightarrow> \<exists>ws. loop_run os cfg st ws (fst out) (snd out)"
    and eq: "(case loop_step os cfg st of Continue st1 \<Rightarrow> rl os cfg st1
      | Break st1 \<Rightarrow> Some (Inr (t_exit st1), st1) | Fail e st1 \<Rightarrow> Some (Inl e, st1)
      | Hang st1 \<Rightarrow> None) = Some out"
  show "\<exists>ws. loop_run os cfg st ws (fst out) (snd out)"
  proof (cases "loop_step os cfg st")
    case (Continue st1)
    then obtain ws where "loop_run os cfg st1 ws (fst out) (snd out)"
      using IH [of os cfg st1 out] eq by auto
    then show ?thesis using loop_run_step [OF Continue, of ws "fst out" "snd out"] by auto
  qed (use eq loop_run_step [of os cfg st, OF refl] in auto)
qed

lemma loop_run_complete: "loop_run os cfg st ws r st' \<Longrightarrow> run_loop os cfg st = Some (r, st')"
  by (induction rule: loop_run.induct) (subst run_loop.simps, simp add: loop_step_def Let_def)+

text \<open>The exit status after a report.\<close>

fun exit_after :: "trace_config \<Rightarrow> errno + wait_status \<Rightarrow> i32 \<Rightarrow> i32" where
  "exit_after cfg (Inr (Exited pid code)) c = (if pid = tc_child cfg then code else c)"
| "exit_after cfg (Inr (Signaled pid sig core)) c = (if pid = tc_child cfg then 128 + sig else c)"
| "exit_after cfg _ c = c"

lemma exit_after_gone:
  "is_gone w \<Longrightarrow> t_exit (outcome_state (on_wait os cfg w st)) = exit_after cfg w (t_exit st) \<and>
     t_signal (outcome_state (on_wait os cfg w st)) = t_signal st"
  by (cases w rule: is_gone.cases) (auto simp: on_gone_def cleanup_dead_tracee_def Let_def)

lemma quiet_pass:
  assumes "no_signals os" and "t_signal st = 0"
  shows "t_signal (update_shutdown_state os cfg (prune_gone_tracees os st)) = 0 \<and>
    t_exit (update_shutdown_state os cfg (prune_gone_tracees os st)) = t_exit st"
    and "t_signal (outcome_state (on_wait os cfg w st)) = 0 \<and>
    t_exit (outcome_state (on_wait os cfg w st)) = exit_after cfg w (t_exit st)"
proof -
  note rel = quiet_relation [OF assms(1), of cfg]
  show "t_signal (update_shutdown_state os cfg (prune_gone_tracees os st)) = 0 \<and>
      t_exit (update_shutdown_state os cfg (prune_gone_tracees os st)) = t_exit st"
    using call_relation.before_wait [OF task_relation.call_axioms [OF rel]] assms(2) by blast
  show "t_signal (outcome_state (on_wait os cfg w st)) = 0 \<and>
      t_exit (outcome_state (on_wait os cfg w st)) = exit_after cfg w (t_exit st)"
  proof (cases "is_gone w")
    case True
    then show ?thesis using exit_after_gone [of w os cfg st] assms(2) by simp
  next
    case False
    then have "exit_after cfg w c = c" for c by (cases w rule: is_gone.cases) auto
    then show ?thesis using task_relation.waited_task [OF rel False, of st] assms(2) by simp
  qed
qed

text \<open>The states the tracer is in from its start on.\<close>

inductive reached :: "'k os \<Rightarrow> 'k \<Rightarrow> tracker \<Rightarrow> trace_config \<Rightarrow> 'k tracer \<Rightarrow> bool"
  for os k t cfg where
  launch: "install_shutdown_handlers os (tracer_start k t cfg) = (Inr (), st) \<Longrightarrow> reached os k t cfg st"
| pass: "reached os k t cfg st \<Longrightarrow> reached os k t cfg (outcome_state (loop_step os cfg st))"

lemma loop_inv_kern [simp]: "loop_inv cfg (st\<lparr>t_kern := k\<rparr>) = loop_inv cfg st"
  by (simp add: loop_inv_def)

lemma loop_step_inv: "loop_inv cfg st \<Longrightarrow> loop_inv cfg (outcome_state (loop_step os cfg st))"
  using inv.prune [of cfg st os] inv.before_wait [of cfg st os]
  by (auto simp: loop_step_def Let_def inv.waited split: prod.splits option.splits)

lemma install_keeps:
  assumes "install_shutdown_handlers os st = (r, st')"
  shows "t_active st' = t_active st" "t_threads st' = t_threads st" "t_trk st' = t_trk st"
    "t_exit st' = t_exit st" "r = Inr () \<Longrightarrow> t_signal st' = 0"
  using assms
  by (auto simp: install_shutdown_handlers_def deliver_keeps split: prod.splits sum.splits)

lemma reached_inv:
  assumes "reached os k t cfg st" and "tracer_run D t" and "D \<subseteq> intercepted cfg"
  shows "loop_inv cfg st"
  using assms
proof (induction rule: reached.induct)
  case (launch st)
  then show ?case using install_keeps [OF launch(1)] by (auto simp: loop_inv_def tracer_start_def)
qed (rule loop_step_inv)

lemma loop_step_events:
  assumes fin: "finite_events os left" and "loop_step os cfg st = Continue st'"
  shows "left (t_kern st') < left (t_kern st)"
proof -
  note rel = events_relation [OF fin, of cfg]
  let ?st2 = "update_shutdown_state os cfg (prune_gone_tracees os st)"
  obtain w k where w: "wait_for_tracee os (t_kern ?st2) = Some (w, k)"
    and st': "on_wait os cfg w (?st2\<lparr>t_kern := k\<rparr>) = Continue st'"
    using assms(2) by (auto simp: loop_step_def Let_def split: if_splits option.splits)
  then have "w \<noteq> Inl ECHILD" by (auto simp: on_wait_error_def errno_defs)
  then have "left k < left (t_kern ?st2)" by (rule finite_events_wait [OF fin w])
  moreover have "left (t_kern ?st2) \<le> left (t_kern st)"
    using task_relation.call_axioms [OF step_relation.axioms(1) [OF rel]] by (rule call_relation.before_wait)
  moreover have "left (t_kern st') \<le> left k"
    using step_relation.waited [OF rel, of w "?st2\<lparr>t_kern := k\<rparr>"] st' by simp
  ultimately show ?thesis by simp
qed

text \<open>The states between the passes of the loop; in none of them does the next \<open>waitpid\<close> block for ever.\<close>

inductive in_loop :: "'k os \<Rightarrow> 'k \<Rightarrow> tracker \<Rightarrow> trace_config \<Rightarrow> 'k tracer \<Rightarrow> bool"
  for os k t cfg where
  started: "install_shutdown_handlers os (tracer_start k t cfg) = (Inr (), st) \<Longrightarrow> in_loop os k t cfg st"
| passed: "in_loop os k t cfg st \<Longrightarrow> loop_step os cfg st = Continue st' \<Longrightarrow> in_loop os k t cfg st'"

definition never_stuck :: "'k os \<Rightarrow> 'k \<Rightarrow> tracker \<Rightarrow> trace_config \<Rightarrow> bool" where
  "never_stuck os k t cfg \<longleftrightarrow> (\<forall>st st'. in_loop os k t cfg st \<longrightarrow> loop_step os cfg st \<noteq> Hang st')"

lemma loop_ends:
  assumes "finite_events os left" and "never_stuck os k t cfg"
  shows "in_loop os k t cfg st \<Longrightarrow> \<exists>out. run_loop os cfg st = Some out"
proof (induction "left (t_kern st)" arbitrary: st rule: less_induct)
  case less
  show ?case
  proof (cases "loop_step os cfg st")
    case (Continue st')
    then show ?thesis
      using less.hyps [OF loop_step_events [OF assms(1) Continue] in_loop.passed [OF less.prems Continue]]
      by (subst run_loop.simps) simp
  next
    case (Hang st')
    then show ?thesis using assms(2) less.prems by (simp add: never_stuck_def)
  qed (subst run_loop.simps, simp)+
qed

lemma run_tracer_ends:
  assumes "finite_events os left" and "never_stuck os k t cfg"
  shows "\<exists>out. run_tracer os k t cfg = Some out"
  using loop_ends [OF assms] by (auto simp: run_tracer_def in_loop.started split: prod.splits sum.splits)

lemma loop_run_end:
  "loop_run os cfg st ws r st' \<Longrightarrow> r = Inr c \<Longrightarrow>
     c = t_exit st' \<and> (t_active st' = {} \<or> (\<exists>us. ws = us @ [Inl ECHILD]))"
proof (induction rule: loop_run.induct)
  case (last st st1 st2 w k st')
  then show ?case
    by (cases w rule: is_gone.cases)
      (auto simp: on_gone_def on_ptrace_event_def on_seccomp_event_def on_syscall_stop_def on_sigstop_def
        on_signal_stop_def on_other_status_def on_wait_error_def on_interrupted_def on_invalid_def
        resume_or_fail_def Let_def split: if_splits sum.splits prod.splits)
next
  case (again st st1 st2 w k st3 ws r st')
  then show ?case by (metis append_Cons)
qed auto

lemma quiet_exit:
  assumes quiet: "no_signals os"
  shows "loop_run os cfg st ws r st' \<Longrightarrow> t_signal st = 0 \<Longrightarrow> r = Inr c \<Longrightarrow>
    c = fold (exit_after cfg) ws (t_exit st)"
proof (induction rule: loop_run.induct)
  case (drained st st')
  then show ?case
    using call_relation.prune [OF task_relation.call_axioms [OF quiet_relation [OF quiet]]] by (metis fold_simps(1) sum.inject(2) id_apply)
next
  case (last st st1 st2 w k st')
  note q = quiet_pass(1) [OF quiet last.prems(1), of cfg]
    quiet_pass(2) [OF quiet, of "st2\<lparr>t_kern := k\<rparr>" cfg w]
  show ?case using q last by simp
next
  case (again st st1 st2 w k st3 ws r st')
  note q = quiet_pass(1) [OF quiet again.prems(1), of cfg]
    quiet_pass(2) [OF quiet, of "st2\<lparr>t_kern := k\<rparr>" cfg w]
  show ?case using q again by simp
qed auto

text \<open>Nothing that is done after \<open>EINVAL\<close> sets the exit status.\<close>

lemma poll_exit: "t_exit (poll_tracee os pid st) = t_exit st"
  by (auto simp: poll_tracee_def cleanup_dead_tracee_def Let_def split: prod.splits sum.splits wait_status.splits)

lemma invalid_exit: "t_exit (outcome_state (on_invalid os st)) = t_exit st"
proof -
  have "t_exit (cleanup_dead_tracee os pid s) = t_exit s" for pid and s :: "'a tracer"
    by (simp add: cleanup_dead_tracee_def)
  then have "t_exit (prune_gone_tracees os s) = t_exit s" "t_exit (kill_active_tracees os s) = t_exit s"
    "t_exit (poll_known_tracees os s) = t_exit s" for s :: "'a tracer"
    by (simp_all add: prune_gone_tracees_def kill_active_tracees_def poll_known_tracees_def fold_keeps [of t_exit]
        poll_exit kill_tracee_def resume_or_drop_def Let_def split: sum.splits)
  then show ?thesis by (simp add: on_invalid_def Let_def)
qed

lemma fold_cleanup:
  "t_active (fold (cleanup_dead_tracee os) pids st) = t_active st - set pids"
  "t_threads (fold (cleanup_dead_tracee os) pids st) = (t_threads st) |` (- set pids)"
  "t_kern (fold (cleanup_dead_tracee os) pids st) = t_kern st"
  by (induction pids arbitrary: st)
    (auto simp: cleanup_dead_tracee_def restrict_map_def fun_eq_iff)

text \<open>What is sent to the process group and to every active task, each task once.\<close>

definition sends_to_all ::
  "('k \<Rightarrow> sent list) \<Rightarrow> trace_config \<Rightarrow> signal \<Rightarrow> 'k tracer \<Rightarrow> 'k tracer \<Rightarrow> bool" where
  "sends_to_all log cfg sig st st' \<longleftrightarrow>
     (\<exists>pids. set pids = t_active st \<and> distinct pids \<and>
        log (t_kern st') = log (t_kern st) @ To_Group (tc_child cfg) sig # map (\<lambda>pid. To_Task pid sig) pids)"

lemma singleton_list: "set xs = {x} \<Longrightarrow> distinct xs \<Longrightarrow> xs = [x]"
  by (cases xs; cases "tl xs") auto

lemma deliver_kern: "t_kern (deliver_signals os st) = snd (delivered_signals os (t_kern st))"
  by (auto simp: deliver_signals_def handle_shutdown_signal_def Let_def fold_keeps [of t_kern]
      split: prod.splits)

lemma deliver_log: "logs_signals os log \<Longrightarrow> log (t_kern (deliver_signals os st)) = log (t_kern st)"
  by (auto simp: deliver_signals_def handle_shutdown_signal_def Let_def fold_keeps [of t_kern]
      logs_signals_def split: prod.splits) (metis snd_conv)

lemma resume_or_drop_kern [simp]: "t_kern (resume_or_drop os pid rk st) = snd rk"
  by (simp add: resume_or_drop_def cleanup_dead_tracee_def Let_def split: sum.splits)

lemma fold_log:
  assumes "\<And>pid st. log (t_kern (f pid st)) = log (t_kern st) @ [g pid]"
  shows "log (t_kern (fold f pids st)) = log (t_kern st) @ map g pids"
  using assms by (induction pids arbitrary: st) simp_all

lemma refused_fold:
  assumes "\<And>k pid sig. os_steps os k0 k \<Longrightarrow> pid \<in> A \<Longrightarrow>
      fst (ptrace_cont os k pid sig) = Inl ESRCH \<and> fst (ptrace_syscall os k pid sig) = Inl ESRCH"
  shows "os_steps os k0 (t_kern st) \<Longrightarrow> set pids \<subseteq> A \<Longrightarrow>
    t_active (fold (terminate_tracee os use sig) pids st) = t_active st - set pids"
proof (induction pids arbitrary: st)
  case (Cons pid pids)
  let ?st = "terminate_tracee os use sig pid st" and ?k = "sys_kill os (t_kern st) pid sig"
  have k: "os_steps os k0 ?k"
    using Cons.prems(1) os_step.kill by (rule rtranclp.rtrancl_into_rtrancl)
  have "os_steps os k0 (t_kern ?st)"
    using rtranclp.rtrancl_into_rtrancl [OF k os_step.cont] rtranclp.rtrancl_into_rtrancl [OF k os_step.syscall]
    by (simp add: terminate_tracee_def Let_def)
  moreover have "t_active ?st = t_active st - {pid}"
    using assms [OF k, of pid] Cons.prems(2)
    by (simp add: terminate_tracee_def resume_or_drop_def is_esrch_nix_def cleanup_dead_tracee_def Let_def)
  ultimately show ?case using Cons.IH [of ?st] Cons.prems(2) by auto
qed simp

lemma begin_sends:
  assumes log: "logs_signals os log" and ord: "hash_order_ok os" and "finite (t_active st)"
  shows "sends_to_all log cfg SIGTERM st (begin_shutdown os cfg st)"
proof -
  let ?st = "st\<lparr>t_kern := sys_killpg os (t_kern st) (tc_child cfg) SIGTERM\<rparr>"
  have "log (t_kern (terminate_tracee os use SIGTERM pid st)) = log (t_kern st) @ [To_Task pid SIGTERM]"
    for use pid st using log by (simp add: terminate_tracee_def Let_def logs_signals_def)
  from fold_log [where f = "terminate_tracee os (tc_seccomp cfg) SIGTERM", OF this]
  have "log (t_kern (begin_shutdown os cfg st)) =
      log (t_kern st) @ To_Group (tc_child cfg) SIGTERM # map (\<lambda>pid. To_Task pid SIGTERM) (active_list os ?st)"
    using log by (simp add: begin_shutdown_def terminate_active_tracees_def logs_signals_def)
  moreover have "set (active_list os ?st) = t_active st" "distinct (active_list os ?st)"
    using hash_orderD [OF ord] assms(3) by (simp_all add: active_list_def)
  ultimately show ?thesis unfolding sends_to_all_def by blast
qed

lemma escalate_sends:
  assumes log: "logs_signals os log" and ord: "hash_order_ok os" and "finite (t_active st)"
  shows "sends_to_all log cfg SIGKILL st (escalate_shutdown os cfg st)"
proof -
  let ?st = "st\<lparr>t_kern := sys_killpg os (t_kern st) (tc_child cfg) SIGKILL\<rparr>"
  have "log (t_kern (kill_tracee os pid st)) = log (t_kern st) @ [To_Task pid SIGKILL]" for pid st
    using log by (simp add: kill_tracee_def Let_def logs_signals_def)
  from fold_log [where f = "kill_tracee os", OF this]
  have "log (t_kern (escalate_shutdown os cfg st)) =
      log (t_kern st) @ To_Group (tc_child cfg) SIGKILL # map (\<lambda>pid. To_Task pid SIGKILL) (active_list os ?st)"
    using log by (simp add: escalate_shutdown_def kill_active_tracees_def logs_signals_def)
  moreover have "set (active_list os ?st) = t_active st" "distinct (active_list os ?st)"
    using hash_orderD [OF ord] assms(3) by (simp_all add: active_list_def)
  ultimately show ?thesis unfolding sends_to_all_def by blast
qed

section \<open>Properties\<close>

text \<open>
  C8. From its start with the empty table on, and whatever the kernel reports, the tracer keeps:
  finitely many active tasks; thread states for active tasks only; nothing to restore or to force
  for a thread between calls; a table produced by the tracer's own operations, hence consistent;
  and no destination in that table that the policy does not intercept. So the local proxy, whose
  lookups return destinations of this table, never asks the upstream proxy for a loopback or
  unspecified address, port 0, a destination under a no-proxy rule, an IPv6 destination when IPv6
  is disabled, or the upstream proxy itself.
\<close>

theorem trace_loop_invariant:
  assumes "reached os k tracker_new cfg st"
  shows "finite (t_active st) \<and> dom (t_threads st) \<subseteq> t_active st \<and>
    (\<forall>s \<in> ran (t_threads st). thread_inv s) \<and> tracker_inv (t_trk st) \<and>
    (\<forall>dest \<in> known_dests (t_trk st). connect_policy cfg dest True = Intercept)"
proof -
  from reached_inv [OF assms tracer_run.start] have inv: "loop_inv cfg st" by simp
  then obtain D where "D \<subseteq> intercepted cfg" and run: "tracer_run D (t_trk st)"
    using loop_inv_run by blast
  then have "\<forall>dest \<in> known_dests (t_trk st). connect_policy cfg dest True = Intercept"
    using tracer_run_dests [OF run] by (auto simp: intercepted_def)
  with inv tracer_run_inv [OF run] show ?thesis by (simp add: loop_inv_def)
qed

definition sample_launched :: "sample_kernel tracer" where
  "sample_launched = snd (install_shutdown_handlers sample_os (tracer_start sample_state tracker_new sample_cfg))"

lemma sample_launch: "reached sample_os sample_state tracker_new sample_cfg sample_launched"
  by (rule reached.launch)
    (simp add: sample_launched_def install_shutdown_handlers_def sample_os_def split: prod.splits)

theorem trace_loop_invariant_witness:
  "tracker_inv (t_trk (outcome_state (loop_step sample_os sample_cfg sample_launched)))"
  using trace_loop_invariant [OF reached.pass [OF sample_launch]] by simp

text \<open>
  C9. When the traced programs produce finitely many events and \<open>waitpid\<close> does not block
  for ever in a pass of the loop, the tracer returns, whatever else the kernel answers; and when it
  returns an exit status, every task it knew is gone or the last report of \<open>waitpid\<close> was
  that there is no child left.
\<close>

theorem run_tracer_returns:
  assumes fin: "finite_events os left" and awake: "never_stuck os k t cfg"
  shows "\<exists>r st. run_tracer os k t cfg = Some (r, st) \<and>
    (\<forall>c. r = Inr c \<longrightarrow>
       c = t_exit st \<and>
       (t_active st = {} \<or> (\<exists>st0 ws. loop_run os cfg st0 (ws @ [Inl ECHILD]) (Inr c) st)))"
proof -
  obtain r st where i: "install_shutdown_handlers os (tracer_start k t cfg) = (r, st)" by fastforce
  show ?thesis
  proof (cases r)
    case (Inl e)
    then show ?thesis using i by (simp add: run_tracer_def)
  next
    case (Inr u)
    obtain out where out: "run_loop os cfg st = Some out"
      using loop_ends [OF assms in_loop.started] i Inr by auto
    then obtain ws where run: "loop_run os cfg st ws (fst out) (snd out)" using run_loop_sound by blast
    have "c = t_exit (snd out) \<and>
        (t_active (snd out) = {} \<or> (\<exists>st0 ws. loop_run os cfg st0 (ws @ [Inl ECHILD]) (Inr c) (snd out)))"
      if "fst out = Inr c" for c
      using loop_run_end [OF run that] run that by metis
    then show ?thesis
      using i Inr out by (intro exI [of _ "fst out"] exI [of _ "snd out"]) (simp add: run_tracer_def)
  qed
qed

lemma resume_no_hang: "resume_or_fail os cfg pid sig st \<noteq> Hang st'"
  by (simp add: resume_or_fail_def split: prod.splits sum.splits)

lemma seccomp_no_hang: "on_seccomp_event os cfg pid st \<noteq> Hang st'"
  by (simp add: on_seccomp_event_def resume_no_hang Let_def split: sum.splits prod.splits)

lemma event_no_hang: "on_ptrace_event os cfg pid event st \<noteq> Hang st'"
  by (simp add: on_ptrace_event_def resume_no_hang seccomp_no_hang Let_def split: sum.splits)

lemma stop_no_hang:
  "on_syscall_stop os cfg pid st \<noteq> Hang st'" "on_sigstop os cfg pid st \<noteq> Hang st'"
  "on_signal_stop os cfg pid sig st \<noteq> Hang st'"
  by (simp_all add: on_syscall_stop_def on_sigstop_def on_signal_stop_def resume_no_hang Let_def
      split: sum.splits prod.splits)

lemma status_no_hang:
  "on_gone os cfg pid code st \<noteq> Hang st'" "on_other_status os cfg st \<noteq> Hang st'"
  "on_wait_error os cfg e st \<noteq> Hang st'"
  by (simp_all add: on_gone_def on_other_status_def on_wait_error_def on_interrupted_def on_invalid_def Let_def)

lemma wait_no_hang: "on_wait os cfg w st \<noteq> Hang st'"
  by (cases "(os, cfg, w, st)" rule: on_wait.cases)
    (simp_all add: resume_no_hang event_no_hang stop_no_hang status_no_hang)

lemma loop_step_Hang:
  assumes "loop_step os cfg st = Hang st'"
  shows "st' = update_shutdown_state os cfg (prune_gone_tracees os st)" and "wait_for_tracee os (t_kern st') = None"
  using assms by (auto simp: loop_step_def wait_no_hang Let_def split: if_splits option.splits)

lemma sample_never_stuck: "never_stuck sample_os k t cfg"
  by (auto simp: never_stuck_def dest: loop_step_Hang(2))

theorem run_tracer_returns_witness:
  "\<exists>r st. run_tracer sample_os sample_state tracker_new sample_cfg = Some (r, st)"
  using run_tracer_returns [OF sample_events sample_never_stuck] by blast

text \<open>
  C15. When no shutdown signal arrives, the exit status the tracer returns is determined by what the
  blocking \<open>waitpid\<close> of the loop reported of the first child: the code it exited with,
  or 128 plus the signal that killed it; reports about other tasks do not change it, and it is 0 when
  there was none. What the polls after \<open>EINVAL\<close> report does not count: the tracer drops
  a first child whose end is found by a poll like any other task and keeps the status it has, 0,
  whatever the child ended with.
\<close>

theorem exit_status_of_first_child:
  assumes quiet: "no_signals os" and ret: "run_tracer os k t cfg = Some (Inr c, st)"
  shows "\<exists>st0 ws. install_shutdown_handlers os (tracer_start k t cfg) = (Inr (), st0) \<and>
    loop_run os cfg st0 ws (Inr c) st \<and> c = fold (exit_after cfg) ws 0 \<and>
    (\<forall>s code. fst (waitpid_nohang os (t_kern s) (tc_child cfg)) = Inr (Exited (tc_child cfg) code) \<longrightarrow>
       tc_child cfg \<notin> t_active (poll_tracee os (tc_child cfg) s) \<and>
       t_exit (poll_tracee os (tc_child cfg) s) = t_exit s) \<and>
    (\<forall>s. t_exit (outcome_state (on_wait os cfg (Inl EINVAL) s)) = t_exit s)"
proof -
  obtain r st0 where i: "install_shutdown_handlers os (tracer_start k t cfg) = (r, st0)" by fastforce
  then have r: "r = Inr ()" "run_loop os cfg st0 = Some (Inr c, st)"
    using ret by (auto simp: run_tracer_def split: sum.splits)
  obtain ws where run: "loop_run os cfg st0 ws (Inr c) st" using run_loop_sound [OF r(2)] by auto
  have "t_signal st0 = 0" "t_exit st0 = 0" using install_keeps [OF i] r(1) by (auto simp: tracer_start_def)
  then have "c = fold (exit_after cfg) ws 0" using quiet_exit [OF quiet run] by simp
  moreover have "tc_child cfg \<notin> t_active (poll_tracee os (tc_child cfg) s)"
    if "fst (waitpid_nohang os (t_kern s) (tc_child cfg)) = Inr (Exited (tc_child cfg) code)" for s code
    using that by (cases "waitpid_nohang os (t_kern s) (tc_child cfg)") (simp add: poll_tracee_def cleanup_dead_tracee_def)
  ultimately show ?thesis using i r(1) run by (auto simp: poll_exit invalid_exit on_wait_error_def errno_defs)
qed

definition quiet_os :: "sample_kernel os" where
  "quiet_os = sample_os\<lparr>delivered_signals := (\<lambda>k. ([], k))\<rparr>"

definition interrupted_tracer :: "sample_kernel tracer" where
  "interrupted_tracer =
     (tracer_start (sample_state\<lparr>sk_signals := [SIGINT]\<rparr>) tracker_new sample_cfg)"

definition exit_script :: sample_kernel where
  "exit_script = sample_state\<lparr>sk_waits := [Inr (Exited 7 3)]\<rparr>"

lemma sample_exit_run: "\<exists>st. run_tracer quiet_os exit_script tracker_new sample_cfg = Some (Inr 3, st)"
  by (simp add: run_tracer_def install_shutdown_handlers_def quiet_os_def sample_os_def wait_for_tracee_def exit_script_def
      deliver_signals_def tracer_start_def run_loop.simps loop_step_def prune_gone_tracees_def
      sample_state_def empty_fs_def update_shutdown_state_def pending_shutdown_signal_def
      shutdown_signal_of_def sample_wait_def on_gone_def cleanup_dead_tracee_def sample_cfg_def Let_def)

theorem exit_status_of_first_child_witness:
  "\<exists>st ws. run_tracer quiet_os exit_script tracker_new sample_cfg = Some (Inr 3, st) \<and>
     3 = fold (exit_after sample_cfg) ws 0"
proof -
  have quiet: "no_signals quiet_os" by (simp add: no_signals_def quiet_os_def)
  obtain st where st: "run_tracer quiet_os exit_script tracker_new sample_cfg = Some (Inr 3, st)"
    using sample_exit_run by blast
  then show ?thesis using exit_status_of_first_child [OF quiet st] by blast
qed

text \<open>
  C31. A shutdown, update by update, and what is sent. Without a signal, nothing but the delivery of
  signals happens. The first update after a signal sends \<open>SIGTERM\<close> to the process group
  and to every active task, once each, and sets the exit status to 128 plus the first signal that
  arrived. A later one sends \<open>SIGKILL\<close> to the group and to every active task exactly
  when that has not been done yet and another signal has arrived or two seconds have passed; in
  particular at most once.
\<close>

theorem shutdown_update:
  fixes os :: "'k os" and st :: "'k tracer" and cfg :: trace_config
  defines "st1 \<equiv> deliver_signals os st"
  defines "st2 \<equiv> deliver_signals os st1" and "st' \<equiv> update_shutdown_state os cfg st"
  assumes log: "logs_signals os log" and ord: "hash_order_ok os" and fin: "finite (t_active st)"
  shows "(case shutdown_signal_of (t_signal st1) of
       None \<Rightarrow> st' = st1
     | Some sig \<Rightarrow>
         (case t_shutdown st of
            None \<Rightarrow> t_exit st' = 128 + sig \<and> sends_to_all log cfg SIGTERM st st' \<and>
              (\<exists>at. t_shutdown st' = Some \<lparr>sd_signal = sig, started_at = at, escalated = False\<rparr>)
          | Some sd \<Rightarrow>
              (let kill = \<not> escalated sd \<and> (1 < t_count st2 \<or>
                 2000 \<le> clock_millis os (t_kern st2) - started_at sd)
               in t_exit st' = t_exit st \<and> t_shutdown st' = Some (sd\<lparr>escalated := escalated sd \<or> kill\<rparr>) \<and>
                  (if kill then sends_to_all log cfg SIGKILL st st'
                   else log (t_kern st') = log (t_kern st)))))"
proof -
  have exit: "t_exit (escalate_shutdown os cfg s) = t_exit s" for s :: "'k tracer"
    unfolding escalate_shutdown_def kill_active_tracees_def
    by (subst fold_keeps [of t_exit])
      (simp_all add: kill_tracee_def resume_or_drop_def cleanup_dead_tracee_def Let_def split: sum.splits)
  note upd = update_shutdown_state_def pending_shutdown_signal_def
  have fins: "finite (t_active st1)" "finite (t_active st2)"
    using fin by (simp_all add: st1_def st2_def deliver_keeps)
  have logs: "log (t_kern st1) = log (t_kern st)" "log (t_kern st2) = log (t_kern st)"
    by (simp_all add: st1_def st2_def deliver_log [OF log])
  have act: "t_active st1 = t_active st" "t_active st2 = t_active st" "t_shutdown st1 = t_shutdown st"
    "t_exit st2 = t_exit st" "t_exit st1 = t_exit st" "t_shutdown st2 = t_shutdown st"
    by (simp_all add: st1_def st2_def deliver_keeps t_shutdown_deliver)
  show ?thesis
  proof (cases "shutdown_signal_of (t_signal st1)")
    case None
    then show ?thesis by (simp add: st'_def upd Let_def flip: st1_def)
  next
    case sig: (Some sig)
    show ?thesis
    proof (cases "t_shutdown st")
      case None
      then show ?thesis
        using sig begin_sends [OF log ord fins(1), of cfg]
        by (simp add: st'_def upd Let_def act sends_to_all_def logs flip: st1_def)
    next
      case (Some sd)
      then show ?thesis
        using sig escalate_sends [OF log ord fins(2), of cfg]
        by (cases "escalated sd") (auto simp: st'_def upd Let_def act sends_to_all_def logs exit simp flip: st1_def st2_def)
    qed
  qed
qed

theorem shutdown_update_witness:
  "sk_sent (t_kern (update_shutdown_state sample_os sample_cfg interrupted_tracer)) =
     [To_Group 7 SIGTERM, To_Task 7 SIGTERM]"
proof -
  have "shutdown_signal_of (t_signal (deliver_signals sample_os interrupted_tracer)) = Some 2"
    by (simp add: deliver_signals_def sample_os_def interrupted_tracer_def tracer_start_def
        handle_shutdown_signal_def shutdown_signal_of_def signal_defs)
  then have "sends_to_all sk_sent sample_cfg SIGTERM interrupted_tracer
      (update_shutdown_state sample_os sample_cfg interrupted_tracer)"
    using shutdown_update [OF sample_logs sample_hash_order, of interrupted_tracer sample_cfg]
    by (simp add: interrupted_tracer_def tracer_start_def)
  then show ?thesis
    by (auto simp: sends_to_all_def interrupted_tracer_def tracer_start_def sample_cfg_def sample_state_def
        dest!: singleton_list)
qed

text \<open>
  Dropping vanished tasks: the active set afterwards is exactly the tasks that still have an
  entry in the proc file system, and thread states are kept for these alone.
\<close>

lemma prune_gone_exact:
  assumes "hash_order_ok os" and "loop_inv cfg st"
  shows "t_active (prune_gone_tracees os st) =
      {pid \<in> t_active st. process_exists (proc_view os (t_kern st)) pid} \<and>
    (\<forall>pid. t_threads (prune_gone_tracees os st) pid =
      (if process_exists (proc_view os (t_kern st)) pid then t_threads st pid else None))"
proof -
  have "finite (t_active st)" and dom: "dom (t_threads st) \<subseteq> t_active st"
    using assms(2) by (auto simp: loop_inv_def)
  then have "set (active_list os st) = t_active st"
    using hash_orderD(1) [OF assms(1)] by (simp add: active_list_def)
  then show ?thesis
    using dom by (auto simp: prune_gone_tracees_def Let_def fold_cleanup process_exists_def restrict_map_def)
qed

text \<open>
  C35. A task that vanishes while it is stopped at a system call (\<open>PTRACE_GETREGS\<close>
  answers \<open>ESRCH\<close>) is dropped and tracing goes on when the stop was a
  \<open>PTRACE_SYSCALL\<close> stop; when it was a seccomp stop, the tracer returns the error and
  with that abandons every other task.
\<close>

theorem vanished_at_stop:
  assumes "ptrace_getregs os (t_kern st) pid = Inl ESRCH" and "pid \<in> t_active st"
  shows "\<exists>st1 st2. on_wait os cfg (Inr (PtraceSyscall pid)) st = Continue st1 \<and>
      t_active st1 = t_active st - {pid} \<and> t_threads st1 = (t_threads st)(pid := None) \<and>
    on_wait os cfg (Inr (PtraceEvent pid sig PTRACE_EVENT_SECCOMP)) st = Fail (Io (Os_Error ESRCH)) st2 \<and>
      t_active st2 = t_active st"
  using assms
  by (auto simp: on_syscall_stop_def on_ptrace_event_def on_seccomp_event_def handle_syscall_ptrace_def
      get_regs_def thread_ctx_def put_ctx_def cleanup_dead_tracee_def is_esrch_io_def Let_def)

theorem vanished_at_stop_witness:
  "\<exists>st2. on_wait sample_os sample_cfg (Inr (PtraceEvent 7 5 PTRACE_EVENT_SECCOMP)) sample_launched =
     Fail (Io (Os_Error ESRCH)) st2"
proof -
  have "t_kern sample_launched = sample_state\<lparr>sk_signals := []\<rparr>" "t_active sample_launched = {7}"
    by (simp_all add: sample_launched_def install_shutdown_handlers_def sample_os_def tracer_start_def
        deliver_signals_def sample_state_def sample_cfg_def)
  then show ?thesis
    using vanished_at_stop [of sample_os sample_launched 7 sample_cfg 5]
    by (auto simp: sample_os_def sample_state_def ok_or_def)
qed

text \<open>
  C32. A shutdown signal that interrupts \<open>waitpid\<close> (\<open>EINTR\<close>) gives up
  running tasks. The kernel refuses \<open>PTRACE_CONT\<close> and \<open>PTRACE_SYSCALL\<close> with
  \<open>ESRCH\<close> on a task that is not stopped, which the tracer takes for a vanished one. When
  this is the case for each of its tasks as it comes to resume them, no active task is left after
  \<open>SIGTERM\<close> has been sent, the very next pass leaves the loop without waiting for any of
  them, and the tracer returns 128 plus the signal; \<open>SIGTERM\<close>, to the group and to each
  task, is all that has been sent, so the escalation to \<open>SIGKILL\<close> is never reached.
\<close>

theorem shutdown_gives_up_running:
  assumes ord: "hash_order_ok os" and log: "logs_signals os log" and inv: "loop_inv cfg st"
    and running: "\<And>k pid sig. os_steps os (t_kern st) k \<Longrightarrow> pid \<in> t_active st \<Longrightarrow>
        fst (ptrace_cont os k pid sig) = Inl ESRCH \<and> fst (ptrace_syscall os k pid sig) = Inl ESRCH"
    and left: "t_active (prune_gone_tracees os st) \<noteq> {}"
    and sig: "shutdown_signal_of (t_signal (deliver_signals os (prune_gone_tracees os st))) = Some s"
    and first: "t_shutdown st = None"
  shows "\<exists>st1. on_wait os cfg (Inl EINTR) st = Continue st1 \<and> t_active st1 = {} \<and>
    loop_step os cfg st1 = Break st1 \<and> run_loop os cfg st1 = Some (Inr (128 + s), st1) \<and>
    sends_to_all log cfg SIGTERM (prune_gone_tracees os st) st1"
proof -
  let ?p = "prune_gone_tracees os st"
  let ?st1 = "deliver_signals os ?p"
  let ?st0 = "?st1\<lparr>t_kern := sys_killpg os (t_kern ?st1) (tc_child cfg) SIGTERM\<rparr>"
  let ?u = "update_shutdown_state os cfg ?p"
  have p: "t_kern ?p = t_kern st" "t_active ?p \<subseteq> t_active st" "t_shutdown ?p = None"
    using first by (auto simp: prune_gone_tracees_def Let_def fold_cleanup fold_keeps [of t_shutdown])
  have fin: "finite (t_active ?p)" using inv p(2) finite_subset by (auto simp: loop_inv_def)
  have "os_steps os (t_kern st) (t_kern ?st0)"
    using os_step.signals [of os "t_kern st"] os_step.killpg [of os "snd (delivered_signals os (t_kern st))"]
    by (simp add: deliver_kern p(1)) (meson converse_rtranclp_into_rtranclp r_into_rtranclp)
  from refused_fold [OF running this, where pids = "active_list os ?st0"]
  have "t_active (begin_shutdown os cfg ?st1) = t_active ?p - set (active_list os ?st0)"
    using hash_orderD(1) [OF ord, of "t_active ?p"] fin p(2)
    by (simp add: begin_shutdown_def terminate_active_tracees_def active_list_def deliver_keeps)
  then have "t_active (begin_shutdown os cfg ?st1) = {}"
    using hash_orderD(1) [OF ord fin] by (simp add: active_list_def deliver_keeps)
  then have u: "t_active ?u = {}" "t_exit ?u = 128 + s"
    using sig p(3) by (simp_all add: update_shutdown_state_def pending_shutdown_signal_def t_shutdown_deliver Let_def)
  have "sends_to_all log cfg SIGTERM ?p ?u"
    using sig p(3) begin_sends [OF log ord, of ?st1 cfg] fin
    by (simp add: update_shutdown_state_def pending_shutdown_signal_def t_shutdown_deliver Let_def
        deliver_keeps sends_to_all_def deliver_log [OF log])
  moreover have "set (active_list os ?u) = {}" using hash_orderD(1) [OF ord] u(1) by (simp add: active_list_def)
  then have "prune_gone_tracees os ?u = ?u" by (simp add: prune_gone_tracees_def)
  then have "loop_step os cfg ?u = Break ?u" using u(1) by (simp add: loop_step_def)
  moreover from this have "run_loop os cfg ?u = Some (Inr (128 + s), ?u)"
    using u(2) by (subst run_loop.simps) simp
  moreover have "on_wait os cfg (Inl EINTR) st = Continue ?u"
    using left by (simp add: on_wait_error_def on_interrupted_def Let_def)
  ultimately show ?thesis using u(1) by blast
qed

definition running_os :: "sample_kernel os" where
  "running_os = sample_os\<lparr>ptrace_cont := (\<lambda>k pid sig. (Inl ESRCH, k)),
     ptrace_syscall := (\<lambda>k pid sig. (Inl ESRCH, k))\<rparr>"

theorem shutdown_gives_up_running_witness:
  "t_active interrupted_tracer = {7} \<and>
   (\<exists>st1. on_wait running_os sample_cfg (Inl EINTR) interrupted_tracer = Continue st1 \<and>
      run_loop running_os sample_cfg st1 = Some (Inr 130, st1))"
proof -
  have ord: "hash_order_ok running_os"
    using sample_hash_order by (simp add: running_os_def hash_order_ok_def)
  have log: "logs_signals running_os sk_sent" by (simp add: logs_signals_def running_os_def sample_os_def)
  have inv: "loop_inv sample_cfg interrupted_tracer"
    using tracer_run.start by (auto simp: interrupted_tracer_def tracer_start_def loop_inv_def)
  have prune: "prune_gone_tracees running_os interrupted_tracer = interrupted_tracer"
    by (simp add: prune_gone_tracees_def running_os_def sample_os_def interrupted_tracer_def tracer_start_def
        sample_state_def empty_fs_def Let_def)
  have active: "t_active interrupted_tracer = {7}"
    by (simp add: interrupted_tracer_def tracer_start_def sample_cfg_def)
  have sig: "shutdown_signal_of (t_signal (deliver_signals running_os interrupted_tracer)) = Some 2"
    by (simp add: deliver_signals_def running_os_def sample_os_def interrupted_tracer_def tracer_start_def
        handle_shutdown_signal_def shutdown_signal_of_def signal_defs)
  have first: "t_shutdown interrupted_tracer = None" by (simp add: interrupted_tracer_def tracer_start_def)
  have running: "fst (ptrace_cont running_os k pid sig) = Inl ESRCH \<and> fst (ptrace_syscall running_os k pid sig) = Inl ESRCH"
    for k pid sig by (simp add: running_os_def)
  obtain st1 where "on_wait running_os sample_cfg (Inl EINTR) interrupted_tracer = Continue st1"
    "run_loop running_os sample_cfg st1 = Some (Inr (128 + 2), st1)"
    using shutdown_gives_up_running [OF ord log inv running _ _ first, of 2] active sig
    by (auto simp: prune)
  then show ?thesis using active by auto
qed

end
