(* ===== verification/Upstream.thy ===== *)
theory Upstream
  imports Ipv6_Text Errors
begin

text \<open>
  \<open>src/proxy/config.rs\<close>, \<open>src/proxy/http.rs\<close> and
  \<open>src/proxy/socks5.rs\<close>: the upstream proxy's configuration and the two client dialogues
  that open a tunnel through it.

  The URL parser and the base64 encoder are library code and parameters (\<open>url_parse\<close>,
  \<open>b64\<close>). The TCP stream is the record \<open>tcp\<close> of calls on a state
  \<open>'s\<close>. An async function is a \<open>dialogue\<close>: a tree of awaits, each with the
  call that is waited for and what follows its result, so that a task can stand at any of them for as
  long as the call is pending. \<open>complete\<close> runs a dialogue whose awaits all complete.
  What the theorems rely on is the predicate \<open>byte_stream\<close>: bytes arrive in order,
  \<open>read_exact\<close> takes exactly the bytes asked for, \<open>read\<close> takes some first
  bytes of what is there.
\<close>

section \<open>Configuration\<close>

datatype proxy_protocol = HttpConnect | Socks5

record proxy_config =
  pc_protocol :: proxy_protocol
  pc_addr :: socket_addr
  pc_auth :: "(string \<times> string) option"

text \<open>The accessors of \<open>url::Url\<close> that the parser uses.\<close>

record url =
  url_scheme :: string
  url_host_str :: "string option"
  url_port :: "u16 option"
  url_username :: string
  url_password :: "string option"

definition parse_protocol :: "string \<Rightarrow> error + proxy_protocol" where
  "parse_protocol s =
     (if s = ''http'' then Inr HttpConnect
      else if s = ''socks'' \<or> s = ''socks5'' then Inr Socks5
      else Inl (InvalidProxyUrl (''unsupported proxy scheme: '' @ s)))"

definition proxy_config_parse :: "(string \<Rightarrow> url option) \<Rightarrow> string \<Rightarrow> error + proxy_config" where
  "proxy_config_parse url_parse raw =
     rbind (ok_or (InvalidProxyUrl raw) (url_parse raw)) (\<lambda>u.
     rbind (parse_protocol (url_scheme u)) (\<lambda>pr.
     rbind (ok_or (InvalidProxyUrl ''missing host'') (url_host_str u)) (\<lambda>host.
     rbind (ok_or (InvalidProxyUrl ''missing port'') (url_port u)) (\<lambda>p.
       (let hp = host @ '':'' @ show_nat (unat p)
        in rbind (ok_or (InvalidProxyUrl (''invalid address: '' @ hp)) (parse_socket_addr hp)) (\<lambda>sa.
             Inr \<lparr>pc_protocol = pr, pc_addr = sa,
                  pc_auth = (if url_username u = [] then None
                          else Some (url_username u, case url_password u of Some pw \<Rightarrow> pw | None \<Rightarrow> []))\<rparr>))))))"

section \<open>The stream\<close>

text \<open>
  The state \<open>'s\<close> is that of one client of the local proxy: the stream to the upstream
  proxy, on which the dialogues below run, and the accepted client stream. The relay copies between
  the two, in both directions; \<open>tcp_copy\<close> is one poll of \<open>io::copy\<close> in one
  direction, \<open>None\<close> while it is not finished.
\<close>

datatype copy_dir = ToProxy | ToClient

record 's tcp =
  tcp_connect :: "'s \<Rightarrow> socket_addr \<Rightarrow> (io_error + unit) \<times> 's"
  tcp_write_all :: "'s \<Rightarrow> u8 list \<Rightarrow> (io_error + unit) \<times> 's"
  tcp_read_exact :: "'s \<Rightarrow> nat \<Rightarrow> (io_error + u8 list) \<times> 's"
  tcp_read :: "'s \<Rightarrow> nat \<Rightarrow> (io_error + u8 list) \<times> 's"
  tcp_copy :: "'s \<Rightarrow> copy_dir \<Rightarrow> (io_error + nat) option \<times> 's"

text \<open>
  An async function with result \<open>error + unit\<close>: it has returned, or it stands at an
  await. The first argument of \<open>Await\<close> is what the completed call does to the streams,
  the second what the function does next; both depend on the state in which the call completes. The
  calls have no timeout.
\<close>

datatype 's dialogue =
    Done "error + unit"
  | Await "'s \<Rightarrow> 's" "'s \<Rightarrow> 's dialogue"

primrec complete :: "'s dialogue \<Rightarrow> 's \<Rightarrow> (error + unit) \<times> 's" where
  "complete (Done r) s = (r, s)"
| "complete (Await step next) s = complete (next s) (step s)"

text \<open>\<open>.await.map_err(Error::ProxyConnect)?\<close>, then the rest; and a nested async function with \<open>?\<close>.\<close>

definition await_pc :: "('s \<Rightarrow> (io_error + 'a) \<times> 's) \<Rightarrow> ('a \<Rightarrow> 's dialogue) \<Rightarrow> 's dialogue" where
  "await_pc call f =
     Await (\<lambda>s. snd (call s))
       (\<lambda>s. case fst (call s) of Inl e \<Rightarrow> Done (Inl (ProxyConnect e)) | Inr x \<Rightarrow> f x)"

primrec and_then :: "'s dialogue \<Rightarrow> 's dialogue \<Rightarrow> 's dialogue" where
  "and_then (Done r) q = (case r of Inl e \<Rightarrow> Done (Inl e) | Inr _ \<Rightarrow> q)"
| "and_then (Await step next) q = Await step (\<lambda>s. and_then (next s) q)"

definition as_bytes :: "string \<Rightarrow> u8 list" where
  "as_bytes s = map (\<lambda>c. of_nat (of_char c)) s"

definition of_bytes :: "u8 list \<Rightarrow> string" where
  "of_bytes bs = map (\<lambda>b. char_of (unat b)) bs"

text \<open>
  \<open>String::from_utf8_lossy\<close>: \<open>utf8_step\<close> is the length of the next sequence
  and whether it is valid; an invalid one is replaced by U+FFFD.
\<close>

definition is_cont :: "u8 \<Rightarrow> bool" where
  "is_cont b = (b AND 0xC0 = 0x80)"

definition second_ok :: "u8 \<Rightarrow> u8 \<Rightarrow> bool" where
  "second_ok b c =
     (if b = 0xE0 then 0xA0 \<le> c \<and> c \<le> 0xBF
      else if b = 0xED then 0x80 \<le> c \<and> c \<le> 0x9F
      else if b = 0xF0 then 0x90 \<le> c \<and> c \<le> 0xBF
      else if b = 0xF4 then 0x80 \<le> c \<and> c \<le> 0x8F
      else is_cont c)"

definition utf8_step :: "u8 \<Rightarrow> u8 list \<Rightarrow> bool \<times> nat" where
  "utf8_step b r =
     (if b < 0x80 then (True, 1)
      else if 0xC2 \<le> b \<and> b \<le> 0xDF
      then (if r \<noteq> [] \<and> is_cont (r ! 0) then (True, 2) else (False, 1))
      else if 0xE0 \<le> b \<and> b \<le> 0xEF
      then (if r = [] \<or> \<not> second_ok b (r ! 0) then (False, 1)
            else if 1 < length r \<and> is_cont (r ! 1) then (True, 3) else (False, 2))
      else if 0xF0 \<le> b \<and> b \<le> 0xF4
      then (if r = [] \<or> \<not> second_ok b (r ! 0) then (False, 1)
            else if \<not> (1 < length r \<and> is_cont (r ! 1)) then (False, 2)
            else if 2 < length r \<and> is_cont (r ! 2) then (True, 4) else (False, 3))
      else (False, 1))"

fun from_utf8_lossy :: "u8 list \<Rightarrow> u8 list" where
  "from_utf8_lossy [] = []"
| "from_utf8_lossy (b # r) =
     (case utf8_step b r of
        (valid, n) \<Rightarrow>
          (if valid then take n (b # r) else [0xEF, 0xBF, 0xBD]) @ from_utf8_lossy (drop (n - 1) r))"

section \<open>HTTP CONNECT\<close>

definition crlf :: string where
  "crlf = [carriage_return, newline]"

definition http_request :: "(string \<Rightarrow> string) \<Rightarrow> socket_addr \<Rightarrow> (string \<times> string) option \<Rightarrow> string" where
  "http_request b64 dest au =
     (let dest_str = show_socket_addr dest
      in ''CONNECT '' @ dest_str @ '' HTTP/1.1'' @ crlf @ ''Host: '' @ dest_str @ crlf @
         (case au of
            Some (user, pass) \<Rightarrow>
              ''Proxy-Authorization: Basic '' @ b64 (user @ '':'' @ pass) @ crlf
          | None \<Rightarrow> []) @ crlf)"

definition status_line :: "u8 list \<Rightarrow> string" where
  "status_line bs = (case lines (of_bytes (from_utf8_lossy bs)) of [] \<Rightarrow> [] | l # _ \<Rightarrow> l)"

definition http_dial ::
  "(string \<Rightarrow> string) \<Rightarrow> 's tcp \<Rightarrow> socket_addr \<Rightarrow> socket_addr \<Rightarrow> (string \<times> string) option \<Rightarrow> 's dialogue" where
  "http_dial b64 net paddr dest au =
     await_pc (\<lambda>s. tcp_connect net s paddr) (\<lambda>_.
     await_pc (\<lambda>s. tcp_write_all net s (as_bytes (http_request b64 dest au))) (\<lambda>_.
     await_pc (\<lambda>s. tcp_read net s 1024) (\<lambda>response.
       if contains_str ''200'' (status_line response) then Done (Inr ())
       else Done (Inl (HttpProxy (status_line response))))))"

definition http_connect ::
  "(string \<Rightarrow> string) \<Rightarrow> 's tcp \<Rightarrow> socket_addr \<Rightarrow> socket_addr \<Rightarrow> (string \<times> string) option \<Rightarrow> 's \<Rightarrow>
     (error + unit) \<times> 's" where
  "http_connect b64 net paddr dest au = complete (http_dial b64 net paddr dest au)"

section \<open>SOCKS5\<close>

definition SOCKS_VERSION :: u8 where "SOCKS_VERSION = 0x05"
definition METHOD_NO_AUTH :: u8 where "METHOD_NO_AUTH = 0x00"
definition METHOD_USER_PASS :: u8 where "METHOD_USER_PASS = 0x02"
definition CMD_CONNECT :: u8 where "CMD_CONNECT = 0x01"
definition ATYP_IPV4 :: u8 where "ATYP_IPV4 = 0x01"
definition ATYP_IPV6 :: u8 where "ATYP_IPV6 = 0x04"

lemmas socks_consts =
  SOCKS_VERSION_def METHOD_NO_AUTH_def METHOD_USER_PASS_def CMD_CONNECT_def ATYP_IPV4_def ATYP_IPV6_def

definition socks5_greeting :: "(string \<times> string) option \<Rightarrow> u8 list" where
  "socks5_greeting au =
     (let methods = (if au \<noteq> None then [METHOD_NO_AUTH, METHOD_USER_PASS]
                     else [METHOD_NO_AUTH, METHOD_NO_AUTH]);
          methods_len = (if au \<noteq> None then 2 else 1 :: u8)
      in [SOCKS_VERSION, methods_len] @ take (unat methods_len) methods)"

definition auth_request :: "string \<Rightarrow> string \<Rightarrow> u8 list" where
  "auth_request user pass =
     [0x01, of_nat (length user)] @ as_bytes user @ [of_nat (length pass)] @ as_bytes pass"

definition socks5_auth :: "'s tcp \<Rightarrow> string \<Rightarrow> string \<Rightarrow> 's dialogue" where
  "socks5_auth net user pass =
     (if 255 < length user \<or> 255 < length pass
      then Done (Inl (InvalidArgument ''SOCKS5 username/password too long''))
      else
        await_pc (\<lambda>s. tcp_write_all net s (auth_request user pass)) (\<lambda>_.
        await_pc (\<lambda>s. tcp_read_exact net s 2) (\<lambda>reply.
          if reply \<noteq> [0x01, 0x00] then Done (Inl (SocksProxy ''username/password auth failed''))
          else Done (Inr ()))))"

definition socks5_negotiate :: "'s tcp \<Rightarrow> (string \<times> string) option \<Rightarrow> u8 \<Rightarrow> 's dialogue" where
  "socks5_negotiate net au m =
     (if m = METHOD_NO_AUTH then Done (Inr ())
      else if m = METHOD_USER_PASS
      then (case au of
              None \<Rightarrow> Done (Inl (SocksProxy ''proxy requested username/password auth''))
            | Some (user, pass) \<Rightarrow> socks5_auth net user pass)
      else if m = 0xff then Done (Inl (SocksProxy ''proxy rejected all authentication methods''))
      else Done (Inl (SocksProxy (''unsupported SOCKS auth method: '' @ show_nat (unat m)))))"

fun socks5_request :: "socket_addr \<Rightarrow> u8 list" where
  "socks5_request (SockV4 ip p) =
     [SOCKS_VERSION, CMD_CONNECT, 0x00, ATYP_IPV4] @ v4_octets ip @ u16_to_be_bytes p"
| "socks5_request (SockV6 ip p fl sc) =
     [SOCKS_VERSION, CMD_CONNECT, 0x00, ATYP_IPV6] @ v6_octets ip @ u16_to_be_bytes p"

text \<open>The bound address of the reply is read and dropped.\<close>

definition discard_bound :: "'s tcp \<Rightarrow> nat \<Rightarrow> 's dialogue" where
  "discard_bound net addr_len =
     await_pc (\<lambda>s. tcp_read_exact net s (addr_len + 2)) (\<lambda>_. Done (Inr ()))"

definition socks5_reply :: "'s tcp \<Rightarrow> 's dialogue" where
  "socks5_reply net =
     await_pc (\<lambda>s. tcp_read_exact net s 4) (\<lambda>header.
       if header ! 0 \<noteq> SOCKS_VERSION
       then Done (Inl (SocksProxy (''invalid SOCKS version in connect reply: '' @ show_nat (unat (header ! 0)))))
       else if header ! 1 \<noteq> 0x00
       then Done (Inl (SocksProxy (''connect failed with reply code 0x'' @ lower_hex_u8 (header ! 1))))
       else if header ! 3 = ATYP_IPV4 then discard_bound net 4
       else if header ! 3 = 0x03
       then await_pc (\<lambda>s. tcp_read_exact net s 1) (\<lambda>len. discard_bound net (unat (len ! 0)))
       else if header ! 3 = ATYP_IPV6 then discard_bound net 16
       else Done (Inl (SocksProxy (''invalid address type in connect reply: '' @ show_nat (unat (header ! 3))))))"

definition socks5_dial ::
  "'s tcp \<Rightarrow> socket_addr \<Rightarrow> socket_addr \<Rightarrow> (string \<times> string) option \<Rightarrow> 's dialogue" where
  "socks5_dial net paddr dest au =
     await_pc (\<lambda>s. tcp_connect net s paddr) (\<lambda>_.
     await_pc (\<lambda>s. tcp_write_all net s (socks5_greeting au)) (\<lambda>_.
     await_pc (\<lambda>s. tcp_read_exact net s 2) (\<lambda>reply.
       if reply ! 0 \<noteq> SOCKS_VERSION
       then Done (Inl (SocksProxy (''invalid SOCKS version in method reply: '' @ show_nat (unat (reply ! 0)))))
       else and_then (socks5_negotiate net au (reply ! 1))
              (await_pc (\<lambda>s. tcp_write_all net s (socks5_request dest)) (\<lambda>_. socks5_reply net)))))"

definition socks5_connect ::
  "'s tcp \<Rightarrow> socket_addr \<Rightarrow> socket_addr \<Rightarrow> (string \<times> string) option \<Rightarrow> 's \<Rightarrow> (error + unit) \<times> 's" where
  "socks5_connect net paddr dest au = complete (socks5_dial net paddr dest au)"

section \<open>Running a dialogue\<close>

lemma complete_await [simp]:
  "call s = (Inl e, s1) \<Longrightarrow> complete (await_pc call f) s = (Inl (ProxyConnect e), s1)"
  "call s = (Inr x, s1) \<Longrightarrow> complete (await_pc call f) s = complete (f x) s1"
  by (simp_all add: await_pc_def)

lemma complete_await_Inr:
  "complete (await_pc call f) s = (Inr y, s') \<longleftrightarrow>
     (\<exists>x s1. call s = (Inr x, s1) \<and> complete (f x) s1 = (Inr y, s'))"
  by (cases "call s"; cases "fst (call s)") (auto simp: await_pc_def)

lemma complete_and_then:
  "complete (and_then p q) s =
     (case complete p s of (Inl e, s1) \<Rightarrow> (Inl e, s1) | (Inr _, s1) \<Rightarrow> complete q s1)"
  by (induction p arbitrary: s) (auto split: sum.splits)

lemma complete_and_then_Inr:
  "complete (and_then p q) s = (Inr y, s') \<longleftrightarrow>
     (\<exists>s1. complete p s = (Inr (), s1) \<and> complete q s1 = (Inr y, s'))"
  by (auto simp: complete_and_then split: prod.splits sum.splits)

text \<open>The first \<open>n\<close> awaits of a dialogue, and a bound on the number of its awaits.\<close>

fun progress :: "nat \<Rightarrow> 's dialogue \<Rightarrow> 's \<Rightarrow> 's dialogue \<times> 's" where
  "progress 0 p s = (p, s)"
| "progress (Suc n) (Done r) s = (Done r, s)"
| "progress (Suc n) (Await step next) s = progress n (next s) (step s)"

fun ends_within :: "nat \<Rightarrow> 's dialogue \<Rightarrow> bool" where
  "ends_within n (Done r) = True"
| "ends_within 0 (Await step next) = False"
| "ends_within (Suc n) (Await step next) = (\<forall>s. ends_within n (next s))"

lemma progress_complete: "progress n p s = (q, s1) \<Longrightarrow> complete p s = complete q s1"
  by (induction n p s rule: progress.induct) auto

lemma progress_snoc:
  "progress n p s = (Await step next, s1) \<Longrightarrow> progress (Suc n) p s = (next s1, step s1)"
  by (induction n p s rule: progress.induct) auto

lemma progress_ends: "ends_within n p \<Longrightarrow> n \<le> m \<Longrightarrow> \<exists>r s1. progress m p s = (Done r, s1)"
proof (induction n p arbitrary: m s rule: ends_within.induct)
  case (1 n r)
  then show ?case by (cases m) auto
next
  case (3 n step "next")
  then show ?case by (cases m) auto
qed simp

lemma ends_await [simp]: "(\<And>x. ends_within n (f x)) \<Longrightarrow> ends_within (Suc n) (await_pc call f)"
  by (simp add: await_pc_def split: sum.splits)

lemma ends_mono: "ends_within n p \<Longrightarrow> n \<le> m \<Longrightarrow> ends_within m p"
proof (induction n p arbitrary: m rule: ends_within.induct)
  case (3 n step "next")
  then show ?case by (cases m) auto
qed simp_all

lemma ends_and_then: "ends_within m p \<Longrightarrow> ends_within n q \<Longrightarrow> ends_within (m + n) (and_then p q)"
proof (induction m p rule: ends_within.induct)
  case (1 m r)
  then show ?case by (auto intro: ends_mono split: sum.splits)
qed auto

lemma discard_bound_ends: "ends_within (Suc 0) (discard_bound net n)"
  by (simp add: discard_bound_def)

lemma socks5_reply_ends: "ends_within 3 (socks5_reply net)"
proof -
  have "ends_within (Suc (Suc 0)) (discard_bound net n)" for n
    by (rule ends_mono [OF discard_bound_ends]) simp
  then show ?thesis
    by (simp add: socks5_reply_def numeral_3_eq_3 numeral_2_eq_2 discard_bound_ends)
qed

lemma socks5_negotiate_ends: "ends_within 2 (socks5_negotiate net au m)"
  by (auto simp: socks5_negotiate_def socks5_auth_def numeral_2_eq_2 split: option.splits)

lemma socks5_dial_ends: "ends_within 9 (socks5_dial net paddr dest au)"
proof -
  have "ends_within (Suc 3) (await_pc (\<lambda>s. tcp_write_all net s bs) (\<lambda>_. socks5_reply net))" for bs
    by (rule ends_await) (rule socks5_reply_ends)
  from ends_and_then [OF socks5_negotiate_ends this] have
    "ends_within 6 (and_then (socks5_negotiate net au m)
       (await_pc (\<lambda>s. tcp_write_all net s bs) (\<lambda>_. socks5_reply net)))" for m bs by simp
  then have "ends_within (Suc (Suc (Suc 6))) (socks5_dial net paddr dest au)"
    unfolding socks5_dial_def by (intro ends_await) simp
  then show ?thesis by simp
qed

lemma http_dial_ends: "ends_within 3 (http_dial b64 net paddr dest au)"
  by (simp add: http_dial_def numeral_3_eq_3)

section \<open>Documented behaviour of a connected stream\<close>

text \<open>\<open>inp s\<close>: what the peer sends and is not read yet; \<open>out s\<close>: what was sent to it.\<close>

definition byte_stream :: "'s tcp \<Rightarrow> ('s \<Rightarrow> u8 list) \<Rightarrow> ('s \<Rightarrow> u8 list) \<Rightarrow> bool" where
  "byte_stream net inp out \<longleftrightarrow>
     (\<forall>s a. \<exists>s'. tcp_connect net s a = (Inr (), s') \<and> inp s' = inp s \<and> out s' = out s) \<and>
     (\<forall>s bs. \<exists>s'. tcp_write_all net s bs = (Inr (), s') \<and> inp s' = inp s \<and> out s' = out s @ bs) \<and>
     (\<forall>s n. \<exists>s'. out s' = out s \<and>
        (if n \<le> length (inp s)
         then tcp_read_exact net s n = (Inr (take n (inp s)), s') \<and> inp s' = drop n (inp s)
         else tcp_read_exact net s n = (Inl Unexpected_Eof, s'))) \<and>
     (\<forall>s n. \<exists>s' m. out s' = out s \<and> m \<le> n \<and> m \<le> length (inp s) \<and>
        (0 < n \<and> inp s \<noteq> [] \<longrightarrow> 0 < m) \<and>
        tcp_read net s n = (Inr (take m (inp s)), s') \<and> inp s' = drop m (inp s))"

lemma stream_connect:
  "byte_stream net inp out \<Longrightarrow>
     \<exists>s'. tcp_connect net s a = (Inr (), s') \<and> inp s' = inp s \<and> out s' = out s"
  by (simp add: byte_stream_def)

lemma stream_write:
  "byte_stream net inp out \<Longrightarrow>
     \<exists>s'. tcp_write_all net s bs = (Inr (), s') \<and> inp s' = inp s \<and> out s' = out s @ bs"
  by (simp add: byte_stream_def)

lemma stream_read_exact:
  assumes "byte_stream net inp out" and "inp s = bs @ rest" and "length bs = n"
  shows "\<exists>s'. tcp_read_exact net s n = (Inr bs, s') \<and> inp s' = rest \<and> out s' = out s"
proof -
  have "\<exists>s'. out s' = out s \<and> (if n \<le> length (inp s)
      then tcp_read_exact net s n = (Inr (take n (inp s)), s') \<and> inp s' = drop n (inp s)
      else tcp_read_exact net s n = (Inl Unexpected_Eof, s'))"
    using assms(1) unfolding byte_stream_def by blast
  then show ?thesis using assms(2,3) by auto
qed

lemma stream_read:
  assumes "byte_stream net inp out"
  shows "\<exists>s' m. out s' = out s \<and> m \<le> n \<and> m \<le> length (inp s) \<and>
    (0 < n \<and> inp s \<noteq> [] \<longrightarrow> 0 < m) \<and>
    tcp_read net s n = (Inr (take m (inp s)), s') \<and> inp s' = drop m (inp s)"
  using assms unfolding byte_stream_def by blast

text \<open>
  Two streams over lists that deliver as much as a read asks for; a copy moves what is there with one
  poll and is finished with the next.
\<close>

record script =
  sc_in :: "u8 list"
  sc_out :: "u8 list"
  sc_client_in :: "u8 list"
  sc_client_out :: "u8 list"

fun script_copy :: "script \<Rightarrow> copy_dir \<Rightarrow> (io_error + nat) option \<times> script" where
  "script_copy s ToProxy =
     (if sc_client_in s = [] then (Some (Inr (length (sc_out s))), s)
      else (None, s\<lparr>sc_client_in := [], sc_out := sc_out s @ sc_client_in s\<rparr>))"
| "script_copy s ToClient =
     (if sc_in s = [] then (Some (Inr (length (sc_client_out s))), s)
      else (None, s\<lparr>sc_in := [], sc_client_out := sc_client_out s @ sc_in s\<rparr>))"

text \<open>A script for a dialogue alone: what the proxy sends.\<close>

definition proxy_sends :: "u8 list \<Rightarrow> script" where
  "proxy_sends bs = \<lparr>sc_in = bs, sc_out = [], sc_client_in = [], sc_client_out = []\<rparr>"

definition script_net :: "script tcp" where
  "script_net =
     \<lparr>tcp_connect = (\<lambda>s a. (Inr (), s)),
      tcp_write_all = (\<lambda>s bs. (Inr (), s\<lparr>sc_out := sc_out s @ bs\<rparr>)),
      tcp_read_exact = (\<lambda>s n. if n \<le> length (sc_in s)
                              then (Inr (take n (sc_in s)), s\<lparr>sc_in := drop n (sc_in s)\<rparr>)
                              else (Inl Unexpected_Eof, s)),
      tcp_read = (\<lambda>s n. (Inr (take n (sc_in s)), s\<lparr>sc_in := drop n (sc_in s)\<rparr>)),
      tcp_copy = script_copy\<rparr>"

lemma script_stream: "byte_stream script_net sc_in sc_out"
  unfolding byte_stream_def
proof (intro conjI allI)
  fix s :: script and n
  let ?s = "s\<lparr>sc_in := drop n (sc_in s)\<rparr>" and ?m = "min n (length (sc_in s))"
  show "\<exists>s'. sc_out s' = sc_out s \<and> (if n \<le> length (sc_in s)
      then tcp_read_exact script_net s n = (Inr (take n (sc_in s)), s') \<and> sc_in s' = drop n (sc_in s)
      else tcp_read_exact script_net s n = (Inl Unexpected_Eof, s'))"
    by (rule exI [of _ "if n \<le> length (sc_in s) then ?s else s"]) (simp add: script_net_def)
  show "\<exists>s' m. sc_out s' = sc_out s \<and> m \<le> n \<and> m \<le> length (sc_in s) \<and>
      (0 < n \<and> sc_in s \<noteq> [] \<longrightarrow> 0 < m) \<and>
      tcp_read script_net s n = (Inr (take m (sc_in s)), s') \<and> sc_in s' = drop m (sc_in s)"
    by (rule exI [of _ ?s], rule exI [of _ ?m]) (simp add: script_net_def min_def)
qed (simp_all add: script_net_def)

section \<open>Dialogues\<close>

lemma discard_bound_reads:
  assumes "byte_stream net inp out" and "inp s = bnd @ rest" and "length bnd = n + 2"
  shows "\<exists>s'. complete (discard_bound net n) s = (Inr (), s') \<and> inp s' = rest \<and> out s' = out s"
  using stream_read_exact [OF assms] by (auto simp: discard_bound_def)

text \<open>A bound address as the reply carries it after its address type: IPv4, domain name, IPv6.\<close>

definition bound_addr :: "u8 \<Rightarrow> u8 list \<Rightarrow> bool" where
  "bound_addr atyp bnd \<longleftrightarrow>
     atyp = 1 \<and> length bnd = 6 \<or>
     atyp = 3 \<and> bnd \<noteq> [] \<and> length bnd = unat (hd bnd) + 3 \<or>
     atyp = 4 \<and> length bnd = 18"

lemma socks5_reply_reads:
  assumes net: "byte_stream net inp out" and s: "inp s = [5, 0, rsv, atyp] @ bnd @ tunnel"
    and bnd: "bound_addr atyp bnd"
  shows "\<exists>s'. complete (socks5_reply net) s = (Inr (), s') \<and> inp s' = tunnel \<and> out s' = out s"
proof -
  obtain s1 where s1: "tcp_read_exact net s 4 = (Inr [5, 0, rsv, atyp], s1)"
    "inp s1 = bnd @ tunnel" "out s1 = out s"
    using stream_read_exact [OF net s, of 4] by auto
  consider "atyp = 1" "length bnd = 4 + 2" | "atyp = 4" "length bnd = 16 + 2"
    | l r where "atyp = 3" "bnd = l # r" "length r = unat l + 2"
    using bnd by (cases bnd) (auto simp: bound_addr_def)
  then show ?thesis
  proof cases
    case 1
    then show ?thesis using discard_bound_reads [OF net s1(2) 1(2)] s1
      by (simp add: socks5_reply_def socks_consts)
  next
    case 2
    then show ?thesis using discard_bound_reads [OF net s1(2) 2(2)] s1
      by (simp add: socks5_reply_def socks_consts)
  next
    case (3 l r)
    obtain s2 where s2: "tcp_read_exact net s1 1 = (Inr [l], s2)" "inp s2 = r @ tunnel" "out s2 = out s"
      using stream_read_exact [OF net, of s1 "[l]" "r @ tunnel" 1] s1 3(2) by auto
    then show ?thesis using discard_bound_reads [OF net s2(2) 3(3)] s1 3(1)
      by (simp add: socks5_reply_def socks_consts)
  qed
qed

text \<open>What a server answers to the greeting, by the method it picks, and what the client sends then.\<close>

definition server_hello :: "u8 \<Rightarrow> u8 list" where
  "server_hello m = (if m = 0 then [5, 0] else [5, m, 1, 0])"

definition client_auth :: "(string \<times> string) option \<Rightarrow> u8 \<Rightarrow> u8 list" where
  "client_auth au m =
     (if m = 0 then [] else case au of Some (user, pass) \<Rightarrow> auth_request user pass | None \<Rightarrow> [])"

definition auth_fits :: "(string \<times> string) option \<Rightarrow> u8 \<Rightarrow> bool" where
  "auth_fits au m \<longleftrightarrow>
     m = 0 \<or> m = 2 \<and> (\<exists>user pass. au = Some (user, pass) \<and> length user \<le> 255 \<and> length pass \<le> 255)"

lemma socks5_negotiate_reads:
  assumes net: "byte_stream net inp out" and fits: "auth_fits au m"
    and s: "inp s = drop 2 (server_hello m) @ rest"
  shows "\<exists>s'. complete (socks5_negotiate net au m) s = (Inr (), s') \<and> inp s' = rest \<and>
    out s' = out s @ client_auth au m"
proof (cases "m = 0")
  case True
  then show ?thesis
    using s by (simp add: socks5_negotiate_def socks_consts server_hello_def client_auth_def)
next
  case False
  then obtain user pass where au: "m = 2" "au = Some (user, pass)" "length user \<le> 255" "length pass \<le> 255"
    using fits by (auto simp: auth_fits_def)
  obtain s1 where s1: "tcp_write_all net s (auth_request user pass) = (Inr (), s1)"
    "inp s1 = [1, 0] @ rest" "out s1 = out s @ auth_request user pass"
    using stream_write [OF net, of s] s au(1) by (auto simp: server_hello_def)
  obtain s2 where "tcp_read_exact net s1 2 = (Inr [1, 0], s2)" "inp s2 = rest" "out s2 = out s1"
    using stream_read_exact [OF net s1(2), of 2] by auto
  then show ?thesis using au s1
    by (simp add: socks5_negotiate_def socks5_auth_def socks_consts client_auth_def)
qed

text \<open>A CONNECT dialogue in which the first read delivers exactly the response.\<close>

lemma http_dialogue:
  assumes net: "byte_stream net inp out" and s: "inp s = response @ tunnel"
    and one_read: "\<And>s1. inp s1 = response @ tunnel \<Longrightarrow> fst (tcp_read net s1 1024) = Inr response"
    and ok: "contains_str ''200'' (status_line response)"
  shows "\<exists>s'. http_connect b64 net paddr dest au s = (Inr (), s') \<and> inp s' = tunnel \<and>
    out s' = out s @ as_bytes (http_request b64 dest au)"
proof -
  obtain s1 where s1: "tcp_connect net s paddr = (Inr (), s1)" "inp s1 = inp s" "out s1 = out s"
    using stream_connect [OF net] by blast
  obtain s2 where s2: "tcp_write_all net s1 (as_bytes (http_request b64 dest au)) = (Inr (), s2)"
    "inp s2 = inp s" "out s2 = out s @ as_bytes (http_request b64 dest au)"
    using stream_write [OF net, of s1] s1 by auto
  obtain s3 m where s3: "out s3 = out s2" "m \<le> length (inp s)"
    "tcp_read net s2 1024 = (Inr (take m (inp s)), s3)" "inp s3 = drop m (inp s)"
    using stream_read [OF net, of s2 1024] s2(2) by auto
  then have m: "take m (inp s) = response" using one_read [of s2] s2(2) s by simp
  then have "drop m (inp s) = tunnel" using s by (metis append_take_drop_id same_append_eq)
  then show ?thesis using s1 s2 s3 m ok by (intro exI [of _ s3]) (simp add: http_connect_def http_dial_def)
qed

section \<open>The server's side of the formats\<close>

text \<open>How a URL writes an IP address as its host.\<close>

fun url_host :: "ip_addr \<Rightarrow> string" where
  "url_host (IpV4 a) = show_ipv4 a"
| "url_host (IpV6 a) = ''['' @ show_ipv6 a @ '']''"

text \<open>RFC 1928, section 4, and RFC 1929, section 2, as a server decodes them.\<close>

definition decode_request :: "u8 list \<Rightarrow> (ip_addr \<times> u16) option" where
  "decode_request bs =
     (if take 3 bs \<noteq> [5, 1, 0] then None
      else if bs ! 3 = 1 \<and> length bs = 10
      then Some (IpV4 (v4_from_octets (take 4 (drop 4 bs))), u16_from_be_bytes (drop 8 bs))
      else if bs ! 3 = 4 \<and> length bs = 22
      then Some (IpV6 (v6_from_octets (take 16 (drop 4 bs))), u16_from_be_bytes (drop 20 bs))
      else None)"

definition decode_auth :: "u8 list \<Rightarrow> (string \<times> string) option" where
  "decode_auth bs =
     (case bs of
        v # ulen # r \<Rightarrow>
          (let user = take (unat ulen) r; r' = drop (unat ulen) r
           in if v \<noteq> 1 \<or> r' = [] then None
              else if length r' = unat (hd r') + 1 then Some (of_bytes user, of_bytes (tl r')) else None)
      | _ \<Rightarrow> None)"

lemma of_as_bytes [simp]: "of_bytes (as_bytes s) = s"
proof -
  have "char_of (unat (of_nat (of_char c) :: u8)) = c" for c
  proof -
    have "(of_char c :: nat) < 256" using nat_of_char_less_256 by simp
    then show ?thesis by (simp add: unat_of_nat)
  qed
  then show ?thesis by (simp add: of_bytes_def as_bytes_def comp_def)
qed

lemma show_hex_notin: "(of_char c :: nat) < 48 \<Longrightarrow> c \<notin> set (show_hex n)"
proof (induction n rule: less_induct)
  case (less n)
  have "c \<noteq> digit_char d" if "d < 16" for d
    using less.prems that by (auto simp: digit_char_def of_char_of)
  then show ?case using less by (cases "n < 16") (simp_all add: show_hex.simps [of n])
qed

text \<open>A printed address has no character below the percent sign: no space, no line break.\<close>

lemma show_addr_plain:
  assumes "(of_char c :: nat) < 37"
  shows "c \<notin> set (show_socket_addr a)"
proof -
  have c: "c \<noteq> CHR ''.''" "c \<noteq> CHR '':''" "c \<noteq> CHR ''[''" "c \<noteq> CHR '']''" "c \<noteq> CHR ''%''" "c \<noteq> CHR ''f''"
    using assms by auto
  have n: "c \<notin> set (show_nat n)" for n using assms by (intro show_nat_notin) simp
  have "c \<notin> set (show_hex n)" for n using assms by (intro show_hex_notin) simp
  then have g: "c \<notin> set (show_groups gs)" for gs
    unfolding show_groups_def using set_join [of "'':''"] c(2) by fastforce
  have v4: "c \<notin> set (show_ipv4 ip)" for ip
    unfolding show_ipv4_def using set_join [of "''.''"] c(1) n by fastforce
  have "c \<notin> set (show_ipv6 ip)" for ip using g v4 c by (simp add: show_ipv6_def Let_def)
  then show ?thesis using v4 n c by (cases a) auto
qed

lemma length_as_bytes [simp]: "length (as_bytes s) = length s"
  by (simp add: as_bytes_def)

lemma lossy_ascii: "list_all (\<lambda>b. b < 0x80) bs \<Longrightarrow> from_utf8_lossy bs = bs"
  by (induction bs) (simp_all add: utf8_step_def)

lemma socks5_dialogue:
  assumes net: "byte_stream net inp out" and fits: "auth_fits au m"
    and s: "inp s = server_hello m @ [5, 0, rsv, atyp] @ bnd @ tunnel" and bnd: "bound_addr atyp bnd"
  shows "\<exists>s'. socks5_connect net paddr dest au s = (Inr (), s') \<and> inp s' = tunnel \<and>
    out s' = out s @ socks5_greeting au @ client_auth au m @ socks5_request dest"
proof -
  let ?rest = "[5, 0, rsv, atyp] @ bnd @ tunnel"
  obtain s1 where s1: "tcp_connect net s paddr = (Inr (), s1)" "inp s1 = inp s" "out s1 = out s"
    using stream_connect [OF net] by blast
  obtain s2 where s2: "tcp_write_all net s1 (socks5_greeting au) = (Inr (), s2)" "inp s2 = inp s"
    "out s2 = out s @ socks5_greeting au"
    using stream_write [OF net, of s1] s1 by auto
  have "inp s2 = [5, m] @ (drop 2 (server_hello m) @ ?rest)" using s2(2) s by (simp add: server_hello_def)
  then obtain s3 where s3: "tcp_read_exact net s2 2 = (Inr [5, m], s3)"
    "inp s3 = drop 2 (server_hello m) @ ?rest" "out s3 = out s2"
    using stream_read_exact [OF net, of s2 "[5, m]" _ 2] by auto
  obtain s4 where s4: "complete (socks5_negotiate net au m) s3 = (Inr (), s4)" "inp s4 = ?rest"
    "out s4 = out s3 @ client_auth au m"
    using socks5_negotiate_reads [OF net fits s3(2)] by blast
  obtain s5 where s5: "tcp_write_all net s4 (socks5_request dest) = (Inr (), s5)" "inp s5 = ?rest"
    "out s5 = out s4 @ socks5_request dest"
    using stream_write [OF net, of s4] s4(2) by auto
  obtain s6 where "complete (socks5_reply net) s5 = (Inr (), s6)" "inp s6 = tunnel" "out s6 = out s5"
    using socks5_reply_reads [OF net s5(2) bnd] by blast
  then show ?thesis
    using s1 s2 s3 s4 s5 by (simp add: socks5_connect_def socks5_dial_def complete_and_then socks_consts)
qed

text \<open>The other direction: what a client that reports success has read and sent.\<close>

lemma stream_readD:
  assumes "byte_stream net inp out" and "tcp_read_exact net s n = (Inr bs, s')"
  shows "inp s = bs @ inp s'" and "length bs = n" and "out s' = out s"
proof -
  have "\<exists>s'. out s' = out s \<and> (if n \<le> length (inp s)
      then tcp_read_exact net s n = (Inr (take n (inp s)), s') \<and> inp s' = drop n (inp s)
      else tcp_read_exact net s n = (Inl Unexpected_Eof, s'))"
    using assms(1) unfolding byte_stream_def by blast
  then show "inp s = bs @ inp s'" and "length bs = n" and "out s' = out s"
    using assms(2) by (auto split: if_splits)
qed

lemma stream_writeD:
  "byte_stream net inp out \<Longrightarrow> tcp_write_all net s bs = (r, s') \<Longrightarrow>
     r = Inr () \<and> inp s' = inp s \<and> out s' = out s @ bs"
  using stream_write [of net inp out s bs] by auto

lemma stream_connectD:
  "byte_stream net inp out \<Longrightarrow> tcp_connect net s a = (r, s') \<Longrightarrow> r = Inr () \<and> inp s' = inp s \<and> out s' = out s"
  using stream_connect [of net inp out s a] by auto

lemma discard_bound_sound:
  assumes "byte_stream net inp out" and "complete (discard_bound net n) s = (Inr (), s')"
  shows "\<exists>bs. length bs = n + 2 \<and> inp s = bs @ inp s' \<and> out s' = out s"
  using assms(2) stream_readD [OF assms(1)] by (fastforce simp: discard_bound_def complete_await_Inr)

lemma socks5_reply_sound:
  assumes net: "byte_stream net inp out" and run: "complete (socks5_reply net) s = (Inr (), s')"
  shows "\<exists>rsv atyp bnd. bound_addr atyp bnd \<and> inp s = [5, 0, rsv, atyp] @ bnd @ inp s' \<and> out s' = out s"
proof -
  obtain hd s1 where r: "tcp_read_exact net s 4 = (Inr hd, s1)"
    using run by (auto simp: socks5_reply_def complete_await_Inr)
  note h = stream_readD [OF net r]
  obtain a b c d where hd: "hd = [a, b, c, d]"
    using h(2) by (auto simp: numeral_eq_Suc length_Suc_conv)
  have ab: "a = 5" "b = 0" using run r hd by (auto simp: socks5_reply_def socks_consts split: if_splits)
  consider "d = 1" "complete (discard_bound net 4) s1 = (Inr (), s')" | "d = 4" "complete (discard_bound net 16) s1 = (Inr (), s')"
    | len s2 where "d = 3" "tcp_read_exact net s1 1 = (Inr len, s2)" "complete (discard_bound net (unat (len ! 0))) s2 = (Inr (), s')"
    using run r hd ab by (auto simp: socks5_reply_def socks_consts complete_await_Inr split: if_splits)
  then have "\<exists>bnd. bound_addr d bnd \<and> inp s1 = bnd @ inp s' \<and> out s' = out s1"
  proof cases
    case (3 len s2)
    note l = stream_readD [OF net 3(2)]
    obtain x where x: "len = [x]" using l(2) by (auto simp: length_Suc_conv)
    obtain bs where bs: "length bs = unat x + 2" "inp s2 = bs @ inp s'" "out s' = out s2"
      using discard_bound_sound [OF net 3(3)] x by auto
    then show ?thesis using 3(1) l(1,3) x by (intro exI [of _ "x # bs"]) (simp add: bound_addr_def)
  qed (use discard_bound_sound [OF net] in \<open>fastforce simp: bound_addr_def\<close>)+
  then show ?thesis using h(1,3) hd ab by auto
qed

lemma socks5_negotiate_sound:
  assumes net: "byte_stream net inp out" and run: "complete (socks5_negotiate net au m) s = (Inr (), s')"
  shows "auth_fits au m \<and> inp s = drop 2 (server_hello m) @ inp s' \<and> out s' = out s @ client_auth au m"
proof (cases "m = 0")
  case True
  then show ?thesis
    using run by (simp add: socks5_negotiate_def socks_consts auth_fits_def server_hello_def client_auth_def)
next
  case False
  then obtain user pass where au: "m = 2" "au = Some (user, pass)" "complete (socks5_auth net user pass) s = (Inr (), s')"
    using run by (auto simp: socks5_negotiate_def socks_consts split: if_splits option.splits)
  then obtain s1 where s1: "tcp_write_all net s (auth_request user pass) = (Inr (), s1)"
    "tcp_read_exact net s1 2 = (Inr [1, 0], s')" "length user \<le> 255" "length pass \<le> 255"
    by (auto simp: socks5_auth_def complete_await_Inr split: if_splits)
  then show ?thesis
    using stream_writeD [OF net s1(1)] stream_readD [OF net s1(2)] au(1,2)
    by (simp add: auth_fits_def server_hello_def client_auth_def)
qed

lemma socks5_connect_sound:
  assumes net: "byte_stream net inp out" and run: "socks5_connect net paddr dest au s = (Inr (), s')"
  shows "\<exists>m rsv atyp bnd. auth_fits au m \<and> bound_addr atyp bnd \<and>
    inp s = server_hello m @ [5, 0, rsv, atyp] @ bnd @ inp s' \<and>
    out s' = out s @ socks5_greeting au @ client_auth au m @ socks5_request dest"
proof -
  obtain s1 s2 reply s3 s4 s5 where run:
    "tcp_connect net s paddr = (Inr (), s1)" "tcp_write_all net s1 (socks5_greeting au) = (Inr (), s2)"
    "tcp_read_exact net s2 2 = (Inr reply, s3)" "reply ! 0 = 5"
    "complete (socks5_negotiate net au (reply ! 1)) s3 = (Inr (), s4)"
    "tcp_write_all net s4 (socks5_request dest) = (Inr (), s5)" "complete (socks5_reply net) s5 = (Inr (), s')"
    using run by (auto simp: socks5_connect_def socks5_dial_def complete_and_then_Inr socks_consts complete_await_Inr split: if_splits)
  note r = stream_readD [OF net run(3)]
  obtain m where m: "reply = [5, m]" using r(2) run(4) by (auto simp: numeral_eq_Suc length_Suc_conv)
  have start: "inp s2 = inp s" "out s2 = out s @ socks5_greeting au"
    using stream_connectD [OF net run(1)] stream_writeD [OF net run(2)] by auto
  have neg: "auth_fits au m" "inp s3 = drop 2 (server_hello m) @ inp s4" "out s4 = out s3 @ client_auth au m"
    using socks5_negotiate_sound [OF net run(5)] m by auto
  obtain rsv atyp bnd where rep: "bound_addr atyp bnd" "inp s5 = [5, 0, rsv, atyp] @ bnd @ inp s'" "out s' = out s5"
    using socks5_reply_sound [OF net run(7)] by blast
  have "inp s = [5, m] @ drop 2 (server_hello m) @ inp s4" using r(1) start(1) neg(2) m by simp
  also have "\<dots> = server_hello m @ inp s4" by (simp add: server_hello_def)
  finally have "inp s = server_hello m @ [5, 0, rsv, atyp] @ bnd @ inp s'"
    using stream_writeD [OF net run(6)] rep(2) by simp
  then show ?thesis
    using neg(1,3) rep(1,3) start(2) r(3) stream_writeD [OF net run(6)]
    by (intro exI [of _ m] exI [of _ rsv] exI [of _ atyp] exI [of _ bnd]) simp
qed

lemma socks5_request_decodes: "decode_request (socks5_request dest) = Some (sa_ip dest, sa_port dest)"
proof (cases dest)
  case (SockV4 ip p)
  then show ?thesis
    by (simp add: decode_request_def socks_consts v4_oct.length_enc v4_oct.dec_enc u16_be.length_enc
        u16_be.dec_enc)
next
  case (SockV6 ip p fl sc)
  then show ?thesis
    by (simp add: decode_request_def socks_consts v6_oct.length_enc v6_oct.dec_enc u16_be.length_enc
        u16_be.dec_enc)
qed

text \<open>
  A strict reader of header lines: every line ends in CR LF, and a CR or an LF anywhere else is
  refused.
\<close>

fun crlf_lines :: "string \<Rightarrow> string \<Rightarrow> string list option" where
  "crlf_lines cur [] = (if cur = [] then Some [] else None)"
| "crlf_lines cur (c # cs) =
     (if c = CHR 0x0D
      then (case cs of
              d # ds \<Rightarrow> if d = CHR 0x0A then map_option ((#) cur) (crlf_lines [] ds) else None
            | [] \<Rightarrow> None)
      else if c = CHR 0x0A then None
      else crlf_lines (cur @ [c]) cs)"

definition one_line :: "string \<Rightarrow> bool" where
  "one_line l = (newline \<notin> set l \<and> carriage_return \<notin> set l)"

lemma crlf_line:
  assumes "one_line l"
  shows "crlf_lines cur (l @ crlf @ rest) = map_option ((#) (cur @ l)) (crlf_lines [] rest)"
  using assms by (induction l arbitrary: cur) (auto simp: one_line_def crlf_def control_chars)

lemma crlf_lines_concat:
  assumes "\<And>l. l \<in> set ls \<Longrightarrow> one_line l"
  shows "crlf_lines [] (concat (map (\<lambda>l. l @ crlf) ls)) = Some ls"
  using assms by (induction ls) (simp_all add: crlf_line)

section \<open>Properties\<close>

text \<open>
  C16. A SOCKS5 tunnel is taken for open exactly when the server has granted it, and no byte of it is
  lost. The client reports success, having sent the bytes \<open>sent\<close> and with
  \<open>tunnel\<close> left to read, if and only if the server picked no authentication, or user and
  password that the client has and that fit and that it confirmed, and accepted the request with a
  complete bound address of one of the three kinds; \<open>sent\<close> is then exactly greeting,
  credentials if asked for, and request, and \<open>tunnel\<close> what follows the bound address.
\<close>

theorem socks5_connect_exact:
  assumes net: "byte_stream net inp out"
  shows "(\<exists>s'. socks5_connect net paddr dest au s = (Inr (), s') \<and> inp s' = tunnel \<and> out s' = out s @ sent) \<longleftrightarrow>
    (\<exists>m rsv atyp bnd. auth_fits au m \<and> bound_addr atyp bnd \<and>
       inp s = server_hello m @ [5, 0, rsv, atyp] @ bnd @ tunnel \<and>
       sent = socks5_greeting au @ client_auth au m @ socks5_request dest)"
  (is "?opened \<longleftrightarrow> ?granted")
proof
  assume ?opened
  then show ?granted using socks5_connect_sound [OF net] by fastforce
next
  assume ?granted
  then show ?opened using socks5_dialogue [OF net] by blast
qed

theorem socks5_connect_exact_witness:
  "\<exists>s'. socks5_connect script_net (SockV4 0x0A000001 1080) (SockV4 0x5DB8D822 443) None
     (proxy_sends ([5, 0] @ [5, 0, 0, 1] @ [127, 0, 0, 1, 18, 52] @ [22, 3, 3])) = (Inr (), s') \<and>
   sc_in s' = [22, 3, 3]"
proof -
  let ?s = "proxy_sends ([5, 0] @ [5, 0, 0, 1] @ [127, 0, 0, 1, 18, 52] @ [22, 3, 3])"
  have "\<exists>m rsv atyp bnd. auth_fits None m \<and> bound_addr atyp bnd \<and>
      sc_in ?s = server_hello m @ [5, 0, rsv, atyp] @ bnd @ [22, 3, 3]"
    by (rule exI [of _ 0], rule exI [of _ 0], rule exI [of _ 1], rule exI [of _ "[127, 0, 0, 1, 18, 52]"])
      (simp add: auth_fits_def bound_addr_def server_hello_def proxy_sends_def)
  then show ?thesis using socks5_connect_exact [OF script_stream, of _ _ None ?s "[22, 3, 3]"] by blast
qed

text \<open>
  The SOCKS5 messages mean what they should to a server that follows the RFCs: the connect
  request decodes to the destination's address and port, for IPv4 and IPv6, and user and password of
  at most 255 bytes are recovered from the authentication request.
\<close>

lemma socks5_messages_decode:
  "decode_request (socks5_request dest) = Some (sa_ip dest, sa_port dest) \<and>
   (length user \<le> 255 \<and> length pass \<le> 255 \<longrightarrow>
      decode_auth (auth_request user pass) = Some (user, pass))"
proof
  show "decode_request (socks5_request dest) = Some (sa_ip dest, sa_port dest)"
    by (rule socks5_request_decodes)
  have "unat (of_nat n :: u8) = n" if "n \<le> 255" for n using that by (simp add: unat_of_nat)
  then show "length user \<le> 255 \<and> length pass \<le> 255 \<longrightarrow>
      decode_auth (auth_request user pass) = Some (user, pass)"
    by (simp add: decode_auth_def auth_request_def)
qed

text \<open>
  C37. The CONNECT request is a well-formed message of two or three header lines and an empty one,
  each ended by CR LF with no other CR or LF in the message, for every IPv4 and IPv6 destination and
  whatever user name and password contain, as long as the base64 encoding has no line breaks: no
  header can be injected. The address in the request line has no space in it and parses back to the
  destination, less its flow information.
\<close>

theorem http_request_lines:
  assumes b64: "\<And>x. newline \<notin> set (b64 x) \<and> carriage_return \<notin> set (b64 x)"
  shows "crlf_lines [] (http_request b64 dest au) = Some (
      [''CONNECT '' @ show_socket_addr dest @ '' HTTP/1.1'', ''Host: '' @ show_socket_addr dest] @
      (case au of None \<Rightarrow> []
       | Some (user, pass) \<Rightarrow> [''Proxy-Authorization: Basic '' @ b64 (user @ '':'' @ pass)]) @ [[]]) \<and>
    CHR '' '' \<notin> set (show_socket_addr dest) \<and>
    parse_socket_addr (show_socket_addr dest) = Some (without_flowinfo dest)"
proof -
  let ?d = "show_socket_addr dest"
  have d: "c \<notin> set ?d" if "c \<in> {newline, carriage_return}" for c
    using that by (intro show_addr_plain) (auto simp: control_chars)
  let ?ls = "[''CONNECT '' @ ?d @ '' HTTP/1.1'', ''Host: '' @ ?d] @
      (case au of None \<Rightarrow> [] | Some (user, pass) \<Rightarrow> [''Proxy-Authorization: Basic '' @ b64 (user @ '':'' @ pass)]) @ [[]]"
  have "http_request b64 dest au = concat (map (\<lambda>l. l @ crlf) ?ls)"
    by (simp add: http_request_def Let_def del: show_socket_addr.simps split: option.splits)
  moreover have "one_line l" if "l \<in> set ?ls" for l
  proof -
    have "one_line ?d" "one_line (b64 x)" for x using d b64 by (simp_all add: one_line_def)
    with that show ?thesis
      by (cases au) (auto simp: one_line_def control_chars simp del: show_socket_addr.simps)
  qed
  then have "crlf_lines [] (concat (map (\<lambda>l. l @ crlf) ?ls)) = Some ?ls" by (rule crlf_lines_concat)
  ultimately have "crlf_lines [] (http_request b64 dest au) = Some ?ls" by (simp only:)
  then show ?thesis using parse_show_socket_addr show_addr_plain [of "CHR '' ''" dest] by simp
qed

theorem http_request_lines_witness:
  "\<exists>ls. crlf_lines [] (http_request (\<lambda>x. ''eA=='') (SockV4 0x01020304 80)
       (Some (''u'', [carriage_return, newline]))) = Some ls \<and>
     length ls = 4 \<and> ls ! 2 = ''Proxy-Authorization: Basic eA=='' \<and> ls ! 3 = []"
  using http_request_lines [of "\<lambda>x. ''eA==''" "SockV4 0x01020304 80" "Some (''u'', [carriage_return, newline])"]
  by (auto simp: control_chars simp del: show_socket_addr.simps)

text \<open>
  C36. The outcome of the CONNECT dialogue is decided by the first read, of at most 1024 bytes: the
  tunnel is taken for open exactly when the first line of what it delivers contains
  \<open>200\<close>, and every byte it delivers is dropped, those after the end of the response
  included. The request is sent completely in any case.
\<close>

theorem http_connect_first_read:
  assumes net: "byte_stream net inp out"
  shows "\<exists>m s'. m \<le> 1024 \<and> (inp s \<noteq> [] \<longrightarrow> 0 < m) \<and> inp s' = drop m (inp s) \<and>
    out s' = out s @ as_bytes (http_request b64 dest au) \<and>
    http_connect b64 net paddr dest au s =
      ((if contains_str ''200'' (status_line (take m (inp s))) then Inr ()
        else Inl (HttpProxy (status_line (take m (inp s))))), s')"
proof -
  obtain s1 where s1: "tcp_connect net s paddr = (Inr (), s1)" "inp s1 = inp s" "out s1 = out s"
    using stream_connect [OF net] by blast
  obtain s2 where s2: "tcp_write_all net s1 (as_bytes (http_request b64 dest au)) = (Inr (), s2)"
    "inp s2 = inp s" "out s2 = out s @ as_bytes (http_request b64 dest au)"
    using stream_write [OF net, of s1] s1 by auto
  obtain s3 m where s3: "out s3 = out s2" "m \<le> 1024" "inp s \<noteq> [] \<longrightarrow> 0 < m"
    "tcp_read net s2 1024 = (Inr (take m (inp s)), s3)" "inp s3 = drop m (inp s)"
    using stream_read [OF net, of s2 1024] s2(2) by auto
  then show ?thesis
    using s1 s2 by - (rule exI [of _ m], rule exI [of _ s3], simp add: http_connect_def http_dial_def)
qed

theorem http_connect_first_read_witness:
  "\<exists>m s'. sc_in s' = drop m [72, 84, 84, 80] \<and>
     snd (http_connect (\<lambda>x. x) script_net (SockV4 3 80) (SockV4 1 1) None
       (proxy_sends [72, 84, 84, 80])) = s'"
  using http_connect_first_read [OF script_stream, of "proxy_sends [72, 84, 84, 80]"
      "\<lambda>x. x" "SockV4 1 1" None "SockV4 3 80"] by (metis proxy_sends_def script.select_convs(1) snd_conv)

text \<open>
  C38. A proxy URL with an IPv4 or an IPv6 literal and an explicit port is accepted, with exactly this
  address, the protocol of its scheme, and the user information as the URL library hands it over. A
  URL whose port the library does not report, as it does for the scheme's default port, is rejected.
\<close>

theorem proxy_config_accepts:
  assumes u: "url_parse raw = Some u" and host: "url_host_str u = Some (url_host ip)"
    and "parse_protocol (url_scheme u) = Inr pr"
  shows "proxy_config_parse url_parse raw =
    (case url_port u of
       None \<Rightarrow> Inl (InvalidProxyUrl ''missing port'')
     | Some p \<Rightarrow>
         Inr \<lparr>pc_protocol = pr, pc_addr = socket_addr_new ip p,
              pc_auth = (if url_username u = [] then None
                         else Some (url_username u, case url_password u of Some pw \<Rightarrow> pw | None \<Rightarrow> []))\<rparr>)"
proof -
  have "parse_socket_addr (url_host ip @ '':'' @ show_nat (unat p)) = Some (socket_addr_new ip p)" for p :: u16
    using parse_show_socket_addr [of "socket_addr_new ip p"] by (cases ip) simp_all
  then show ?thesis using assms
    by (simp add: proxy_config_parse_def ok_or_def Let_def del: show_nat.simps split: option.splits)
qed

theorem proxy_config_accepts_witness:
  "proxy_config_parse (\<lambda>raw. Some \<lparr>url_scheme = ''socks5'', url_host_str = Some (url_host (IpV6 1)),
       url_port = Some 1080, url_username = [], url_password = None\<rparr>) ''socks5://[::1]:1080'' =
     Inr \<lparr>pc_protocol = Socks5, pc_addr = SockV6 1 1080 0 0, pc_auth = None\<rparr>"
  using proxy_config_accepts [of "\<lambda>raw. Some \<lparr>url_scheme = ''socks5'', url_host_str = Some (url_host (IpV6 1)),
       url_port = Some 1080, url_username = [], url_password = None\<rparr>" "''socks5://[::1]:1080''" _
       "IpV6 1" Socks5]
  by (simp add: parse_protocol_def)

end
