(* ===== verification/Local_Proxy.thy ===== *)
theory Local_Proxy
  imports Tracker Upstream "HOL-Library.Sublist"
begin

text \<open>
  \<open>src/proxy/local.rs\<close>: the local proxy that redirected connections reach. A client is
  handled by finding the socket's inode from the connection's two ends, looking its original
  destination up in the tracker's table, first by inode, then by the process and descriptor that own
  the inode, up to three times, opening a tunnel to it through the upstream proxy and relaying bytes
  both ways.

  The table is shared with the tracer. Attempt \<open>i\<close> sees \<open>views i\<close>: the proc
  file system when \<open>/proc/net/tcp\<close> is read, without the lock, then proc file system and
  table while the lock is held. The relay is a \<open>select!\<close> over two copies: the list
  \<open>polls\<close> says in which order the runtime polls them; a relay that is not finished by
  then is \<open>None\<close>. Its outcome is logged and does not change the result. Log messages are
  not modelled. The functions of this theory are the runs in which every call of the dialogue with the
  upstream proxy returns; \<open>proxy_dial\<close> is the dialogue itself. The theory
  \<open>Proxy_Tasks\<close> runs many clients at once, and there a call may stay pending.
\<close>

section \<open>The code\<close>

type_synonym proxy_view = "procfs \<times> procfs \<times> tracker"

definition match_inode :: "procfs \<Rightarrow> tracker \<Rightarrow> string option \<Rightarrow> socket_addr option" where
  "match_inode fs t found =
     (case found of
        None \<Rightarrow> None
      | Some inode \<Rightarrow>
          (case get_by_inode t inode of
             Some info \<Rightarrow> Some (si_dest info)
           | None \<Rightarrow>
               (case find_pid_fd_by_inode fs inode of
                  None \<Rightarrow> None
                | Some (pid, fd) \<Rightarrow> map_option si_dest (get_by_pid_fd t pid fd))))"

definition scan_conn :: "procfs \<Rightarrow> socket_addr \<Rightarrow> socket_addr \<Rightarrow> string option" where
  "scan_conn fs client server =
     find_inode_by_conn fs (sa_ip client) (sa_port client) (sa_ip server) (sa_port server)"

definition lookup_dest :: "socket_addr \<Rightarrow> socket_addr \<Rightarrow> proxy_view \<Rightarrow> socket_addr option" where
  "lookup_dest client server v =
     (case v of (scan_fs, fs, t) \<Rightarrow> match_inode fs t (scan_conn scan_fs client server))"

fun first_dest :: "socket_addr \<Rightarrow> socket_addr \<Rightarrow> proxy_view list \<Rightarrow> socket_addr option" where
  "first_dest client server [] = None"
| "first_dest client server (v # vs) =
     (case lookup_dest client server v of
        Some dest \<Rightarrow> Some dest
      | None \<Rightarrow> first_dest client server vs)"

definition proxy_dial ::
  "(string \<Rightarrow> string) \<Rightarrow> 's tcp \<Rightarrow> proxy_config \<Rightarrow> socket_addr \<Rightarrow> 's dialogue" where
  "proxy_dial b64 net proxy dest =
     (case pc_protocol proxy of
        HttpConnect \<Rightarrow> http_dial b64 net (pc_addr proxy) dest (pc_auth proxy)
      | Socks5 \<Rightarrow> socks5_dial net (pc_addr proxy) dest (pc_auth proxy))"

definition dial ::
  "(string \<Rightarrow> string) \<Rightarrow> 's tcp \<Rightarrow> proxy_config \<Rightarrow> socket_addr \<Rightarrow> 's \<Rightarrow> (error + unit) \<times> 's" where
  "dial b64 net proxy dest s = complete (proxy_dial b64 net proxy dest) s"

lemma dial_cases:
  "dial b64 net proxy dest s =
     (case pc_protocol proxy of
        HttpConnect \<Rightarrow> http_connect b64 net (pc_addr proxy) dest (pc_auth proxy) s
      | Socks5 \<Rightarrow> socks5_connect net (pc_addr proxy) dest (pc_auth proxy) s)"
  by (simp add: dial_def proxy_dial_def http_connect_def socks5_connect_def split: proxy_protocol.splits)

lemma proxy_dial_ends: "ends_within 9 (proxy_dial b64 net proxy dest)"
  by (simp add: proxy_dial_def ends_mono [OF http_dial_ends] socks5_dial_ends split: proxy_protocol.splits)

fun relay :: "'s tcp \<Rightarrow> copy_dir list \<Rightarrow> 's \<Rightarrow> (copy_dir \<times> (io_error + nat)) option \<times> 's" where
  "relay net [] s = (None, s)"
| "relay net (d # polls) s =
     (case tcp_copy net s d of
        (Some r, s1) \<Rightarrow> (Some (d, r), s1)
      | (None, s1) \<Rightarrow> relay net polls s1)"

definition proxy_connection ::
  "(string \<Rightarrow> string) \<Rightarrow> 's tcp \<Rightarrow> copy_dir list \<Rightarrow> proxy_config \<Rightarrow> socket_addr \<Rightarrow> 's \<Rightarrow>
     (error + unit) option \<times> 's" where
  "proxy_connection b64 net polls proxy dest s =
     (case dial b64 net proxy dest s of
        (Inl e, s1) \<Rightarrow> (Some (Inl e), s1)
      | (Inr _, s1) \<Rightarrow>
          (case relay net polls s1 of (ended, s2) \<Rightarrow> (map_option (\<lambda>_. Inr ()) ended, s2)))"

definition handle_client ::
  "(string \<Rightarrow> string) \<Rightarrow> 's tcp \<Rightarrow> io_error + socket_addr \<Rightarrow> socket_addr \<Rightarrow> (nat \<Rightarrow> proxy_view) \<Rightarrow>
     copy_dir list \<Rightarrow> proxy_config \<Rightarrow> 's \<Rightarrow> (error + unit) option \<times> 's" where
  "handle_client b64 net local_addr client_addr views polls proxy s =
     (case local_addr of
        Inl e \<Rightarrow> (Some (Inl (Io e)), s)
      | Inr server_addr \<Rightarrow>
          (case first_dest client_addr server_addr (map views [0..<3]) of
             None \<Rightarrow> (Some (Inr ()), s)
           | Some dest \<Rightarrow> proxy_connection b64 net polls proxy dest s))"

section \<open>Lookups\<close>

lemma match_inode_known: "match_inode fs t found = Some dest \<Longrightarrow> dest \<in> known_dests t"
  by (auto simp: match_inode_def get_by_inode_def get_by_pid_fd_def known_dests_def ran_def
      split: option.splits)

lemma lookup_dest_by_inode:
  "scan_conn scan_fs client server = Some i \<Longrightarrow> get_by_inode t i = Some info \<Longrightarrow>
     lookup_dest client server (scan_fs, fs, t) = Some (si_dest info)"
  by (simp add: lookup_dest_def match_inode_def)

lemma scan_conn_rows:
  assumes "open_lines fs ''/proc/net/tcp'' = Some (header # map Inr texts)"
    and "map split_whitespace texts = map row_fields rows" and "list_all row_ok rows"
    and "find (\<lambda>row. row_local row = (cip, cport) \<and> row_remote row = (sip, sport) \<and> row_inode row \<noteq> ''0'') rows = Some row"
  shows "scan_conn fs (SockV4 cip cport) (SockV4 sip sport) = Some (row_inode row)"
  using scan_tcp_rows [OF assms(2,3)] assms(1,4) by (simp add: scan_conn_def find_inode_by_conn_def)

section \<open>Documented behaviour of the copies\<close>

text \<open>
  For each direction, \<open>src d s\<close> is what its source sends and is not read yet,
  \<open>held d s\<close> what the copy has read and not written, \<open>dst d s\<close> what was
  written to its sink. A poll moves bytes in order, does not touch the other direction, and a copy
  ends without an error only when its source has ended and everything is written.
\<close>

definition copies ::
  "'s tcp \<Rightarrow> (copy_dir \<Rightarrow> 's \<Rightarrow> u8 list) \<Rightarrow> (copy_dir \<Rightarrow> 's \<Rightarrow> u8 list) \<Rightarrow> (copy_dir \<Rightarrow> 's \<Rightarrow> u8 list) \<Rightarrow> bool" where
  "copies net src held dst \<longleftrightarrow>
     (\<forall>s d r s'. tcp_copy net s d = (r, s') \<longrightarrow>
        (\<exists>w. dst d s' = dst d s @ w \<and> held d s @ src d s = w @ held d s' @ src d s') \<and>
        (\<forall>d'. d' \<noteq> d \<longrightarrow> dst d' s' = dst d' s \<and> held d' s' = held d' s \<and> src d' s' = src d' s) \<and>
        (\<forall>n. r = Some (Inr n) \<longrightarrow> held d s' = [] \<and> src d s' = []))"

text \<open>The client's stream is another object than the upstream stream: dialogues do not touch it.\<close>

definition upstream_calls_keep :: "'s tcp \<Rightarrow> ('s \<Rightarrow> 'a) \<Rightarrow> bool" where
  "upstream_calls_keep net f \<longleftrightarrow>
     (\<forall>s a. f (snd (tcp_connect net s a)) = f s) \<and> (\<forall>s bs. f (snd (tcp_write_all net s bs)) = f s) \<and>
     (\<forall>s n. f (snd (tcp_read_exact net s n)) = f s) \<and> (\<forall>s n. f (snd (tcp_read net s n)) = f s)"

definition client_side ::
  "(copy_dir \<Rightarrow> 's \<Rightarrow> u8 list) \<Rightarrow> (copy_dir \<Rightarrow> 's \<Rightarrow> u8 list) \<Rightarrow> (copy_dir \<Rightarrow> 's \<Rightarrow> u8 list) \<Rightarrow> 's \<Rightarrow>
     u8 list \<times> u8 list \<times> (copy_dir \<Rightarrow> u8 list)" where
  "client_side src held dst s = (src ToProxy s, dst ToClient s, \<lambda>d. held d s)"

definition two_streams ::
  "'s tcp \<Rightarrow> (copy_dir \<Rightarrow> 's \<Rightarrow> u8 list) \<Rightarrow> (copy_dir \<Rightarrow> 's \<Rightarrow> u8 list) \<Rightarrow> (copy_dir \<Rightarrow> 's \<Rightarrow> u8 list) \<Rightarrow> bool" where
  "two_streams net src held dst \<longleftrightarrow>
     byte_stream net (src ToClient) (dst ToProxy) \<and> copies net src held dst \<and>
     upstream_calls_keep net (client_side src held dst)"

lemma copy_poll:
  assumes "copies net src held dst" and "tcp_copy net s d = (r, s')"
  shows "\<exists>w. dst e s' = dst e s @ w \<and> held e s @ src e s = w @ held e s' @ src e s'"
    and "e \<noteq> d \<Longrightarrow> dst e s' = dst e s \<and> held e s' = held e s \<and> src e s' = src e s"
    and "r = Some (Inr n) \<Longrightarrow> held d s' = [] \<and> src d s' = []"
  using assms unfolding copies_def by (metis append_Nil append_Nil2)+

lemma relay_moves:
  assumes "copies net src held dst"
  shows "relay net polls s = (r, s') \<Longrightarrow>
    \<exists>w. dst d s' = dst d s @ w \<and> held d s @ src d s = w @ held d s' @ src d s'"
proof (induction polls arbitrary: s)
  case (Cons e polls)
  obtain q s1 where poll: "tcp_copy net s e = (q, s1)" by fastforce
  obtain w where w: "dst d s1 = dst d s @ w" "held d s @ src d s = w @ held d s1 @ src d s1"
    using copy_poll(1) [OF assms poll] by blast
  show ?case
  proof (cases q)
    case None
    then obtain v where "dst d s' = dst d s1 @ v" "held d s1 @ src d s1 = v @ held d s' @ src d s'"
      using Cons poll by fastforce
    then show ?thesis using w by (intro exI [of _ "w @ v"]) simp
  next
    case (Some x)
    then show ?thesis using Cons.prems poll w by auto
  qed
qed auto

lemma relay_finished:
  assumes "copies net src held dst"
  shows "relay net polls s = (Some (d, Inr n), s') \<Longrightarrow> held d s' = [] \<and> src d s' = []"
  by (induction polls arbitrary: s)
    (auto split: prod.splits option.splits dest: copy_poll(3) [OF assms])

section \<open>Calls on the upstream stream keep the client's\<close>

primrec dialogue_keeps :: "('s \<Rightarrow> 'a) \<Rightarrow> 's dialogue \<Rightarrow> bool" where
  "dialogue_keeps f (Done r) = True"
| "dialogue_keeps f (Await step next) = ((\<forall>s. f (step s) = f s) \<and> (\<forall>s. dialogue_keeps f (next s)))"

lemma dialogue_keeps_complete: "dialogue_keeps f p \<Longrightarrow> f (snd (complete p s)) = f s"
  by (induction p arbitrary: s) auto

lemma dialogue_keeps_and_then: "dialogue_keeps f p \<Longrightarrow> dialogue_keeps f q \<Longrightarrow> dialogue_keeps f (and_then p q)"
  by (induction p) (auto split: sum.splits)

lemma dialogue_keeps_await:
  "(\<And>s. f (snd (call s)) = f s) \<Longrightarrow> (\<And>x. dialogue_keeps f (g x)) \<Longrightarrow> dialogue_keeps f (await_pc call g)"
  by (auto simp: await_pc_def split: sum.splits)

lemma dial_keeps:
  assumes "upstream_calls_keep net f"
  shows "f (snd (dial b64 net proxy dest s)) = f s"
proof -
  have k: "f (snd (tcp_connect net s a)) = f s" "f (snd (tcp_write_all net s bs)) = f s"
    "f (snd (tcp_read_exact net s n)) = f s" "f (snd (tcp_read net s n)) = f s" for s a bs n
    using assms by (simp_all add: upstream_calls_keep_def)
  have "dialogue_keeps f (socks5_negotiate net au m)" for au m
    by (auto simp: socks5_negotiate_def socks5_auth_def k intro!: dialogue_keeps_await split: option.splits)
  moreover have "dialogue_keeps f (socks5_reply net)"
    by (auto simp: socks5_reply_def discard_bound_def k intro!: dialogue_keeps_await)
  ultimately have "dialogue_keeps f (socks5_dial net a dest au)" for a au
    by (auto simp: socks5_dial_def k intro!: dialogue_keeps_await dialogue_keeps_and_then)
  moreover have "dialogue_keeps f (http_dial b64 net a dest au)" for a au
    by (auto simp: http_dial_def k intro!: dialogue_keeps_await)
  ultimately have "dialogue_keeps f (proxy_dial b64 net proxy dest)"
    by (simp add: proxy_dial_def split: proxy_protocol.splits)
  then show ?thesis by (simp add: dial_def dialogue_keeps_complete)
qed

text \<open>
  After a dialogue that opened the tunnel, the two sinks hold what the dialogue sent and first bytes of
  what the sources send.
\<close>

lemma tunnel_bytes:
  assumes io: "two_streams net src held dst" and dial: "dial b64 net proxy dest s = (Inr (), s1)"
    and s1: "src ToClient s1 = tunnel" "dst ToProxy s1 = dst ToProxy s @ sent"
    and idle: "\<And>d. held d s = []"
    and run: "proxy_connection b64 net polls proxy dest s = (r, s')"
  shows "(r = None \<or> r = Some (Inr ())) \<and>
    (\<exists>up. prefix up (src ToProxy s) \<and> dst ToProxy s' = dst ToProxy s @ sent @ up) \<and>
    (\<exists>down. prefix down tunnel \<and> dst ToClient s' = dst ToClient s @ down)"
proof -
  obtain q where q: "relay net polls s1 = (q, s')" "r = map_option (\<lambda>_. Inr ()) q"
    using run dial by (auto simp: proxy_connection_def split: prod.splits)
  have "client_side src held dst s1 = client_side src held dst s"
    using dial_keeps [of net "client_side src held dst" b64 proxy dest s] io dial by (simp add: two_streams_def)
  then have c: "src ToProxy s1 = src ToProxy s" "dst ToClient s1 = dst ToClient s" "held d s1 = []" for d
    using idle by (auto simp: client_side_def dest: fun_cong [where x = d])
  have "copies net src held dst" using io by (simp add: two_streams_def)
  note moves = relay_moves [OF this q(1)]
  obtain up where "dst ToProxy s' = dst ToProxy s @ sent @ up" "src ToProxy s = up @ held ToProxy s' @ src ToProxy s'"
    using moves [of ToProxy] c s1 by auto
  moreover obtain down where "dst ToClient s' = dst ToClient s @ down" "tunnel = down @ held ToClient s' @ src ToClient s'"
    using moves [of ToClient] c s1 by auto
  ultimately show ?thesis using q(2) by (cases q) (auto simp: prefix_def)
qed

lemma script_two_streams:
  "two_streams script_net (\<lambda>d. case d of ToProxy \<Rightarrow> sc_client_in | ToClient \<Rightarrow> sc_in) (\<lambda>d s. [])
     (\<lambda>d. case d of ToProxy \<Rightarrow> sc_out | ToClient \<Rightarrow> sc_client_out)"
  unfolding two_streams_def copies_def upstream_calls_keep_def client_side_def
  using script_stream
  by (auto simp: script_net_def split: copy_dir.splits if_splits elim!: script_copy.elims)

section \<open>Properties\<close>

text \<open>
  C4. The relay, for every order in which the runtime polls the two copies. In each direction the
  sink receives the source's bytes in order, without loss or duplication so far. When a direction
  ends without an error, all its bytes have been delivered. But the relay ends with the first
  direction that ends: when one is finished already and is polled first, nothing of what the other
  side has sent is delivered any more.
\<close>

theorem relay_bytes:
  assumes io: "copies net src held dst" and run: "relay net polls s = (r, s')"
  shows "(\<forall>d. \<exists>w. dst d s' = dst d s @ w \<and> held d s @ src d s = w @ held d s' @ src d s') \<and>
    (\<forall>d n. r = Some (d, Inr n) \<longrightarrow> dst d s' = dst d s @ held d s @ src d s) \<and>
    (\<forall>d rest n. polls = d # rest \<and> fst (tcp_copy net s d) = Some (Inr n) \<longrightarrow>
       r = Some (d, Inr n) \<and> (\<forall>e. e \<noteq> d \<longrightarrow> dst e s' = dst e s))"
proof (intro conjI allI impI)
  show moves: "\<exists>w. dst d s' = dst d s @ w \<and> held d s @ src d s = w @ held d s' @ src d s'" for d
    by (rule relay_moves [OF io run])
  show "dst d s' = dst d s @ held d s @ src d s" if "r = Some (d, Inr n)" for d n
    using moves [of d] relay_finished [OF io, of polls s d n s'] run that by auto
next
  fix d rest n
  assume *: "polls = d # rest \<and> fst (tcp_copy net s d) = Some (Inr n)"
  then have poll: "tcp_copy net s d = (Some (Inr n), s')" and r: "r = Some (d, Inr n)"
    using run by (cases "tcp_copy net s d"; simp)+
  show "r = Some (d, Inr n)" by (rule r)
  show "dst e s' = dst e s" if "e \<noteq> d" for e using copy_poll(2) [OF io poll that] by simp
qed

theorem relay_bytes_witness:
  "relay script_net [ToProxy, ToClient] \<lparr>sc_in = [1, 2], sc_out = [], sc_client_in = [], sc_client_out = []\<rparr> =
     (Some (ToProxy, Inr 0), \<lparr>sc_in = [1, 2], sc_out = [], sc_client_in = [], sc_client_out = []\<rparr>) \<and>
   relay script_net [ToProxy, ToClient, ToClient]
     \<lparr>sc_in = [1, 2], sc_out = [], sc_client_in = [3], sc_client_out = []\<rparr> =
     (Some (ToClient, Inr 2), \<lparr>sc_in = [], sc_out = [3], sc_client_in = [], sc_client_out = [1, 2]\<rparr>)"
proof -
  let ?src = "\<lambda>d. case d of ToProxy \<Rightarrow> sc_client_in | ToClient \<Rightarrow> sc_in"
  let ?dst = "\<lambda>d. case d of ToProxy \<Rightarrow> sc_out | ToClient \<Rightarrow> sc_client_out"
  let ?s = "\<lparr>sc_in = [1, 2], sc_out = [], sc_client_in = [], sc_client_out = []\<rparr>"
  obtain r s' where run: "relay script_net [ToProxy, ToClient] ?s = (r, s')" by fastforce
  have io: "copies script_net ?src (\<lambda>d s. []) ?dst" using script_two_streams by (simp add: two_streams_def)
  note ends = relay_bytes [OF io run, THEN conjunct2, THEN conjunct2, THEN spec [of _ ToProxy]]
  have "r = Some (ToProxy, Inr 0)" using ends by (simp add: script_net_def)
  then show ?thesis using run by (auto simp: script_net_def)
qed

end
