(* ===== verification/Program.thy ===== *)
theory Program
  imports Seccomp Trace_Loop Local_Proxy "HOL-Library.Sublist"
begin

text \<open>
  The program around the tracer: \<open>src/env.rs\<close> (the proxy variables of the environment),
  \<open>src/cli.rs\<close> (the parsed command line; the parser itself is generated by the
  \<open>clap\<close> library), \<open>fork_exec\<close> of \<open>src/tracer/ptrace.rs\<close> and
  \<open>src/main.rs\<close>.

  The steps of \<open>main\<close> that ask the operating system or a library are the record
  \<open>main_io\<close>; the background task of the local proxy is the subject of the theory
  \<open>Local_Proxy\<close>. Log messages are not modelled. What
  \<open>prctl\<close> answers to the child's request for a signal at the tracer's death is ignored, as
  in the code.
\<close>

section \<open>Environment\<close>

type_synonym environ = "string \<rightharpoonup> string"

definition PROXY_ENV_VARS :: "string list" where
  "PROXY_ENV_VARS =
     [''http_proxy'', ''HTTP_PROXY'', ''https_proxy'', ''HTTPS_PROXY'', ''all_proxy'', ''ALL_PROXY'',
      ''no_proxy'', ''NO_PROXY'']"

record proxy_env_cleanup =
  ignored_vars :: "string list"

definition has_ignored_vars :: "proxy_env_cleanup \<Rightarrow> bool" where
  "has_ignored_vars c = (ignored_vars c \<noteq> [])"

fun clear_vars :: "string list \<Rightarrow> string list \<Rightarrow> environ \<Rightarrow> string list \<times> environ" where
  "clear_vars [] ignored env = (ignored, env)"
| "clear_vars (key # keys) ignored env =
     (if env key \<noteq> None then clear_vars keys (ignored @ [key]) (env(key := None))
      else clear_vars keys ignored env)"

definition clear_proxy_env :: "environ \<Rightarrow> proxy_env_cleanup \<times> environ" where
  "clear_proxy_env env =
     (case clear_vars PROXY_ENV_VARS [] env of (ignored, env') \<Rightarrow> (\<lparr>ignored_vars = ignored\<rparr>, env'))"

section \<open>Starting the child\<close>

record 'c child_calls = "'c prctl_calls" +
  setpgid_self :: "'c \<Rightarrow> (errno + unit) \<times> 'c"
  set_pdeathsig_kill :: "'c \<Rightarrow> (errno + unit) \<times> 'c"
  traceme :: "'c \<Rightarrow> (errno + unit) \<times> 'c"
  raise_sigstop :: "'c \<Rightarrow> (errno + unit) \<times> 'c"
  execvp :: "'c \<Rightarrow> string \<Rightarrow> string list \<Rightarrow> errno option \<times> 'c"

text \<open>How the child's part of \<open>fork_exec\<close> ends: a panic, an exit, or the new program.\<close>

datatype child_end = Panics string | Exits i32 | Runs string "string list"

definition nul_free :: "string \<Rightarrow> bool" where
  "nul_free s = (CHR 0x00 \<notin> set s)"

definition exec_target ::
  "'c child_calls \<Rightarrow> string \<Rightarrow> string list \<Rightarrow> 'c \<Rightarrow> child_end \<times> 'c" where
  "exec_target sys command args c =
     (if \<not> nul_free command \<or> \<not> list_all nul_free args then (Panics ''NulError'', c)
      else (case execvp sys c command (command # args) of
              (None, c1) \<Rightarrow> (Runs command (command # args), c1)
            | (Some _, c1) \<Rightarrow> (Exits 127, c1)))"

text \<open>The result of \<open>prctl(PR_SET_PDEATHSIG)\<close> is not looked at.\<close>

definition fork_child ::
  "'c child_calls \<Rightarrow> string \<Rightarrow> string list \<Rightarrow> bool \<Rightarrow> 'c \<Rightarrow> child_end \<times> 'c" where
  "fork_child sys command args use_seccomp c =
     (case setpgid_self sys c of
        (Inl _, c1) \<Rightarrow> (Panics ''setpgid failed'', c1)
      | (Inr _, c1) \<Rightarrow>
          (case set_pdeathsig_kill sys c1 of
             (_, c2) \<Rightarrow>
               (case traceme sys c2 of
                  (Inl _, c3) \<Rightarrow> (Panics ''ptrace TRACEME failed'', c3)
                | (Inr _, c3) \<Rightarrow>
                    (case raise_sigstop sys c3 of
                       (Inl _, c4) \<Rightarrow> (Panics ''raise SIGSTOP failed'', c4)
                     | (Inr _, c4) \<Rightarrow>
                         if use_seccomp
                         then (case install_filter (prctl_calls.truncate sys) c4 of
                                 (Inl _, c5) \<Rightarrow> (Exits 127, c5)
                               | (Inr _, c5) \<Rightarrow> exec_target sys command args c5)
                         else exec_target sys command args c4))))"

definition fork_exec :: "errno + i32 \<Rightarrow> error + i32" where
  "fork_exec forked = map_err Fork forked"

section \<open>The main function\<close>

record cli_args =
  arg_proxy :: string
  arg_disable_ipv6 :: bool
  arg_no_proxy :: "string list"
  arg_allow_ipv6_compat :: bool
  arg_verbose :: bool
  arg_debug :: bool
  arg_command :: string
  arg_args :: "string list"

definition log_filter :: "cli_args \<Rightarrow> string" where
  "log_filter a = (if arg_debug a then ''debug'' else if arg_verbose a then ''info'' else ''warn'')"

record main_io =
  runtime_new :: "io_error + unit"
  bind_local :: "io_error + unit"
  bound_local :: "io_error + socket_addr"
  uname_release :: "string option"
  forked :: "errno + i32"

datatype main_end = Main_Err error | Main_Exit i32

definition run_child ::
  "'k os \<Rightarrow> 'k \<Rightarrow> trace_config \<Rightarrow> main_end option" where
  "run_child os k cfg =
     (case run_tracer os k tracker_new cfg of
        None \<Rightarrow> None
      | Some (Inl e, _) \<Rightarrow> Some (Main_Err e)
      | Some (Inr c, _) \<Rightarrow> Some (Main_Exit c))"

text \<open>The steps of \<open>main\<close> after the environment has been cleared, up to the tracer's configuration.\<close>

definition main_setup ::
  "(string \<Rightarrow> url option) \<Rightarrow> main_io \<Rightarrow> cli_args \<Rightarrow> no_proxy \<Rightarrow> error + trace_config" where
  "main_setup url_parse io args np =
     rbind (proxy_config_parse url_parse (arg_proxy args)) (\<lambda>proxy.
     rbind (map_err Io (runtime_new io)) (\<lambda>_.
     rbind (map_err Io (bind_local io)) (\<lambda>_.
     rbind (map_err Io (bound_local io)) (\<lambda>laddr.
     rbind (fork_exec (forked io)) (\<lambda>child.
       Inr \<lparr>tc_child = child, tc_local = laddr, tc_proxy = pc_addr proxy, tc_no_proxy = np,
            tc_disable_ipv6 = (arg_disable_ipv6 args \<and> \<not> arg_allow_ipv6_compat args),
            tc_seccomp = is_available (uname_release io)\<rparr>)))))"

text \<open>
  What \<open>main\<close> does with the command line and its own environment, which the child
  inherits when it is forked.
\<close>

definition main_config ::
  "(string \<Rightarrow> io_error + socket_addr list) \<Rightarrow> (string \<Rightarrow> url option) \<Rightarrow> main_io \<Rightarrow> cli_args \<Rightarrow> environ \<Rightarrow>
     (error + trace_config) \<times> environ" where
  "main_config resolve url_parse io args env =
     (case no_proxy_parse resolve (arg_no_proxy args) of
        Inl e \<Rightarrow> (Inl e, env)
      | Inr np \<Rightarrow> (main_setup url_parse io args np, snd (clear_proxy_env env)))"

definition main_fn ::
  "(string \<Rightarrow> io_error + socket_addr list) \<Rightarrow> (string \<Rightarrow> url option) \<Rightarrow> main_io \<Rightarrow> 'k os \<Rightarrow> 'k \<Rightarrow>
     cli_args \<Rightarrow> environ \<Rightarrow> main_end option" where
  "main_fn resolve url_parse io os k args env =
     (case main_config resolve url_parse io args env of
        (Inl e, _) \<Rightarrow> Some (Main_Err e)
      | (Inr cfg, _) \<Rightarrow> run_child os k cfg)"

text \<open>
  The status the process ends with: a \<open>main\<close> that returns an error ends with status 1, and
  \<open>process::exit\<close> passes its argument.
\<close>

fun process_status :: "main_end \<Rightarrow> i32" where
  "process_status (Main_Err e) = 1"
| "process_status (Main_Exit c) = c"

lemma clear_vars_spec:
  assumes "distinct keys"
  shows "clear_vars keys ignored env =
    (ignored @ filter (\<lambda>key. env key \<noteq> None) keys, env |` (- set keys))"
  using assms
proof (induction keys arbitrary: ignored env)
  case Nil
  then show ?case by (simp add: restrict_map_def)
next
  case (Cons key keys)
  then have "key \<notin> set keys" "distinct keys" by simp_all
  then have "filter (\<lambda>k. (env(key := None)) k \<noteq> None) keys = filter (\<lambda>k. env k \<noteq> None) keys"
    by (intro filter_cong) auto
  then show ?case
    using Cons.IH [OF \<open>distinct keys\<close>] by (auto simp: restrict_map_def fun_eq_iff)
qed

lemma clear_proxy_env_eq:
  "clear_proxy_env env =
     (\<lparr>ignored_vars = filter (\<lambda>key. env key \<noteq> None) PROXY_ENV_VARS\<rparr>, env |` (- set PROXY_ENV_VARS))"
proof -
  have "distinct PROXY_ENV_VARS" by (simp add: PROXY_ENV_VARS_def)
  from clear_vars_spec [OF this] show ?thesis by (simp add: clear_proxy_env_def)
qed

lemma main_config_Inr:
  "main_config resolve url_parse io args env = (Inr cfg, env') \<Longrightarrow>
     tc_disable_ipv6 cfg = (arg_disable_ipv6 args \<and> \<not> arg_allow_ipv6_compat args) \<and>
     bound_local io = Inr (tc_local cfg) \<and> forked io = Inr (tc_child cfg) \<and>
     no_proxy_parse resolve (arg_no_proxy args) = Inr (tc_no_proxy cfg) \<and>
     env' = env |` (- set PROXY_ENV_VARS)"
  by (auto simp: main_config_def main_setup_def rbind_eq_Inr fork_exec_def clear_proxy_env_eq
      split: sum.splits)

lemma main_fn_ends:
  assumes "finite_events os left" and awake: "\<And>cfg. never_stuck os k tracker_new cfg"
  shows "\<exists>r. main_fn resolve url_parse io os k args env = Some r"
proof -
  have "\<exists>r. run_child os k cfg = Some r" for cfg
    using run_tracer_ends [OF assms(1) awake, of cfg]
    by (auto simp: run_child_def split: sum.splits)
  then show ?thesis by (auto simp: main_fn_def split: sum.splits prod.splits)
qed

section \<open>What the child does before the program\<close>

text \<open>
  The calls of the child, for a system whose state keeps a record of the calls it was asked for and of
  whether they succeeded. \<open>child_script\<close> is the order in which a child starts the program.
\<close>

datatype child_event =
    Set_Pgid
  | Set_Pdeathsig
  | Trace_Me
  | Stop_Self
  | No_New_Privs
  | Set_Filter "sock_filter list"
  | Exec string "string list"

definition child_script :: "string \<Rightarrow> string list \<Rightarrow> bool \<Rightarrow> child_event list" where
  "child_script command args use_seccomp =
     [Set_Pgid, Set_Pdeathsig, Trace_Me, Stop_Self] @
     (if use_seccomp then [No_New_Privs, Set_Filter seccomp_filter] else []) @
     [Exec command (command # args)]"

definition records_calls :: "'c child_calls \<Rightarrow> ('c \<Rightarrow> (child_event \<times> bool) list) \<Rightarrow> bool" where
  "records_calls sys log =
     (\<forall>c. log (snd (setpgid_self sys c)) = log c @ [(Set_Pgid, is_ok (fst (setpgid_self sys c)))] \<and>
        log (snd (set_pdeathsig_kill sys c)) = log c @ [(Set_Pdeathsig, is_ok (fst (set_pdeathsig_kill sys c)))] \<and>
        log (snd (traceme sys c)) = log c @ [(Trace_Me, is_ok (fst (traceme sys c)))] \<and>
        log (snd (raise_sigstop sys c)) = log c @ [(Stop_Self, is_ok (fst (raise_sigstop sys c)))] \<and>
        log (snd (no_new_privs sys c)) = log c @ [(No_New_Privs, is_ok (fst (no_new_privs sys c)))] \<and>
        (\<forall>f. log (snd (set_seccomp sys c f)) = log c @ [(Set_Filter f, is_ok (fst (set_seccomp sys c f)))]) \<and>
        (\<forall>p av. log (snd (execvp sys c p av)) = log c @ [(Exec p av, fst (execvp sys c p av) = None)]))"

lemma recorded_call:
  assumes "records_calls sys log"
  shows "setpgid_self sys c = (r, c') \<Longrightarrow> log c' = log c @ [(Set_Pgid, is_ok r)]"
    and "set_pdeathsig_kill sys c = (r, c') \<Longrightarrow> log c' = log c @ [(Set_Pdeathsig, is_ok r)]"
    and "traceme sys c = (r, c') \<Longrightarrow> log c' = log c @ [(Trace_Me, is_ok r)]"
    and "raise_sigstop sys c = (r, c') \<Longrightarrow> log c' = log c @ [(Stop_Self, is_ok r)]"
    and "no_new_privs sys c = (r, c') \<Longrightarrow> log c' = log c @ [(No_New_Privs, is_ok r)]"
    and "set_seccomp sys c f = (r, c') \<Longrightarrow> log c' = log c @ [(Set_Filter f, is_ok r)]"
    and "execvp sys c p av = (x, c') \<Longrightarrow> log c' = log c @ [(Exec p av, x = None)]"
  using assms unfolding records_calls_def by (metis fst_conv snd_conv)+

text \<open>Every call of a record was made only when those before it had succeeded, \<open>PR_SET_PDEATHSIG\<close> excepted.\<close>

definition call_succeeded :: "child_event \<times> bool \<Rightarrow> bool" where
  "call_succeeded call = (snd call \<or> fst call = Set_Pdeathsig)"

definition stops_at_failure :: "(child_event \<times> bool) list \<Rightarrow> bool" where
  "stops_at_failure l = list_all call_succeeded (butlast l)"

lemma exec_target_log:
  assumes "records_calls sys log" and "exec_target sys command args c = (r, c')"
  shows "(case r of
      Runs p av \<Rightarrow> p = command \<and> av = command # args \<and> log c' = log c @ [(Exec command (command # args), True)]
    | Exits n \<Rightarrow> n = 127 \<and> log c' = log c @ [(Exec command (command # args), False)]
    | Panics m \<Rightarrow> m = ''NulError'' \<and> log c' = log c)"
  using assms(2) recorded_call(7) [OF assms(1)]
  by (auto simp: exec_target_def split: if_splits prod.splits option.splits)

lemma install_filter_log:
  assumes "records_calls sys log" and "install_filter (prctl_calls.truncate sys) c = (r, c')"
  shows "log c' \<in> (if is_ok r then {log c @ [(No_New_Privs, True), (Set_Filter seccomp_filter, True)]}
    else {log c @ [(No_New_Privs, False)], log c @ [(No_New_Privs, True), (Set_Filter seccomp_filter, False)]})"
  using assms(2) recorded_call(5,6) [OF assms(1)]
  by (auto simp: install_filter_def prctl_calls.truncate_def is_ok_def split: prod.splits sum.splits)

section \<open>Properties\<close>

text \<open>
  C29. The program that is traced never runs untraced. The child of \<open>fork_exec\<close> makes
  its calls in one fixed order: its own process group, the signal at the tracer's death,
  \<open>PTRACE_TRACEME\<close>, the stop in which the tracer sets its options, with seccomp the two
  calls that install the filter, and the program itself, under the given name and arguments. It makes
  each of them only when those before have succeeded, except that it does not look at whether the
  signal at the tracer's death could be set. When the program runs, all have succeeded, this one
  perhaps excepted; otherwise the child ends with a panic or with status 127, because its last call
  failed or an argument contains a zero byte.
\<close>

theorem child_starts_traced:
  assumes log: "records_calls sys log" and run: "fork_child sys command args use_seccomp c = (r, c')"
  shows "\<exists>l. log c' = log c @ l \<and> prefix (map fst l) (child_script command args use_seccomp) \<and> stops_at_failure l \<and>
    (case r of
       Runs p av \<Rightarrow> p = command \<and> av = command # args \<and> map fst l = child_script command args use_seccomp \<and>
         list_all call_succeeded l \<and> (Trace_Me, True) \<in> set l
     | Exits n \<Rightarrow> n = 127 \<and> \<not> snd (last l)
     | Panics m \<Rightarrow> m = ''NulError'' \<or> \<not> snd (last l))"
proof -
  note exec = exec_target_log [OF log, of command args]
  obtain r1 c1 where c1: "setpgid_self sys c = (r1, c1)" by fastforce
  obtain r2 c2 where c2: "set_pdeathsig_kill sys c1 = (r2, c2)" by fastforce
  obtain r3 c3 where c3: "traceme sys c2 = (r3, c3)" by fastforce
  obtain r4 c4 where c4: "raise_sigstop sys c3 = (r4, c4)" by fastforce
  obtain r5 c5 where c5: "install_filter (prctl_calls.truncate sys) c4 = (r5, c5)" by fastforce
  note calls = recorded_call [OF log]
  have logs: "log c1 = log c @ [(Set_Pgid, is_ok r1)]" "log c3 = log c1 @ [(Set_Pdeathsig, is_ok r2), (Trace_Me, is_ok r3)]"
    "log c4 = log c3 @ [(Stop_Self, is_ok r4)]"
    using calls(1) [OF c1] calls(2) [OF c2] calls(3) [OF c3] calls(4) [OF c4] by simp_all
  note steps = fork_child_def c1 c2 c3 c4 c5
  note ends = child_script_def stops_at_failure_def call_succeeded_def
  consider "\<not> is_ok r1" | "is_ok r1" "\<not> is_ok r3" | "is_ok r1" "is_ok r3" "\<not> is_ok r4"
    | "is_ok r1" "is_ok r3" "is_ok r4" by blast
  then show ?thesis
  proof cases
    case 1
    then have "r = Panics ''setpgid failed''" "c' = c1"
      using run by (auto simp: steps is_ok_def split: sum.splits)
    then show ?thesis using logs 1 by (simp add: ends)
  next
    case 2
    then have "r = Panics ''ptrace TRACEME failed''" "c' = c3"
      using run by (auto simp: steps is_ok_def split: sum.splits)
    then show ?thesis using logs 2 by (simp add: ends)
  next
    case 3
    then have "r = Panics ''raise SIGSTOP failed''" "c' = c4"
      using run by (auto simp: steps is_ok_def split: sum.splits)
    then show ?thesis using logs 3 by (simp add: ends)
  next
    case 4
    show ?thesis
    proof (cases "use_seccomp \<and> \<not> is_ok r5")
      case True
      then have "r = Exits 127" "c' = c5" using run 4 by (auto simp: steps is_ok_def split: sum.splits)
      then show ?thesis
        using install_filter_log [OF log c5] True logs 4 by (auto simp: ends)
    next
      case False
      then have "exec_target sys command args (if use_seccomp then c5 else c4) = (r, c')"
        using run 4 by (auto simp: steps is_ok_def split: sum.splits if_splits)
      from exec [OF this] show ?thesis
        using install_filter_log [OF log c5] False logs 4
        by (cases use_seccomp) (auto simp: ends split: child_end.splits)
    qed
  qed
qed

definition log_calls :: "(child_event \<times> bool) list child_calls" where
  "log_calls =
     \<lparr>no_new_privs = (\<lambda>c. (Inr (), c @ [(No_New_Privs, True)])),
      set_seccomp = (\<lambda>c f. (Inr (), c @ [(Set_Filter f, True)])),
      setpgid_self = (\<lambda>c. (Inr (), c @ [(Set_Pgid, True)])),
      set_pdeathsig_kill = (\<lambda>c. (Inl EINVAL, c @ [(Set_Pdeathsig, False)])),
      traceme = (\<lambda>c. (Inr (), c @ [(Trace_Me, True)])),
      raise_sigstop = (\<lambda>c. (Inr (), c @ [(Stop_Self, True)])),
      execvp = (\<lambda>c p av. (None, c @ [(Exec p av, True)]))\<rparr>"

theorem child_starts_traced_witness:
  "\<exists>l. fork_child log_calls ''curl'' [''-v''] True [] = (Runs ''curl'' [''curl'', ''-v''], l) \<and>
     map fst l = child_script ''curl'' [''-v''] True"
proof -
  have run: "fork_child log_calls ''curl'' [''-v''] True [] =
      (Runs ''curl'' [''curl'', ''-v''], snd (fork_child log_calls ''curl'' [''-v''] True []))"
    by (simp add: fork_child_def install_filter_def exec_target_def nul_free_def log_calls_def
        prctl_calls.truncate_def)
  moreover have "records_calls log_calls (\<lambda>c. c)" by (simp add: records_calls_def log_calls_def)
  ultimately show ?thesis using child_starts_traced [OF _ run, of "\<lambda>c. c"] by auto
qed

text \<open>
  C30. The program ends, when the traced programs produce finitely many events and
  \<open>waitpid\<close> does not block for ever in the loop: with the status of the tracer, run on
  the configuration of the command line, or with an error, whose status is 1 whatever
  \<open>exit_code\<close> says of it. When the tracer runs, the environment the child inherited has
  none of the eight proxy variables and every other variable as it was. With a proxy URL that does
  not parse, for which \<open>exit_code\<close> is 2, it ends with status 1 before anything is
  started.
\<close>

theorem main_ends_with_status:
  assumes fin: "finite_events os left" and awake: "\<And>cfg. never_stuck os k tracker_new cfg"
  shows "\<exists>r. main_fn resolve url_parse io os k args env = Some r \<and>
    (case r of
       Main_Exit c \<Rightarrow> \<exists>cfg env' st. main_config resolve url_parse io args env = (Inr cfg, env') \<and>
         run_tracer os k tracker_new cfg = Some (Inr c, st) \<and> process_status r = c \<and>
         tc_disable_ipv6 cfg = (arg_disable_ipv6 args \<and> \<not> arg_allow_ipv6_compat args) \<and>
         env' = env |` (- set PROXY_ENV_VARS)
     | Main_Err e \<Rightarrow> process_status r = 1) \<and>
    (no_proxy_parse resolve (arg_no_proxy args) = Inr np \<and> url_parse (arg_proxy args) = None \<longrightarrow>
       r = Main_Err (InvalidProxyUrl (arg_proxy args)) \<and>
       exit_code (InvalidProxyUrl (arg_proxy args)) = 2)"
proof -
  obtain r where r: "main_fn resolve url_parse io os k args env = Some r"
    using main_fn_ends [OF fin awake] by blast
  obtain res env' where conf: "main_config resolve url_parse io args env = (res, env')" by fastforce
  have "\<exists>cfg st. res = Inr cfg \<and> run_tracer os k tracker_new cfg = Some (Inr c, st)" if "r = Main_Exit c" for c
    using r that conf by (auto simp: main_fn_def run_child_def split: sum.splits option.splits)
  then have "\<exists>cfg env' st. main_config resolve url_parse io args env = (Inr cfg, env') \<and>
      run_tracer os k tracker_new cfg = Some (Inr c, st) \<and>
      tc_disable_ipv6 cfg = (arg_disable_ipv6 args \<and> \<not> arg_allow_ipv6_compat args) \<and>
      env' = env |` (- set PROXY_ENV_VARS)" if "r = Main_Exit c" for c
    using that conf main_config_Inr [of resolve url_parse io args env _ env'] by fastforce
  moreover have "r = Main_Err (InvalidProxyUrl (arg_proxy args))"
    if "no_proxy_parse resolve (arg_no_proxy args) = Inr np" "url_parse (arg_proxy args) = None"
    using r that by (simp add: main_fn_def main_config_def main_setup_def proxy_config_parse_def ok_or_def)
  ultimately show ?thesis using r by (intro exI [of _ r]) (auto split: main_end.splits)
qed

theorem main_ends_with_status_witness:
  "main_fn (\<lambda>h. Inr []) (\<lambda>raw. None)
     \<lparr>runtime_new = Inr (), bind_local = Inr (), bound_local = Inr (SockV4 0x7F000001 9999),
      uname_release = None, forked = Inr 7\<rparr> sample_os sample_state
     \<lparr>arg_proxy = ''x'', arg_disable_ipv6 = False, arg_no_proxy = [], arg_allow_ipv6_compat = False,
      arg_verbose = False, arg_debug = False, arg_command = ''sh'', arg_args = []\<rparr>
     [''HTTP_PROXY'' \<mapsto> ''http://10.0.0.1:3128''] = Some (Main_Err (InvalidProxyUrl ''x''))"
  (is "main_fn ?resolve ?url ?io ?os ?k ?args ?env = _")
proof -
  have "no_proxy_parse ?resolve (arg_no_proxy ?args) = Inr empty_no_proxy"
    by (simp add: no_proxy_parse_def)
  then show ?thesis
    using main_ends_with_status [OF sample_events sample_never_stuck, of ?resolve ?url ?io ?k ?args ?env empty_no_proxy] by simp
qed

end
