(* ===== verification/Trace_Runs.thy ===== *)
theory Trace_Runs
  imports Trace_Loop
begin

text \<open>
  Sequences of passes of the trace loop of \<open>src/tracer/trace_loop.rs\<close>: every stop that
  \<open>waitpid\<close> reports is answered within its pass, and what the entry of a call leaves to
  be done at its exit is done there, however many passes about other tasks lie in between. Stops that are
  found by polling are the exception. \<open>pass_report\<close> is the report a pass handles, and
  \<open>at_report\<close> the state in which it does.
\<close>

section \<open>Passes that go on\<close>

text \<open>
  The report that a pass of the loop takes from \<open>waitpid\<close>, \<open>None\<close> when that
  blocks for ever, and the reports of several passes.
\<close>

definition pass_report :: "'k os \<Rightarrow> trace_config \<Rightarrow> 'k tracer \<Rightarrow> (errno + wait_status) option" where
  "pass_report os cfg st =
     map_option fst (wait_for_tracee os (t_kern (update_shutdown_state os cfg (prune_gone_tracees os st))))"

inductive passes ::
  "'k os \<Rightarrow> trace_config \<Rightarrow> 'k tracer \<Rightarrow> (errno + wait_status) list \<Rightarrow> 'k tracer \<Rightarrow> bool" for os cfg where
  none: "passes os cfg st [] st"
| one_more: "passes os cfg st ws st1 \<Longrightarrow> pass_report os cfg st1 = Some w \<Longrightarrow>
    loop_step os cfg st1 = Continue st2 \<Longrightarrow> passes os cfg st (ws @ [w]) st2"

text \<open>The state in which a pass handles its report.\<close>

definition at_report :: "'k os \<Rightarrow> trace_config \<Rightarrow> 'k tracer \<Rightarrow> 'k tracer" where
  "at_report os cfg st =
     (let st2 = update_shutdown_state os cfg (prune_gone_tracees os st)
      in case wait_for_tracee os (t_kern st2) of None \<Rightarrow> st2 | Some (w, k) \<Rightarrow> st2\<lparr>t_kern := k\<rparr>)"

lemma loop_step_report:
  "pass_report os cfg st = Some w \<Longrightarrow> t_active (prune_gone_tracees os st) \<noteq> {} \<Longrightarrow>
     loop_step os cfg st = on_wait os cfg w (at_report os cfg st)"
  by (auto simp: loop_step_def at_report_def pass_report_def Let_def)

lemma loop_step_Continue:
  "loop_step os cfg st = Continue st' \<Longrightarrow> pass_report os cfg st = Some w \<Longrightarrow>
     on_wait os cfg w (at_report os cfg st) = Continue st'"
  by (auto simp: loop_step_def at_report_def pass_report_def Let_def split: if_splits)

lemma loop_step_reports: "loop_step os cfg st = Continue st' \<Longrightarrow> \<exists>w. pass_report os cfg st = Some w"
  by (auto simp: loop_step_def pass_report_def Let_def split: if_splits option.splits)

section \<open>Errors of the handlers\<close>

text \<open>The only error of a handler that the loop can take for the end of a task is that of \<open>get_regs\<close>.\<close>

lemma write_words_error: "write_words os pid a buf i n k = (Inl e, k') \<Longrightarrow> \<exists>x. e = Ptrace x"
proof (induction n arbitrary: i k)
  case (Suc n)
  then show ?case by (auto simp: Let_def split: prod.splits sum.splits)
qed simp

lemma write_sockaddr_error: "write_sockaddr os k pid a sa = (Inl e, k') \<Longrightarrow> \<exists>x. e = Ptrace x"
  using write_words_error [of os pid a "sockaddr_buf sa"]
  by (auto simp: write_sockaddr_def write_remainder_def Let_def split: prod.splits sum.splits if_splits)

lemma read_sockaddr_error:
  "read_sockaddr os k pid a len = Inl e \<Longrightarrow> (\<exists>x. e = MemoryRead x) \<or> (\<exists>f. e = UnknownAddressFamily f)"
  by (cases "vm_readv os k pid a sockaddr_size")
    (auto simp: read_sockaddr_def parse_sockaddr_def Let_def split: if_splits)

lemma set_regs_error: "set_regs_or_ptrace os pid regs h = (Inl e, h') \<Longrightarrow> \<exists>x. e = Ptrace x"
  by (auto simp: set_regs_or_ptrace_def map_err_eq_Inl split: prod.splits)

lemma connect_enter_error:
  assumes eq: "handle_connect_enter os cfg pid regs h = (Inl e, h')"
  shows "\<not> is_gone_error e"
proof (cases "read_sockaddr os (kern h) pid (rsi regs) (rdx regs)")
  case (Inl err)
  then show ?thesis using connect_enter_unread(1) [OF Inl eq] read_sockaddr_error [OF Inl] by auto
next
  case (Inr dest)
  show ?thesis
  proof (cases "connect_policy cfg dest (stream_socket os pid (connect_fd regs) h)")
    case Intercept
    obtain h2 where h2: "ensure_stream os pid (connect_fd regs) (connect_start h) = (True, h2)"
      "handle_connect_enter os cfg pid regs h =
        redirect_connect os cfg pid (connect_fd regs) (rsi regs) dest h2"
      using connect_enter_intercept [OF Inr Intercept] by blast
    note fx = ensure_stream_effect [OF h2(1), simplified]
    have "write_sockaddr os (kern h2) pid (rsi regs) (tc_local cfg) = (Inl e, kern h')"
      using redirect_connect_effect(2) [OF fx(5,6) eq [unfolded h2(2)]] by simp
    then show ?thesis using write_sockaddr_error by fastforce
  qed (use connect_enter_pass(1) [OF Inr _ eq] connect_enter_block(1) [OF Inr _ eq] in auto)
qed

lemma enter_error:
  assumes "handle_syscall_enter os cfg pid regs h = (Inl e, h')"
  shows "\<not> is_gone_error e"
proof -
  have "\<not> is_gone_error e" if "handle_clone_enter os pid regs h = (Inl e, h')"
    using that set_regs_error by (fastforce simp: handle_clone_enter_def Let_def split: if_splits option.splits)
  moreover have "\<not> is_gone_error e" if "handle_clone3_enter os pid regs h = (Inl e, h')"
    using that
    by (cases "vm_readv os (kern h) pid (syscall_arg regs 0) 8")
      (auto simp: handle_clone3_enter_def read_u64_def write_u64_def Let_def split: if_splits prod.splits sum.splits)
  ultimately show ?thesis using assms
    by (auto simp: handle_syscall_enter_def handle_socket_enter_def handle_close_enter_def Let_def
        dest: connect_enter_error split: if_splits)
qed

lemma exit_error:
  assumes "handle_syscall_exit os pid regs h = (Inl e, h')"
  shows "\<not> is_gone_error e"
  using assms write_sockaddr_error set_regs_error
  by (fastforce simp: handle_syscall_exit_def take_restore_def take_forced_errno_def Let_def
      split: prod.splits sum.splits option.splits)

lemma stop_error:
  assumes "handle_syscall_ptrace os cfg pid h = (Inl e, h')" and "is_gone_error e"
  shows "ptrace_getregs os (kern h) pid = Inl ESRCH \<and> h' = h"
  using assms
  by (auto simp: handle_syscall_ptrace_def get_regs_def map_err_eq_Inl is_esrch_io_def
      dest: enter_error exit_error split: sum.splits prod.splits syscall_phase.splits)

section \<open>Every stop is answered\<close>

lemma stop_reportsD:
  assumes "stop_reports os stopped"
  shows "os_step os k k' \<Longrightarrow> stopped k' \<subseteq> stopped k"
    and "wait_for_tracee os k = Some (w, k') \<Longrightarrow> stopped k' \<subseteq> stopped k \<union> stop_of w"
    and "ptrace_cont os k pid sig = (r, k') \<Longrightarrow> r \<in> {Inr (), Inl ESRCH} \<Longrightarrow> pid \<notin> stopped k'"
    and "ptrace_syscall os k pid sig = (r, k') \<Longrightarrow> r \<in> {Inr (), Inl ESRCH} \<Longrightarrow> pid \<notin> stopped k'"
    and "ptrace_getregs os k pid = Inl ESRCH \<Longrightarrow> pid \<notin> stopped k"
    and "ptrace_getsiginfo os k pid = Inl ESRCH \<Longrightarrow> pid \<notin> stopped k"
  using assms unfolding stop_reports_def by (metis fst_conv snd_conv)+

lemma stops_relation:
  assumes "stop_reports os stopped"
  shows "call_relation os cfg UNIV (\<lambda>st st'. stopped (t_kern st') \<subseteq> stopped (t_kern st))"
proof -
  note step = stop_reportsD(1) [OF assms]
  have steps: "stopped k' \<subseteq> stopped k" if "os_steps os k k'" for k k'
    using that by (induction rule: rtranclp_induct) (use step in blast)+
  have enter: "stopped (kern h) \<subseteq> stopped (t_kern st)"
    if "handle_syscall_enter os cfg pid regs (thread_ctx pid st) = (r, h)" for pid regs st r h
    using steps [OF enter_steps [of os "thread_ctx pid st" cfg pid regs]] that by simp
  have stop: "stopped (kern h) \<subseteq> stopped (t_kern st)"
    if "handle_syscall_ptrace os cfg pid (thread_ctx pid st) = (r, h)" for pid st r h
    using steps [OF ptrace_stop_steps [of os "thread_ctx pid st" cfg pid]] that by simp
  show ?thesis
    by unfold_locales (auto simp: deliver_kern put_ctx_def cleanup_dead_tracee_def
        dest: step enter stop step [OF os_step.signals, THEN subsetD])
qed

lemma resume_answers:
  assumes rep: "stop_reports os stopped" and "resume_or_fail os cfg pid sig st = Continue st'"
  shows "pid \<notin> stopped (t_kern st')"
  using assms(2) stop_reportsD(3,4) [OF rep]
  by (auto simp: resume_or_fail_def resume_tracee_def Let_def is_esrch_nix_def cleanup_dead_tracee_def
      split: prod.splits sum.splits if_splits)

lemma wait_answers:
  assumes rep: "stop_reports os stopped" and "pid \<in> stop_of w" and "on_wait os cfg w st = Continue st'"
  shows "pid \<notin> stopped (t_kern st')"
proof -
  note ans = resume_answers [OF rep]
  have seccomp: "pid \<notin> stopped (t_kern st')" if "on_seccomp_event os cfg pid st = Continue st'" for st
    using that ans
    by (auto simp: on_seccomp_event_def Let_def dest: enter_error split: sum.splits prod.splits if_splits)
  have stop: "pid \<notin> stopped (t_kern st')" if "on_syscall_stop os cfg pid st = Continue st'"
    using that ans stop_reportsD(5) [OF rep]
    by (auto simp: on_syscall_stop_def Let_def cleanup_dead_tracee_def put_ctx_def
        dest!: stop_error split: sum.splits prod.splits if_splits)
  have signal: "pid \<notin> stopped (t_kern st')" if "on_signal_stop os cfg pid sig st = Continue st'" for sig
    using that ans stop_reportsD(6) [OF rep]
    by (auto simp: on_signal_stop_def is_esrch_nix_def cleanup_dead_tracee_def split: sum.splits if_splits)
  show ?thesis
    using assms(2,3) ans seccomp stop signal
    by (cases w rule: stop_of.cases)
      (auto simp: on_ptrace_event_def on_sigstop_def Let_def split: if_splits sum.splits)
qed

lemma pass_answers:
  assumes rep: "stop_reports os stopped" and cont: "loop_step os cfg st = Continue st'"
    and w: "pass_report os cfg st = Some w" "w \<noteq> Inl EINVAL"
  shows "stopped (t_kern st') \<subseteq> stopped (t_kern st)"
proof -
  note rel = stops_relation [OF rep, of cfg] and on = loop_step_Continue [OF cont w(1)]
  let ?st2 = "update_shutdown_state os cfg (prune_gone_tracees os st)"
  let ?k = "t_kern (at_report os cfg st)"
  have "wait_for_tracee os (t_kern ?st2) = Some (w, ?k)"
    using w(1) by (auto simp: at_report_def pass_report_def Let_def)
  moreover have "stopped (t_kern ?st2) \<subseteq> stopped (t_kern st)"
    using rel by (rule call_relation.before_wait)
  ultimately have "stopped ?k \<subseteq> stopped (t_kern st) \<union> stop_of w"
    using stop_reportsD(2) [OF rep] by blast
  moreover have "stopped (t_kern st') \<subseteq> stopped ?k"
  proof (cases "is_gone w")
    case True
    then show ?thesis using on
      by (cases w rule: is_gone.cases)
        (auto simp: on_gone_def cleanup_dead_tracee_def Let_def split: if_splits)
  next
    case False
    then show ?thesis using call_relation.waited_call [OF rel False w(2), of "at_report os cfg st"] on by simp
  qed
  moreover have "pid \<notin> stopped (t_kern st')" if "pid \<in> stop_of w" for pid
    using rep that on by (rule wait_answers)
  ultimately show ?thesis by blast
qed

text \<open>When \<open>waitpid\<close> blocks only while a reported stop is unanswered, it does not block in the loop.\<close>

lemma answered_not_stuck:
  assumes rep: "stop_reports os stopped" and blocks: "\<And>k. wait_for_tracee os k = None \<Longrightarrow> stopped k \<noteq> {}"
    and "stopped (t_kern st) = {}"
  shows "loop_step os cfg st \<noteq> Hang st'"
proof
  assume hang: "loop_step os cfg st = Hang st'"
  have "stopped (t_kern (update_shutdown_state os cfg (prune_gone_tracees os st))) \<subseteq> stopped (t_kern st)"
    using stops_relation [OF rep, of cfg] by (rule call_relation.before_wait)
  then show False using loop_step_Hang [OF hang] blocks [of "t_kern st'"] assms(3) by auto
qed

lemma install_actions_steps: "os_steps os k (snd (install_actions os sigs k))"
proof (induction sigs arbitrary: k)
  case (Cons sig sigs)
  show ?case
    using os_steps_trans [OF r_into_rtranclp [where r = "os_step os", OF os_step.sigaction, of k sig] Cons.IH]
    by (auto split: prod.splits sum.splits intro: r_into_rtranclp [where r = "os_step os"])
      (metis os_step.sigaction r_into_rtranclp snd_conv)+
qed simp

lemma never_stuck_answered:
  assumes rep: "stop_reports os stopped" and blocks: "\<And>k. wait_for_tracee os k = None \<Longrightarrow> stopped k \<noteq> {}"
    and valid: "\<And>k k'. wait_for_tracee os k \<noteq> Some (Inl EINVAL, k')" and none: "stopped k = {}"
  shows "never_stuck os k t cfg"
proof -
  have "stopped (t_kern st) = {}" if "in_loop os k t cfg st" for st
    using that
  proof (induction rule: in_loop.induct)
    case (started st)
    obtain k1 where k1: "install_actions os [SIGINT, SIGTERM, SIGHUP] k = (Inr (), k1)"
      "t_kern st = snd (delivered_signals os k1)"
      using started by (auto simp: install_shutdown_handlers_def tracer_start_def deliver_kern split: prod.splits sum.splits)
    have "os_steps os k k1" using install_actions_steps [of os k "[SIGINT, SIGTERM, SIGHUP]"] k1(1) by simp
    then have "os_steps os k (t_kern st)" unfolding k1(2) using os_step.signals by (rule rtranclp.rtrancl_into_rtrancl)
    then have "stopped (t_kern st) \<subseteq> stopped k"
      by (induction rule: rtranclp_induct) (use stop_reportsD(1) [OF rep] in blast)+
    then show ?case using none by simp
  next
    case (passed st st')
    obtain w where w: "pass_report os cfg st = Some w" using loop_step_reports [OF passed.hyps(2)] by blast
    have "w \<noteq> Inl EINVAL" using w valid by (auto simp: pass_report_def)
    then show ?case using pass_answers [OF rep passed.hyps(2) w] passed.IH by simp
  qed
  then show ?thesis using answered_not_stuck [OF rep blocks] by (simp add: never_stuck_def)
qed

section \<open>A thread between its stops\<close>

text \<open>Passes about other tasks leave the state of a thread as it is, or drop the thread.\<close>

interpretation kept: poll_relation os cfg "- {pid}" "\<lambda>st st'. t_threads st' pid \<in> {t_threads st pid, None}"
  for os :: "'k os" and cfg :: trace_config and pid :: i32
  by unfold_locales (auto simp: deliver_keeps put_ctx_def cleanup_dead_tracee_def)

lemma gone_keeps_thread:
  "is_gone w \<Longrightarrow> t_threads (outcome_state (on_wait os cfg w st)) pid \<in> {t_threads st pid, None}"
  by (cases w rule: is_gone.cases) (auto simp: on_gone_def cleanup_dead_tracee_def Let_def)

lemma at_report_keeps_thread: "t_threads (at_report os cfg st) pid \<in> {t_threads st pid, None}"
  using kept.before_wait [where pid = pid and st = st and os = os and cfg = cfg] by (auto simp: at_report_def Let_def split: option.splits)

lemma pass_keeps_thread:
  assumes "loop_step os cfg st = Continue st'" and w: "pass_report os cfg st = Some w" and "pid \<notin> stop_of w"
  shows "t_threads st' pid \<in> {t_threads st pid, None}"
proof -
  let ?s = "at_report os cfg st"
  have "t_threads (outcome_state (on_wait os cfg w ?s)) pid \<in> {t_threads ?s pid, None}"
    using kept.waited_poll [where pid = pid and w = w and st = ?s and os = os and cfg = cfg] gone_keeps_thread assms(3) by blast
  then show ?thesis using loop_step_Continue [OF assms(1) w] at_report_keeps_thread [of os cfg st pid] by auto
qed

lemma passes_keep_thread:
  "passes os cfg st ws st' \<Longrightarrow> \<forall>w \<in> set ws. pid \<notin> stop_of w \<Longrightarrow> t_threads st' pid \<in> {t_threads st pid, None}"
proof (induction rule: passes.induct)
  case (one_more st ws st1 w st2)
  then show ?case using pass_keeps_thread [OF one_more.hyps(3,2), of pid] by auto
qed simp

section \<open>From the entry of a call to its exit\<close>

lemma resume_tracee_kept:
  assumes "resume_or_fail os cfg pid sig st = Continue st'" and "t_threads st' pid \<noteq> None"
  shows "t_threads st' = t_threads st"
    and "(if tc_seccomp cfg \<and> (\<forall>s. t_threads st pid = Some s \<longrightarrow> phase s \<noteq> Exiting)
      then ptrace_cont os (t_kern st) pid sig else ptrace_syscall os (t_kern st) pid sig) = (Inr (), t_kern st')"
  using assms
  by (auto simp: resume_or_fail_def resume_tracee_def Let_def cleanup_dead_tracee_def
      split: prod.splits sum.splits if_splits option.splits)

lemma seccomp_entry:
  assumes on: "on_wait os cfg (Inr (PtraceEvent pid sig PTRACE_EVENT_SECCOMP)) st = Continue st'"
    and act: "pid \<in> t_active st" and kept: "t_threads st' pid \<noteq> None"
    and regs: "ptrace_getregs os (t_kern st) pid = Inr regs"
  obtains h where "handle_syscall_enter os cfg pid regs (thread_ctx pid st) = (Inr (), h)"
    and "t_threads st' pid = Some ((tstate h)\<lparr>phase := Exiting\<rparr>)"
    and "ptrace_syscall os (kern h) pid None = (Inr (), t_kern st')"
proof -
  obtain r h where h: "handle_syscall_enter os cfg pid regs (thread_ctx pid st) = (r, h)" by fastforce
  let ?put = "put_ctx pid (h\<lparr>tstate := (tstate h)\<lparr>phase := Exiting\<rparr>\<rparr>) st"
  have "r = Inr () \<and> resume_or_fail os cfg pid None ?put = Continue st'"
    using on act regs h
    by (cases r) (auto simp: on_ptrace_event_def on_seccomp_event_def get_regs_def Let_def
        dest: enter_error split: if_splits)
  then show ?thesis
    using that [of h] h resume_tracee_kept [of os cfg pid None ?put st'] kept
    by (auto simp: put_ctx_def)
qed

text \<open>The two ways in which the entry of a call is reported, with and without a seccomp filter.\<close>

definition entry_report :: "i32 \<Rightarrow> 'k tracer \<Rightarrow> (errno + wait_status) option \<Rightarrow> bool" where
  "entry_report pid st w \<longleftrightarrow>
     (\<exists>sig. w = Some (Inr (PtraceEvent pid sig PTRACE_EVENT_SECCOMP)) \<and> pid \<in> t_active st) \<or>
     w = Some (Inr (PtraceSyscall pid)) \<and> phase (tstate (thread_ctx pid st)) = Entering"

lemma syscall_entry:
  assumes on: "on_wait os cfg (Inr (PtraceSyscall pid)) st = Continue st'"
    and ph: "phase (tstate (thread_ctx pid st)) = Entering" and kept: "t_threads st' pid \<noteq> None"
    and regs: "ptrace_getregs os (t_kern st) pid = Inr regs"
  obtains h where "handle_syscall_enter os cfg pid regs (thread_ctx pid st) = (Inr (), h)"
    and "t_threads st' pid = Some ((tstate h)\<lparr>phase := Exiting\<rparr>)"
    and "ptrace_syscall os (kern h) pid None = (Inr (), t_kern st')"
proof -
  let ?s = "st\<lparr>t_active := insert pid (t_active st)\<rparr>"
  have ctx: "thread_ctx pid ?s = thread_ctx pid st" by (simp add: thread_ctx_def)
  obtain r h where h: "handle_syscall_enter os cfg pid regs (thread_ctx pid st) = (r, h)" by fastforce
  let ?put = "put_ctx pid (h\<lparr>tstate := (tstate h)\<lparr>phase := Exiting\<rparr>\<rparr>) ?s"
  have "r = Inr () \<and> resume_or_fail os cfg pid None ?put = Continue st'"
    using on regs h ph
    by (cases r) (auto simp: on_syscall_stop_def handle_syscall_ptrace_def get_regs_def ctx Let_def
        dest: enter_error split: if_splits)
  then show ?thesis
    using that [of h] h resume_tracee_kept [of os cfg pid None ?put st'] kept
    by (auto simp: put_ctx_def)
qed

lemma reported_entry:
  assumes rep: "entry_report pid (at_report os cfg st) (pass_report os cfg st)" and step: "loop_step os cfg st = Continue st'"
    and kept: "t_threads st' pid \<noteq> None" and regs: "ptrace_getregs os (t_kern (at_report os cfg st)) pid = Inr regs"
  obtains h where "handle_syscall_enter os cfg pid regs (thread_ctx pid (at_report os cfg st)) = (Inr (), h)"
    and "t_threads st' pid = Some ((tstate h)\<lparr>phase := Exiting\<rparr>)"
    and "ptrace_syscall os (kern h) pid None = (Inr (), t_kern st')"
proof -
  obtain w where w: "pass_report os cfg st = Some w" using loop_step_reports [OF step] by blast
  note on = loop_step_Continue [OF step w]
  consider sig where "w = Inr (PtraceEvent pid sig PTRACE_EVENT_SECCOMP)" "pid \<in> t_active (at_report os cfg st)"
    | "w = Inr (PtraceSyscall pid)" "phase (tstate (thread_ctx pid (at_report os cfg st))) = Entering"
    using rep w by (auto simp: entry_report_def)
  then show ?thesis
  proof cases
    case 1
    show ?thesis using seccomp_entry [OF on [unfolded 1(1)] 1(2) kept regs] that .
  next
    case 2
    show ?thesis using syscall_entry [OF on [unfolded 2(1)] 2(2) kept regs] that .
  qed
qed

text \<open>An entry whose handler fails with such an error ends the loop.\<close>

lemma failed_entry:
  assumes rep: "entry_report pid (at_report os cfg st) (pass_report os cfg st)"
    and left: "t_active (prune_gone_tracees os st) \<noteq> {}"
    and regs: "ptrace_getregs os (t_kern (at_report os cfg st)) pid = Inr regs"
    and enter: "handle_syscall_enter os cfg pid regs (thread_ctx pid (at_report os cfg st)) = (Inl e, h)"
  shows "\<exists>st'. loop_step os cfg st = Fail e st' \<and> t_active (at_report os cfg st) \<subseteq> t_active st'"
proof -
  let ?s = "at_report os cfg st"
  let ?t = "?s\<lparr>t_active := insert pid (t_active ?s)\<rparr>"
  have ctx: "thread_ctx pid ?t = thread_ctx pid ?s" by (simp add: thread_ctx_def)
  have e: "\<not> is_gone_error e" by (rule enter_error [OF enter])
  consider sig where "pass_report os cfg st = Some (Inr (PtraceEvent pid sig PTRACE_EVENT_SECCOMP))" "pid \<in> t_active ?s"
    | "pass_report os cfg st = Some (Inr (PtraceSyscall pid))" "phase (tstate (thread_ctx pid ?s)) = Entering"
    using rep by (auto simp: entry_report_def)
  then show ?thesis
  proof cases
    case 1
    then show ?thesis using loop_step_report [OF 1(1) left] regs enter e
      by (simp add: on_ptrace_event_def on_seccomp_event_def get_regs_def put_ctx_def Let_def)
  next
    case 2
    then show ?thesis using loop_step_report [OF 2(1) left] regs enter e
      by (auto simp: on_syscall_stop_def handle_syscall_ptrace_def get_regs_def ctx put_ctx_def Let_def)
  qed
qed

lemma syscall_exit:
  assumes on: "on_wait os cfg (Inr (PtraceSyscall pid)) st = Continue st'"
    and kept: "t_threads st' pid \<noteq> None" and regs: "ptrace_getregs os (t_kern st) pid = Inr regs"
    and s: "t_threads st pid = Some s" "phase s = Exiting"
  obtains h where "handle_syscall_exit os pid regs (thread_ctx pid st) = (Inr (), h)"
    and "t_threads st' pid = Some ((tstate h)\<lparr>phase := Entering\<rparr>)"
    and "(if tc_seccomp cfg then ptrace_cont else ptrace_syscall) os (kern h) pid None = (Inr (), t_kern st')"
proof -
  let ?s = "st\<lparr>t_active := insert pid (t_active st)\<rparr>"
  have ctx: "thread_ctx pid ?s = thread_ctx pid st" "phase (tstate (thread_ctx pid st)) = Exiting"
    using s by (simp_all add: thread_ctx_def)
  obtain r h where h: "handle_syscall_exit os pid regs (thread_ctx pid st) = (r, h)" by fastforce
  let ?put = "put_ctx pid (h\<lparr>tstate := (tstate h)\<lparr>phase := Entering\<rparr>\<rparr>) ?s"
  have "r = Inr () \<and> resume_or_fail os cfg pid None ?put = Continue st'"
    using on regs h
    by (cases r) (auto simp: on_syscall_stop_def handle_syscall_ptrace_def get_regs_def ctx Let_def
        dest: exit_error split: if_splits)
  then show ?thesis
    using that [of h] h resume_tracee_kept [of os cfg pid None ?put st'] kept
    by (auto simp: put_ctx_def split: if_splits)
qed

section \<open>Sample passes\<close>

lemma sample_pass:
  assumes "sk_fs (t_kern st) = empty_fs" "sk_signals (t_kern st) = []" "t_signal st = 0" "t_active st \<noteq> {}"
  shows "pass_report sample_os cfg st = Some (fst (sample_wait (t_kern st)))"
    and "at_report sample_os cfg st = st\<lparr>t_kern := snd (sample_wait (t_kern st))\<rparr>"
    and "loop_step sample_os cfg st =
      on_wait sample_os cfg (fst (sample_wait (t_kern st))) (st\<lparr>t_kern := snd (sample_wait (t_kern st))\<rparr>)"
proof -
  have prune: "prune_gone_tracees sample_os st = st"
    using assms(1) by (simp add: prune_gone_tracees_def sample_os_def empty_fs_def Let_def)
  have "deliver_signals sample_os st = st"
    using assms(2) by (simp add: deliver_signals_def sample_os_def)
  then have update: "update_shutdown_state sample_os cfg st = st"
    using assms(3)
    by (simp add: update_shutdown_state_def pending_shutdown_signal_def shutdown_signal_of_def Let_def)
  show "pass_report sample_os cfg st = Some (fst (sample_wait (t_kern st)))"
    and "at_report sample_os cfg st = st\<lparr>t_kern := snd (sample_wait (t_kern st))\<rparr>"
    by (simp_all add: pass_report_def at_report_def prune update Let_def split: prod.splits)
  show "loop_step sample_os cfg st =
      on_wait sample_os cfg (fst (sample_wait (t_kern st))) (st\<lparr>t_kern := snd (sample_wait (t_kern st))\<rparr>)"
    using assms(4) by (simp add: loop_step_def prune update Let_def split: prod.splits)
qed

lemma sample_resume:
  "sk_resume (t_kern st) = Inr () \<Longrightarrow> resume_or_fail sample_os cfg pid sig st =
     Continue (st\<lparr>t_kern := (t_kern st)\<lparr>sk_stopped := sk_stopped (t_kern st) - {pid}\<rparr>\<rparr>)"
  by (auto simp: resume_or_fail_def resume_tracee_def sample_os_def Let_def split: prod.splits sum.splits)

lemma sample_getregs: "ptrace_getregs sample_os k pid = ok_or ESRCH (sk_regs k pid)"
  by (simp add: sample_os_def)

text \<open>A tracer whose only task, 7, is stopped at the entry of a \<open>connect\<close> and then at its exit.\<close>

definition connect_script :: "sample_kernel tracer" where
  "connect_script =
     tracer_start
       (sample_connect_state\<lparr>sk_waits := [Inr (PtraceEvent 7 5 7), Inr (PtraceSyscall 7)]\<rparr>)
       (tracker_new\<lparr>stream_fds := {(7, 5)}\<rparr>) sample_cfg"

lemma connect_script_kernel:
  "sk_fs sample_connect_state = empty_fs" "sk_signals sample_connect_state = []"
  "sk_resume sample_connect_state = Inr ()" "sk_regs sample_connect_state = [7 \<mapsto> sample_connect_regs]"
  by (simp_all add: sample_connect_state_def write_sockaddr_sample) (simp_all add: sample_state_def)

abbreviation script_entry :: "sample_kernel tracer" where
  "script_entry \<equiv> at_report sample_os sample_cfg connect_script"

lemma script_entry_state:
  "pass_report sample_os sample_cfg connect_script = Some (Inr (PtraceEvent 7 5 7))"
  "t_kern script_entry = sample_connect_state\<lparr>sk_waits := [Inr (PtraceSyscall 7)],
     sk_stopped := sk_stopped sample_connect_state \<union> {7}\<rparr>"
  "t_threads script_entry = Map.empty" "t_active script_entry = {7}" "t_signal script_entry = 0"
  "t_trk script_entry = tracker_new\<lparr>stream_fds := {(7, 5)}\<rparr>"
  "loop_step sample_os sample_cfg connect_script =
     on_wait sample_os sample_cfg (Inr (PtraceEvent 7 5 7)) script_entry"
  using sample_pass [of connect_script sample_cfg]
  by (simp_all add: connect_script_def tracer_start_def connect_script_kernel sample_wait_def sample_cfg_def)

lemma script_known: "known_stream sample_os 7 5 (thread_ctx 7 script_entry)"
  by (simp add: known_stream_def script_entry_state sample_tgid connect_script_kernel tracker_new_def)

lemma script_read: "read_sockaddr sample_os (t_kern script_entry) 7 4096 len = Inr sample_dest"
  using read_sockaddr_stored [OF sample_memory, of "t_kern script_entry" 7 "page_at 4096" 4096 sample_dest]
    sample_connect_mem readable_page [of 28 4096] by (simp add: script_entry_state sample_dest_def)

lemma script_entered:
  obtains h where "handle_syscall_enter sample_os sample_cfg 7 sample_connect_regs (thread_ctx 7 script_entry) = (Inr (), h)"
    and "tstate h = thread_state_default\<lparr>pending_restore := Some \<lparr>addr_ptr = 4096, restore_dest = sample_dest\<rparr>\<rparr>"
    and "kern h = snd (write_sockaddr sample_os (t_kern script_entry) 7 4096 (tc_local sample_cfg))"
    and "sk_mem (kern h) 7 = store_bytes (sk_mem sample_connect_state 7) 4096 (sockaddr_buf (tc_local sample_cfg))"
proof -
  let ?c = "thread_ctx 7 script_entry" and ?r = sample_connect_regs
  have fd: "connect_fd ?r = 5" "rsi ?r = 4096" by (simp_all add: sample_connect_regs_def)
  have pol: "connect_policy sample_cfg sample_dest (stream_socket sample_os 7 (connect_fd ?r) ?c) = Intercept"
    using script_known sample_policy by (simp add: fd stream_socket_def)
  have read: "read_sockaddr sample_os (kern ?c) 7 (rsi ?r) (rdx ?r) = Inr sample_dest"
    using script_read by (simp add: fd)
  obtain h2 where h2: "ensure_stream sample_os 7 (connect_fd ?r) (connect_start ?c) = (True, h2)"
    "handle_connect_enter sample_os sample_cfg 7 ?r ?c =
      redirect_connect sample_os sample_cfg 7 (connect_fd ?r) (rsi ?r) sample_dest h2"
    using connect_enter_intercept [OF read pol] by blast
  note fx = ensure_stream_effect [OF h2(1), simplified]
  have k2: "kern h2 = t_kern script_entry" using fx(2) script_known by (simp add: fd known_stream_def)
  have loc: "\<not> is_v6 (tc_local sample_cfg)" by (simp add: sample_cfg_def)
  have "readable (sk_mem (kern ?c) 7) (rsi ?r) 32"
    using sample_connect_readable by (simp add: script_entry_state fd)
  then obtain h where h: "handle_connect_enter sample_os sample_cfg 7 ?r ?c = (Inr (), h)"
    "tstate h = (tstate ?c)\<lparr>pending_restore := Some \<lparr>addr_ptr = rsi ?r, restore_dest = sample_dest\<rparr>\<rparr>"
    "sk_mem (kern h) 7 = store_bytes (sk_mem (kern ?c) 7) (rsi ?r) (sockaddr_buf (tc_local sample_cfg))"
    using connect_enter_redirects [OF sample_memory sample_pidfd_calls _ loc read pol] by auto
  have "(Inr (), kern h) = write_sockaddr sample_os (kern h2) 7 (rsi ?r) (tc_local sample_cfg)"
    using redirect_connect_effect(2) [OF fx(5,6) h(1) [unfolded h2(2)]] by simp
  then have "kern h = snd (write_sockaddr sample_os (t_kern script_entry) 7 4096 (tc_local sample_cfg))"
    by (simp add: k2 fd) (metis snd_conv)
  moreover have "handle_syscall_enter sample_os sample_cfg 7 ?r ?c = (Inr (), h)"
  proof -
    have "get_syscall_nr ?r = SYS_CONNECT" by (simp add: sample_connect_regs_def get_syscall_nr_def syscall_numbers)
    then show ?thesis using h(1) by (simp add: handle_syscall_enter_def syscall_numbers)
  qed
  moreover have "tstate ?c = thread_state_default" by (simp add: thread_ctx_def script_entry_state)
  ultimately show ?thesis using that [of h] h(2,3) by (simp add: fd script_entry_state)
qed

lemma script_first_pass:
  obtains st1 where "loop_step sample_os sample_cfg connect_script = Continue st1"
    and "t_threads st1 = [7 \<mapsto> thread_state_default\<lparr>phase := Exiting,
      pending_restore := Some \<lparr>addr_ptr = 4096, restore_dest = sample_dest\<rparr>\<rparr>]"
    and "t_active st1 = {7}" and "t_signal st1 = 0"
    and "sk_fs (t_kern st1) = empty_fs" "sk_signals (t_kern st1) = []" "sk_resume (t_kern st1) = Inr ()"
      "sk_regs (t_kern st1) = [7 \<mapsto> sample_connect_regs]" "sk_waits (t_kern st1) = [Inr (PtraceSyscall 7)]"
      "sk_mem (t_kern st1) 7 = store_bytes (sk_mem sample_connect_state 7) 4096 (sockaddr_buf (tc_local sample_cfg))"
proof (rule script_entered)
  fix h :: "sample_kernel hctx"
  let ?h = "h\<lparr>tstate := (tstate h)\<lparr>phase := Exiting\<rparr>\<rparr>" and ?s = script_entry
  assume h: "handle_syscall_enter sample_os sample_cfg 7 sample_connect_regs (thread_ctx 7 ?s) = (Inr (), h)"
    "tstate h = thread_state_default\<lparr>pending_restore := Some \<lparr>addr_ptr = 4096, restore_dest = sample_dest\<rparr>\<rparr>"
    "kern h = snd (write_sockaddr sample_os (t_kern ?s) 7 4096 (tc_local sample_cfg))"
    "sk_mem (kern h) 7 = store_bytes (sk_mem sample_connect_state 7) 4096 (sockaddr_buf (tc_local sample_cfg))"
  have k: "sk_fs (kern h) = empty_fs" "sk_signals (kern h) = []" "sk_resume (kern h) = Inr ()"
    "sk_regs (kern h) = [7 \<mapsto> sample_connect_regs]" "sk_waits (kern h) = [Inr (PtraceSyscall 7)]"
    unfolding h(3) write_sockaddr_sample script_entry_state by (simp_all add: connect_script_kernel)
  have "get_regs sample_os (t_kern ?s) 7 = Inr sample_connect_regs"
    by (simp add: get_regs_def sample_getregs script_entry_state connect_script_kernel ok_or_def)
  then have "on_wait sample_os sample_cfg (Inr (PtraceEvent 7 5 7)) ?s =
      resume_or_fail sample_os sample_cfg 7 None (put_ctx 7 ?h ?s)"
    using h(1) by (simp add: on_ptrace_event_def on_seccomp_event_def ptrace_events script_entry_state(4) Let_def)
  also have "\<dots> = Continue ((put_ctx 7 ?h ?s)\<lparr>t_kern := (kern h)\<lparr>sk_stopped := sk_stopped (kern h) - {7}\<rparr>\<rparr>)"
    using sample_resume [of "put_ctx 7 ?h ?s" sample_cfg 7 None] k(3) by (simp add: put_ctx_def)
  finally show thesis
    using that [of "(put_ctx 7 ?h ?s)\<lparr>t_kern := (kern h)\<lparr>sk_stopped := sk_stopped (kern h) - {7}\<rparr>\<rparr>"] h(2,4) k
    by (simp add: script_entry_state(3-5,7) put_ctx_def thread_state_default_def)
qed

lemma script_second_pass:
  assumes st1: "t_threads st1 = [7 \<mapsto> thread_state_default\<lparr>phase := Exiting,
      pending_restore := Some \<lparr>addr_ptr = 4096, restore_dest = sample_dest\<rparr>\<rparr>]"
      "t_active st1 = {7}" "t_signal st1 = 0"
      "sk_fs (t_kern st1) = empty_fs" "sk_signals (t_kern st1) = []" "sk_resume (t_kern st1) = Inr ()"
      "sk_regs (t_kern st1) = [7 \<mapsto> sample_connect_regs]" "sk_waits (t_kern st1) = [Inr (PtraceSyscall 7)]"
      "sk_mem (t_kern st1) 7 = store_bytes (sk_mem sample_connect_state 7) 4096 (sockaddr_buf (tc_local sample_cfg))"
  shows "pass_report sample_os sample_cfg st1 = Some (Inr (PtraceSyscall 7))"
    and "ptrace_getregs sample_os (t_kern (at_report sample_os sample_cfg st1)) 7 = Inr sample_connect_regs"
    and "sk_mem (t_kern (at_report sample_os sample_cfg st1)) 7 = sk_mem (t_kern st1) 7"
    and "t_threads (at_report sample_os sample_cfg st1) 7 \<noteq> None"
    and "\<exists>st3. loop_step sample_os sample_cfg st1 = Continue st3 \<and> t_threads st3 7 \<noteq> None"
proof -
  let ?s = "at_report sample_os sample_cfg st1"
  have s: "?s = st1\<lparr>t_kern := (t_kern st1)\<lparr>sk_waits := [], sk_stopped := sk_stopped (t_kern st1) \<union> {7}\<rparr>\<rparr>"
    "pass_report sample_os sample_cfg st1 = Some (Inr (PtraceSyscall 7))"
    "loop_step sample_os sample_cfg st1 = on_wait sample_os sample_cfg (Inr (PtraceSyscall 7)) ?s"
    using sample_pass [of st1 sample_cfg] st1 by (simp_all add: sample_wait_def)
  show "pass_report sample_os sample_cfg st1 = Some (Inr (PtraceSyscall 7))" by (rule s(2))
  show regs: "ptrace_getregs sample_os (t_kern ?s) 7 = Inr sample_connect_regs"
    by (simp add: sample_getregs s ok_or_def st1)
  show "sk_mem (t_kern ?s) 7 = sk_mem (t_kern st1) 7" and "t_threads ?s 7 \<noteq> None" by (simp_all add: s st1)
  let ?c = "thread_ctx 7 ?s"
  have c: "thread_ctx 7 (?s\<lparr>t_active := insert 7 (t_active ?s)\<rparr>) = ?c" by (simp add: thread_ctx_def)
  have "readable (sk_mem (kern ?c) 7) 4096 32"
    by (simp add: s st1(9)) (intro readable_store sample_connect_readable)
  then obtain k where k: "take_restore sample_os 7 ?c = (Inr (), ?c\<lparr>tstate := (tstate ?c)\<lparr>pending_restore := None\<rparr>, kern := k\<rparr>)"
    using take_restore_effect [OF sample_memory, of ?c 4096 sample_dest 7] by (auto simp: thread_ctx_def s st1)
  have "k = snd (write_sockaddr sample_os (t_kern ?s) 7 4096 sample_dest)"
    using k by (auto simp: take_restore_def thread_ctx_def s st1 split: prod.splits)
  then have res: "sk_resume k = Inr ()" by (simp add: write_sockaddr_sample(5) s st1)
  have "get_syscall_nr sample_connect_regs \<noteq> SYS_SOCKET"
    by (simp add: sample_connect_regs_def get_syscall_nr_def syscall_numbers)
  then have "handle_syscall_ptrace sample_os sample_cfg 7 ?c =
      (Inr (), ?c\<lparr>tstate := (tstate ?c)\<lparr>pending_restore := None, phase := Entering, forced_connect_errno := None\<rparr>, kern := k\<rparr>)"
    using k regs
    by (simp add: handle_syscall_ptrace_def get_regs_def handle_syscall_exit_def take_forced_errno_def
        thread_ctx_def s st1 thread_state_default_def)
  then show "\<exists>st3. loop_step sample_os sample_cfg st1 = Continue st3 \<and> t_threads st3 7 \<noteq> None"
    using res by (simp add: s(3) on_syscall_stop_def c sample_resume put_ctx_def Let_def)
qed

section \<open>Properties\<close>

text \<open>
  C6. Interception is transparent, over the passes of the loop, with and without a seccomp filter. A
  thread stops at the entry of a \<open>connect\<close> that is to be intercepted; the pass resumes
  it with the local proxy's address in its memory and so that the exit of the call will stop it, also
  when a seccomp filter is in use, where it could run on to its next reported call. Any passes follow
  that report no stop of this thread. When the exit is reported and the call has left the thread's
  memory as the entry did, the pass resumes the thread with its socket address reading as the
  original destination and every byte as it was before the call, but for the padding of a
  \<open>sockaddr_in\<close> and the flow information and scope of a \<open>sockaddr_in6\<close>,
  which have become zero; nothing is pending for the thread, and its next stop will be taken for an
  entry.
\<close>

theorem interception_across_passes:
  fixes os :: "'k os" and cfg :: trace_config and st0 st1 st2 st3 :: "'k tracer" and pid :: i32
  defines "s0 \<equiv> at_report os cfg st0" and "s2 \<equiv> at_report os cfg st2"
  assumes mem: "tracee_memory os mem pid" and keep: "pidfd_calls_keep os mem"
    and r: "readable (mem (t_kern s0) pid) (rsi regs) 32" and loc: "\<not> is_v6 (tc_local cfg)"
    and regs: "ptrace_getregs os (t_kern s0) pid = Inr regs" "get_syscall_nr regs = SYS_CONNECT"
    and read: "read_sockaddr os (t_kern s0) pid (rsi regs) (rdx regs) = Inr dest"
    and pol: "connect_policy cfg dest (stream_socket os pid (connect_fd regs) (thread_ctx pid s0)) = Intercept"
    and idle: "forced_connect_errno (tstate (thread_ctx pid s0)) = None"
    and entry: "(\<exists>sig. pass_report os cfg st0 = Some (Inr (PtraceEvent pid sig PTRACE_EVENT_SECCOMP)) \<and> pid \<in> t_active s0) \<or>
        pass_report os cfg st0 = Some (Inr (PtraceSyscall pid)) \<and> phase (tstate (thread_ctx pid s0)) = Entering"
      "loop_step os cfg st0 = Continue st1"
    and between: "passes os cfg st1 ws st2" "\<forall>w \<in> set ws. pid \<notin> stop_of w"
    and exit: "pass_report os cfg st2 = Some (Inr (PtraceSyscall pid))" "loop_step os cfg st2 = Continue st3"
    and alive: "t_threads s2 pid \<noteq> None" "t_threads st3 pid \<noteq> None"
    and regs': "ptrace_getregs os (t_kern s2) pid = Inr regs'" "get_syscall_nr regs' \<noteq> SYS_SOCKET"
    and same: "mem (t_kern s2) pid = store_bytes (mem (t_kern s0) pid) (rsi regs) (sockaddr_buf (tc_local cfg))"
  shows "\<exists>k1 k3.
    ptrace_syscall os k1 pid None = (Inr (), t_kern st1) \<and>
    mem k1 pid = store_bytes (mem (t_kern s0) pid) (rsi regs) (sockaddr_buf (tc_local cfg)) \<and>
    (if tc_seccomp cfg then ptrace_cont else ptrace_syscall) os k3 pid None = (Inr (), t_kern st3) \<and>
    read_sockaddr os k3 pid (rsi regs) addrlen = Inr dest \<and>
    (\<forall>x. mem k3 pid x = (if unat (x - rsi regs) \<in> sockaddr_padding dest then Some 0 else mem (t_kern s0) pid x)) \<and>
    (\<exists>s. t_threads st3 pid = Some s \<and> phase s = Entering \<and> pending_restore s = None \<and>
       forced_connect_errno s = None)"
proof -
  let ?c0 = "thread_ctx pid s0" and ?m1 = "store_bytes (mem (t_kern s0) pid) (rsi regs) (sockaddr_buf (tc_local cfg))"
  have kept: "t_threads s2 pid = t_threads st1 pid" "t_threads st1 pid \<noteq> None"
    using at_report_keeps_thread [of os cfg st2 pid] passes_keep_thread [OF between] alive(1)
    unfolding s2_def by auto
  obtain h1 where h1: "handle_syscall_enter os cfg pid regs ?c0 = (Inr (), h1)"
    "t_threads st1 pid = Some ((tstate h1)\<lparr>phase := Exiting\<rparr>)"
    "ptrace_syscall os (kern h1) pid None = (Inr (), t_kern st1)"
    using reported_entry [OF _ entry(2) kept(2), of regs] entry(1) regs(1)
    unfolding s0_def entry_report_def by metis
  have enter: "handle_connect_enter os cfg pid regs ?c0 = (Inr (), h1)"
    using h1(1) regs(2) by (simp add: handle_syscall_enter_def syscall_numbers)
  have m1: "mem (kern h1) pid = ?m1"
    using connect_enter_redirects [OF mem keep _ loc, of ?c0 regs dest] r read pol enter by auto
  obtain h3 where h3: "handle_syscall_exit os pid regs' (thread_ctx pid s2) = (Inr (), h3)"
    "t_threads st3 pid = Some ((tstate h3)\<lparr>phase := Entering\<rparr>)"
    "(if tc_seccomp cfg then ptrace_cont else ptrace_syscall) os (kern h3) pid None = (Inr (), t_kern st3)"
    using syscall_exit [OF _ alive(2) regs'(1), of cfg "(tstate h1)\<lparr>phase := Exiting\<rparr>"]
      loop_step_Continue [OF exit(2,1)] kept(1) h1(2)
    unfolding s2_def by auto
  have "tstate (thread_ctx pid s2) = (tstate h1)\<lparr>phase := Exiting\<rparr>"
    using kept(1) h1(2) by (simp add: thread_ctx_def)
  then obtain k where k: "handle_syscall_exit os pid regs' (thread_ctx pid s2) =
      (Inr (), (thread_ctx pid s2)\<lparr>tstate := (tstate ?c0)\<lparr>pending_restore := None, phase := Exiting\<rparr>, kern := k\<rparr>)"
    "read_sockaddr os k pid (rsi regs) addrlen = Inr dest"
    "\<forall>x. mem k pid x = (if unat (x - rsi regs) \<in> sockaddr_padding dest then Some 0 else mem (t_kern s0) pid x)"
    using connect_restored [OF mem keep _ loc _ pol idle enter _ _ regs'(2), of "thread_ctx pid s2" Exiting addrlen]
      r read same m1 by auto
  then have "h3 = (thread_ctx pid s2)\<lparr>tstate := (tstate ?c0)\<lparr>pending_restore := None, phase := Exiting\<rparr>, kern := k\<rparr>"
    using h3(1) by simp
  then show ?thesis
    using h1(3) m1 h3(2,3) k(2,3) idle by - (rule exI [of _ "kern h1"], rule exI [of _ k], simp)
qed

theorem interception_across_passes_witness:
  "\<exists>st1 st3 k3. loop_step sample_os sample_cfg connect_script = Continue st1 \<and>
     loop_step sample_os sample_cfg st1 = Continue st3 \<and>
     ptrace_cont sample_os k3 7 None = (Inr (), t_kern st3) \<and>
     read_sockaddr sample_os k3 7 4096 16 = Inr sample_dest"
proof (rule script_first_pass)
  let ?r = sample_connect_regs
  fix st1 :: "sample_kernel tracer"
  assume one: "loop_step sample_os sample_cfg connect_script = Continue st1"
    and st1: "t_threads st1 = [7 \<mapsto> thread_state_default\<lparr>phase := Exiting,
      pending_restore := Some \<lparr>addr_ptr = 4096, restore_dest = sample_dest\<rparr>\<rparr>]"
      "t_active st1 = {7}" "t_signal st1 = 0"
      "sk_fs (t_kern st1) = empty_fs" "sk_signals (t_kern st1) = []" "sk_resume (t_kern st1) = Inr ()"
      "sk_regs (t_kern st1) = [7 \<mapsto> ?r]" "sk_waits (t_kern st1) = [Inr (PtraceSyscall 7)]"
      "sk_mem (t_kern st1) 7 = store_bytes (sk_mem sample_connect_state 7) 4096 (sockaddr_buf (tc_local sample_cfg))"
  note two = script_second_pass [OF st1]
  obtain st3 where st3: "loop_step sample_os sample_cfg st1 = Continue st3" "t_threads st3 7 \<noteq> None"
    using two(5) by blast
  have r: "connect_fd ?r = 5" "rsi ?r = 4096" "get_syscall_nr ?r = SYS_CONNECT" "get_syscall_nr ?r \<noteq> SYS_SOCKET"
    by (simp_all add: sample_connect_regs_def get_syscall_nr_def syscall_numbers)
  have cfg: "tc_seccomp sample_cfg" "\<not> is_v6 (tc_local sample_cfg)" by (simp_all add: sample_cfg_def)
  have m: "sk_mem (t_kern script_entry) = sk_mem sample_connect_state" by (simp add: script_entry_state)
  have pol: "connect_policy sample_cfg sample_dest
      (stream_socket sample_os 7 (connect_fd ?r) (thread_ctx 7 script_entry)) = Intercept"
    using script_known sample_policy by (simp add: r stream_socket_def)
  have regs: "ptrace_getregs sample_os (t_kern script_entry) 7 = Inr ?r"
    by (simp add: sample_getregs script_entry_state connect_script_kernel ok_or_def)
  have "forced_connect_errno (tstate (thread_ctx 7 script_entry)) = None"
    by (simp add: thread_ctx_def script_entry_state thread_state_default_def)
  then obtain k1 k3 where "(if tc_seccomp sample_cfg then ptrace_cont else ptrace_syscall) sample_os k3 7 None =
      (Inr (), t_kern st3)" "read_sockaddr sample_os k3 7 (rsi ?r) 16 = Inr sample_dest"
    using interception_across_passes [OF sample_memory sample_pidfd_calls _ _ regs r(3) _ pol _ _ one
        passes.none _ two(1) st3(1) two(4) st3(2) two(2) r(4), of 16]
      script_read sample_connect_readable two(3) st1(9)
    by (auto simp: m r cfg script_entry_state(1,4) ptrace_events)
  then show ?thesis
    using one st3 by - (rule exI [of _ st1], rule exI [of _ st3], rule exI [of _ k3], simp add: r cfg)
qed

text \<open>
  C10. No task is left stopped. Over any passes of the loop in which \<open>waitpid\<close> does not
  answer \<open>EINVAL\<close>, every stop it reports is answered within its pass: the task is
  resumed, or it is no longer there to be resumed. So when no stop was unanswered at first, none is
  between two passes; and where \<open>waitpid\<close> blocks for ever only over an unanswered stop,
  the next pass does not hang.
\<close>

theorem stops_answered:
  assumes rep: "stop_reports os stopped" and "passes os cfg st ws st'" and "Inl EINVAL \<notin> set ws"
  shows "stopped (t_kern st') \<subseteq> stopped (t_kern st) \<and>
    (\<forall>st''. stopped (t_kern st) = {} \<and> (\<forall>k. wait_for_tracee os k = None \<longrightarrow> stopped k \<noteq> {}) \<longrightarrow>
       loop_step os cfg st' \<noteq> Hang st'')"
proof -
  have "stopped (t_kern st') \<subseteq> stopped (t_kern st)"
    using assms(2,3)
  proof (induction rule: passes.induct)
    case (one_more st ws st1 w st2)
    then show ?case using pass_answers [OF rep one_more.hyps(3,2)] by fastforce
  qed simp
  moreover have "loop_step os cfg st' \<noteq> Hang st''"
    if "stopped (t_kern st') = {}" "\<forall>k. wait_for_tracee os k = None \<longrightarrow> stopped k \<noteq> {}" for st''
    using answered_not_stuck [OF rep _ that(1)] that(2) by blast
  ultimately show ?thesis by blast
qed

theorem stops_answered_witness:
  "\<exists>st1. passes sample_os sample_cfg connect_script [Inr (PtraceEvent 7 5 7)] st1 \<and>
     {pid \<in> sk_stopped (t_kern st1). sk_regs (t_kern st1) pid \<noteq> None} = {} \<and>
     (\<forall>st2. loop_step sample_os sample_cfg st1 \<noteq> Hang st2)"
proof (rule script_first_pass)
  fix st1 :: "sample_kernel tracer"
  assume one: "loop_step sample_os sample_cfg connect_script = Continue st1"
  have "passes sample_os sample_cfg connect_script ([] @ [Inr (PtraceEvent 7 5 7)]) st1"
    using passes.none script_entry_state(1) one by (rule passes.one_more)
  then have run: "passes sample_os sample_cfg connect_script [Inr (PtraceEvent 7 5 7)] st1" by simp
  moreover have "sk_stopped (t_kern connect_script) = {}"
  proof -
    have "sk_stopped (snd (write_sockaddr sample_os k 7 a sa)) = sk_stopped k" for k a sa
      by (rule write_sockaddr_keeps) (simp add: sample_os_def sample_poke_def)
    then show ?thesis
      by (simp add: connect_script_def tracer_start_def sample_connect_state_def) (simp add: sample_state_def)
  qed
  ultimately show ?thesis using stops_answered [OF sample_stops run] by auto
qed










text \<open>
  C40. The length a program passes to \<open>connect\<close> is not used: the handler reads 28 bytes.
  So a correct \<open>sockaddr_in\<close> of 16 bytes that ends within 12 bytes of unmapped memory
  makes the handler fail with \<open>MemoryRead\<close>, whatever the length argument and the
  destination, and with it the whole tracer: the pass that handles the entry of the call, with or
  without a seccomp filter, returns this error from the loop, while the tasks it traces are still
  there.
\<close>

theorem short_sockaddr_fails:
  fixes os :: "'k os" and cfg :: trace_config and st :: "'k tracer" and pid :: i32
  defines "s \<equiv> at_report os cfg st"
  assumes mem: "tracee_memory os mem pid" and left: "t_active (prune_gone_tracees os st) \<noteq> {}"
    and entry: "(\<exists>sig. pass_report os cfg st = Some (Inr (PtraceEvent pid sig PTRACE_EVENT_SECCOMP)) \<and> pid \<in> t_active s) \<or>
        pass_report os cfg st = Some (Inr (PtraceSyscall pid)) \<and> phase (tstate (thread_ctx pid s)) = Entering"
    and regs: "ptrace_getregs os (t_kern s) pid = Inr regs" "get_syscall_nr regs = SYS_CONNECT"
    and short: "\<not> readable (mem (t_kern s) pid) (rsi regs) 28"
  shows "\<exists>e st'. handle_connect_enter os cfg pid regs (thread_ctx pid s) = (Inl (MemoryRead e), connect_start (thread_ctx pid s)) \<and>
    loop_step os cfg st = Fail (MemoryRead e) st' \<and> run_loop os cfg st = Some (Inl (MemoryRead e), st') \<and>
    t_active s \<subseteq> t_active st'"
proof -
  let ?h = "thread_ctx pid s"
  obtain e where "vm_readv os (kern ?h) pid (rsi regs) sockaddr_size = Inl e"
    using tracee_readv_fails [OF mem short] by (auto simp: sockaddr_size_def)
  then have "read_sockaddr os (kern ?h) pid (rsi regs) (rdx regs) = Inl (MemoryRead e)"
    by (simp add: read_sockaddr_def)
  then have con: "handle_connect_enter os cfg pid regs ?h = (Inl (MemoryRead e), connect_start ?h)"
    by (simp add: handle_connect_enter_def connect_start_def Let_def)
  then have "handle_syscall_enter os cfg pid regs ?h = (Inl (MemoryRead e), connect_start ?h)"
    using regs(2) by (simp add: handle_syscall_enter_def syscall_numbers)
  then obtain st' where "loop_step os cfg st = Fail (MemoryRead e) st'" "t_active s \<subseteq> t_active st'"
    using failed_entry [OF _ left, of pid cfg regs] entry regs(1) unfolding s_def entry_report_def by blast
  moreover from this(1) have "run_loop os cfg st = Some (Inl (MemoryRead e), st')"
    by (subst run_loop.simps) simp
  ultimately show ?thesis using con by blast
qed

theorem short_sockaddr_fails_witness:
  "\<exists>e st'. run_loop sample_os sample_cfg
      (tracer_start (sample_state\<lparr>sk_regs := [7 \<mapsto> sample_connect_regs\<lparr>rsi := 8176\<rparr>],
         sk_waits := [Inr (PtraceSyscall 7)]\<rparr>) tracker_new sample_cfg) = Some (Inl (MemoryRead e), st') \<and>
     readable (sk_mem sample_state 7) 8176 16"
proof -
  let ?r = "sample_connect_regs\<lparr>rsi := 8176\<rparr>"
  let ?k = "sample_state\<lparr>sk_regs := [7 \<mapsto> ?r], sk_waits := [Inr (PtraceSyscall 7)]\<rparr>"
  let ?st = "tracer_start ?k tracker_new sample_cfg"
  have st: "t_kern ?st = ?k" "t_signal ?st = 0" "t_active ?st = {7}" "t_threads ?st = Map.empty"
    by (simp_all add: tracer_start_def sample_cfg_def)
  have k: "sk_fs ?k = empty_fs" "sk_signals ?k = []" "sk_mem ?k = sk_mem sample_state" by (simp_all add: sample_state_def)
  have pass: "pass_report sample_os sample_cfg ?st = Some (Inr (PtraceSyscall 7))"
    "t_kern (at_report sample_os sample_cfg ?st) = ?k\<lparr>sk_waits := [], sk_stopped := sk_stopped ?k \<union> {7}\<rparr>"
    "t_threads (at_report sample_os sample_cfg ?st) = Map.empty"
    using sample_pass [of ?st sample_cfg] st k by (simp_all add: sample_wait_def)
  have prune: "prune_gone_tracees sample_os ?st = ?st"
    using k by (simp add: prune_gone_tracees_def sample_os_def st empty_fs_def Let_def)
  have "sk_mem sample_state 7 (8176 + of_nat 16) = None"
    by (simp add: sample_state_def page_at_def)
  moreover have "(16 :: nat) < 28" by simp
  ultimately have short: "\<not> readable (sk_mem sample_state 7) 8176 28" unfolding readable_iff by blast
  have fits: "readable (sk_mem sample_state 7) 8176 16"
    using readable_shift [OF sample_readable [of 4096 7], of 4080 16] by simp
  have nr: "get_syscall_nr ?r = SYS_CONNECT" by (simp add: sample_connect_regs_def get_syscall_nr_def syscall_numbers)
  show ?thesis
    using short_sockaddr_fails [OF sample_memory, where cfg = sample_cfg and st = ?st and pid = 7 and regs = ?r] short fits nr
    by (auto simp: pass prune st(3) sample_getregs ok_or_def thread_ctx_def thread_state_default_def k(3))
qed

end
