(* ===== verification/Proxy_Tasks.thy ===== *)
theory Proxy_Tasks
  imports Local_Proxy "HOL-Library.Sublist"
begin

text \<open>
  The local proxy and the tracer at the same time. \<open>run\<close> of
  \<open>src/proxy/local.rs\<close> accepts clients and starts a task for each; the runtime polls the
  tasks in any order, and between two polls the tracer may take the lock of the table and call its
  operations. The code of \<open>handle_client\<close> and \<open>proxy_connection\<close> is cut
  where another thread can come in between: before \<open>/proc/net/tcp\<close> is read, before the
  lock is taken, while it sleeps between two attempts, at every await of the dialogue with the
  upstream proxy, and at each poll of the relay. A poll of a task that stands at an await of the
  dialogue or at the sleep finds it completed or not: the flag of the event says which, and a poll
  that finds it pending changes nothing, so an upstream proxy that never answers is a run in which no
  poll completes. What an awaited call does to the streams is taken to happen when it completes.

  \<open>task_poll\<close> is the step of a task, \<open>system_step\<close> that of the whole,
  \<open>system_run\<close> a sequence of events in the order in which they happen. The theorems hold
  for every such sequence: a task computes what \<open>handle_client\<close> computes, it asks for
  recorded destinations only, it finds the destination of a redirected connection, it settles when
  its awaits complete and only then, and an error of \<open>accept\<close> ends the proxy for good.
\<close>

section \<open>The code\<close>

datatype 's stage =
    Accepted
  | Scanning socket_addr nat
  | Matching socket_addr nat "string option"
  | Dialling socket_addr "'s dialogue"
  | Relaying socket_addr
  | Finished "error + unit"

record 's task =
  tk_client :: socket_addr
  tk_local :: "io_error + socket_addr"
  tk_stage :: "'s stage"
  tk_conn :: 's

type_synonym 's accepted_client = "socket_addr \<times> (io_error + socket_addr) \<times> 's"

fun task_new :: "'s accepted_client \<Rightarrow> 's task" where
  "task_new (client, local_addr, s) =
     \<lparr>tk_client = client, tk_local = local_addr, tk_stage = Accepted, tk_conn = s\<rparr>"

text \<open>What \<open>proxy_connection\<close> makes of its dialogue: it waits at the next await, returns its error, or relays.\<close>

definition stage_of :: "socket_addr \<Rightarrow> 's dialogue \<Rightarrow> 's stage" where
  "stage_of dest p =
     (case p of
        Done (Inl e) \<Rightarrow> Finished (Inl e)
      | Done (Inr _) \<Rightarrow> Relaying dest
      | Await step next \<Rightarrow> Dialling dest p)"

text \<open>One poll. \<open>ready\<close>: the await at which the task stands, of the dialogue or of the sleep, has completed.\<close>

definition task_poll ::
  "(string \<Rightarrow> string) \<Rightarrow> 's tcp \<Rightarrow> proxy_config \<Rightarrow> procfs \<Rightarrow> tracker \<Rightarrow> copy_dir \<Rightarrow> bool \<Rightarrow> 's task \<Rightarrow> 's task" where
  "task_poll b64 net proxy fs t d ready tk =
     (case tk_stage tk of
        Accepted \<Rightarrow>
          tk\<lparr>tk_stage := (case tk_local tk of
                            Inl e \<Rightarrow> Finished (Inl (Io e))
                          | Inr server \<Rightarrow> Scanning server 0)\<rparr>
      | Scanning server n \<Rightarrow>
          if 0 < n \<and> \<not> ready then tk
          else tk\<lparr>tk_stage := Matching server n (scan_conn fs (tk_client tk) server)\<rparr>
      | Matching server n found \<Rightarrow>
          tk\<lparr>tk_stage := (case match_inode fs t found of
                            Some dest \<Rightarrow> stage_of dest (proxy_dial b64 net proxy dest)
                          | None \<Rightarrow> if n < 2 then Scanning server (n + 1) else Finished (Inr ()))\<rparr>
      | Dialling dest p \<Rightarrow>
          (case p of
             Done r \<Rightarrow> tk\<lparr>tk_stage := stage_of dest p\<rparr>
           | Await step next \<Rightarrow>
               if ready then tk\<lparr>tk_stage := stage_of dest (next (tk_conn tk)), tk_conn := step (tk_conn tk)\<rparr>
               else tk)
      | Relaying dest \<Rightarrow>
          (case tcp_copy net (tk_conn tk) d of
             (Some r, s) \<Rightarrow> tk\<lparr>tk_stage := Finished (Inr ()), tk_conn := s\<rparr>
           | (None, s) \<Rightarrow> tk\<lparr>tk_conn := s\<rparr>)
      | Finished r \<Rightarrow> tk)"

text \<open>The shared table, the tasks that were started, and the error with which \<open>run\<close> has returned.\<close>

record 's proxy_system =
  sy_table :: tracker
  sy_tasks :: "'s task list"
  sy_ended :: "error option"

datatype 's proxy_event =
    TracerLock "(procfs \<times> tracker_op) list"
  | Accepts "io_error + 's accepted_client"
  | Poll nat procfs copy_dir bool

definition local_accept :: "io_error + 's accepted_client \<Rightarrow> 's proxy_system \<Rightarrow> 's proxy_system" where
  "local_accept a S =
     (if sy_ended S \<noteq> None then S
      else case a of
             Inl e \<Rightarrow> S\<lparr>sy_ended := Some (Io e)\<rparr>
           | Inr c \<Rightarrow> S\<lparr>sy_tasks := sy_tasks S @ [task_new c]\<rparr>)"

fun system_step ::
  "(string \<Rightarrow> string) \<Rightarrow> 's tcp \<Rightarrow> proxy_config \<Rightarrow> 's proxy_event \<Rightarrow> 's proxy_system \<Rightarrow> 's proxy_system" where
  "system_step b64 net proxy (TracerLock ops) S = S\<lparr>sy_table := run_ops ops (sy_table S)\<rparr>"
| "system_step b64 net proxy (Accepts a) S = local_accept a S"
| "system_step b64 net proxy (Poll i fs d ready) S =
     (if i < length (sy_tasks S)
      then S\<lparr>sy_tasks := (sy_tasks S)[i := task_poll b64 net proxy fs (sy_table S) d ready (sy_tasks S ! i)]\<rparr>
      else S)"

definition system_run ::
  "(string \<Rightarrow> string) \<Rightarrow> 's tcp \<Rightarrow> proxy_config \<Rightarrow> 's proxy_event list \<Rightarrow> 's proxy_system \<Rightarrow> 's proxy_system" where
  "system_run b64 net proxy evs S = fold (system_step b64 net proxy) evs S"

definition system_start :: "'s proxy_system" where
  "system_start = \<lparr>sy_table = tracker_new, sy_tasks = [], sy_ended = None\<rparr>"

lemma system_run_simps [simp]:
  "system_run b64 net proxy [] S = S"
  "system_run b64 net proxy (e # evs) S = system_run b64 net proxy evs (system_step b64 net proxy e S)"
  "system_run b64 net proxy (xs @ ys) S = system_run b64 net proxy ys (system_run b64 net proxy xs S)"
  by (simp_all add: system_run_def)

lemma task_same_conn: "tk_conn tk = s \<Longrightarrow> tk\<lparr>tk_stage := st, tk_conn := s\<rparr> = tk\<lparr>tk_stage := st\<rparr>"
  by (cases tk) simp

lemma stage_of_simps [simp]:
  "stage_of dest (Done (Inl e)) = Finished (Inl e)"
  "stage_of dest (Done (Inr u)) = Relaying dest"
  "stage_of dest (Await step next) = Dialling dest (Await step next)"
  by (simp_all add: stage_of_def)

lemma task_poll_keeps [simp]:
  "tk_client (task_poll b64 net proxy fs t d ready tk) = tk_client tk"
  "tk_local (task_poll b64 net proxy fs t d ready tk) = tk_local tk"
  by (simp_all add: task_poll_def split: stage.splits dialogue.splits prod.splits sum.splits option.splits)

lemma task_poll_Finished: "tk_stage tk = Finished r \<Longrightarrow> task_poll b64 net proxy fs t d ready tk = tk"
  by (simp add: task_poll_def)

lemma task_poll_pending:
  "tk_stage tk = Dialling dest (Await step next) \<Longrightarrow> task_poll b64 net proxy fs t d False tk = tk"
  by (simp add: task_poll_def)

section \<open>Counting polls\<close>

text \<open>The polls of a task that do not find it waiting.\<close>

fun is_poll :: "nat \<Rightarrow> 's proxy_event \<Rightarrow> bool" where
  "is_poll i (Poll j fs d ready) = (i = j \<and> ready)"
| "is_poll i _ = False"

definition polls_of :: "nat \<Rightarrow> 's proxy_event list \<Rightarrow> nat" where
  "polls_of i evs = length (filter (is_poll i) evs)"

lemma polls_of_simps [simp]:
  "polls_of i [] = 0"
  "polls_of i (e # evs) = (if is_poll i e then Suc (polls_of i evs) else polls_of i evs)"
  "polls_of i (xs @ ys) = polls_of i xs + polls_of i ys"
  by (simp_all add: polls_of_def)

text \<open>An event is a step of the task it polls, and leaves every other task alone.\<close>

lemma system_step_task:
  assumes "i < length (sy_tasks S)"
  shows "i < length (sy_tasks (system_step b64 net proxy e S))"
    and "sy_tasks (system_step b64 net proxy e S) ! i =
      (case e of Poll j fs d ready \<Rightarrow>
         if j = i then task_poll b64 net proxy fs (sy_table S) d ready (sy_tasks S ! i) else sy_tasks S ! i
       | _ \<Rightarrow> sy_tasks S ! i)"
  using assms by (cases e; auto simp: local_accept_def nth_append split: sum.splits)+

lemma system_run_length:
  "i < length (sy_tasks S) \<Longrightarrow> i < length (sy_tasks (system_run b64 net proxy evs S))"
  by (induction evs arbitrary: S) (simp_all add: system_step_task(1))

fun settled :: "'s stage \<Rightarrow> bool" where
  "settled (Relaying dest) = True"
| "settled (Finished r) = True"
| "settled _ = False"

text \<open>The task needs at most \<open>n\<close> polls that do not find it waiting to settle.\<close>

fun settles_within :: "nat \<Rightarrow> 's stage \<Rightarrow> bool" where
  "settles_within n Accepted = (16 \<le> n)"
| "settles_within n (Scanning server k) = (2 * (2 - k) + 11 \<le> n)"
| "settles_within n (Matching server k found) = (2 * (2 - k) + 10 \<le> n)"
| "settles_within n (Dialling dest p) = (ends_within n p \<and> (\<forall>r. p \<noteq> Done r))"
| "settles_within n (Relaying dest) = True"
| "settles_within n (Finished r) = True"

lemma settles_within_0: "settles_within 0 st \<Longrightarrow> settled st"
  by (cases "(0::nat, st)" rule: settles_within.cases; simp)
    (metis dialogue.exhaust ends_within.simps(2))

lemma settles_stage_of: "ends_within n p \<Longrightarrow> settles_within n (stage_of dest p)"
  by (auto simp: stage_of_def split: dialogue.splits sum.splits)

lemma settles_dial: "9 \<le> n \<Longrightarrow> settles_within n (stage_of dest (proxy_dial b64 net proxy dest))"
  by (rule settles_stage_of) (rule ends_mono [OF proxy_dial_ends])

lemma settles_poll:
  assumes "settles_within (Suc n) (tk_stage tk)"
  shows "settles_within n (tk_stage (task_poll b64 net proxy fs t d True tk))"
proof (cases "tk_stage tk")
  case (Dialling dest p)
  then obtain step "next" where "p = Await step next" using assms by (cases p) auto
  then show ?thesis using assms Dialling by (simp add: task_poll_def settles_stage_of)
qed (use assms in \<open>auto simp: task_poll_def intro!: settles_dial split: prod.splits sum.splits option.splits\<close>)

lemma settles_wait:
  assumes "settles_within n (tk_stage tk)"
  shows "settles_within n (tk_stage (task_poll b64 net proxy fs t d False tk))"
proof (cases "tk_stage tk")
  case (Dialling dest p)
  then obtain step "next" where "p = Await step next" using assms by (cases p) auto
  then show ?thesis using assms Dialling by (simp add: task_poll_def)
qed (use assms in \<open>auto simp: task_poll_def intro!: settles_dial split: prod.splits sum.splits option.splits\<close>)

lemma settles_mono: "settles_within n st \<Longrightarrow> n \<le> m \<Longrightarrow> settles_within m st"
  by (cases "(n, st)" rule: settles_within.cases) (auto intro: ends_mono)

lemma system_run_settles:
  "i < length (sy_tasks S) \<Longrightarrow> settles_within n (tk_stage (sy_tasks S ! i)) \<Longrightarrow>
     settles_within (n - polls_of i evs) (tk_stage (sy_tasks (system_run b64 net proxy evs S) ! i))"
proof (induction evs arbitrary: S n)
  case (Cons e evs)
  let ?S = "system_step b64 net proxy e S"
  have "settles_within (n - polls_of i [e]) (tk_stage (sy_tasks ?S ! i))"
  proof (cases "is_poll i e")
    case True
    then obtain fs d where "e = Poll i fs d True" by (cases e) auto
    then show ?thesis
      using system_step_task(2) [OF Cons.prems(1), of b64 net proxy e]
        settles_poll [OF settles_mono [OF Cons.prems(2), of "Suc (n - 1)"]] by (simp del: system_step.simps)
  next
    case False
    then show ?thesis
      using system_step_task(2) [OF Cons.prems(1), of b64 net proxy e] settles_wait [OF Cons.prems(2)] Cons.prems(2)
      by (cases e) (auto simp del: system_step.simps)
  qed
  from Cons.IH [OF system_step_task(1) [OF Cons.prems(1)] this] show ?case
    by (simp split: if_splits)
qed simp

text \<open>A task whose await does not complete stays where it is.\<close>

lemma system_run_pending:
  "i < length (sy_tasks S) \<Longrightarrow> tk_stage (sy_tasks S ! i) = Dialling dest (Await step next) \<Longrightarrow>
     polls_of i evs = 0 \<Longrightarrow> sy_tasks (system_run b64 net proxy evs S) ! i = sy_tasks S ! i"
proof (induction evs arbitrary: S)
  case (Cons e evs)
  have "sy_tasks (system_step b64 net proxy e S) ! i = sy_tasks S ! i"
    using Cons.prems system_step_task(2) [OF Cons.prems(1), of b64 net proxy e]
    by (cases e) (auto simp: task_poll_pending simp del: system_step.simps split: if_splits)
  then show ?case
    using Cons.IH [OF system_step_task(1) [OF Cons.prems(1)]] Cons.prems by (simp split: if_splits)
qed simp

section \<open>What the tasks can ask for\<close>

fun op_dests :: "tracker_op \<Rightarrow> socket_addr set" where
  "op_dests (InsertDest pid fd info) = {si_dest info}"
| "op_dests _ = {}"

abbreviation ops_dests :: "(procfs \<times> tracker_op) list \<Rightarrow> socket_addr set" where
  "ops_dests ops \<equiv> (\<Union>(fs, oper) \<in> set ops. op_dests oper)"

fun event_dests :: "'s proxy_event \<Rightarrow> socket_addr set" where
  "event_dests (TracerLock ops) = ops_dests ops"
| "event_dests _ = {}"

text \<open>The destinations that the tracer has recorded in a sequence of events.\<close>

definition recorded :: "'s proxy_event list \<Rightarrow> socket_addr set" where
  "recorded evs = (\<Union>e \<in> set evs. event_dests e)"

lemma recorded_snoc [simp]: "recorded (evs @ [e]) = recorded evs \<union> event_dests e"
  by (auto simp: recorded_def)

fun stage_dest :: "'s stage \<Rightarrow> socket_addr option" where
  "stage_dest (Dialling dest p) = Some dest"
| "stage_dest (Relaying dest) = Some dest"
| "stage_dest _ = None"

lemma run_op_dests: "known_dests (run_op fs oper t) \<subseteq> known_dests t \<union> op_dests oper"
proof -
  have c: "known_dests (cached fs pid t) = known_dests t" for pid by (simp add: known_dests_def)
  show ?thesis
  proof (cases oper)
    case (CloseEnter pid fd)
    then show ?thesis using key_forget_dests c by (simp add: close_enter_key) blast
  next
    case (InsertDest pid fd info)
    then show ?thesis using ran_upd_subset [of "fd_dest t" "(tgid_of fs t pid, fd)" info]
      by (auto simp: insert_dest_key key_put_dest_def known_dests_def)
  next
    case (BindInode pid fd i)
    show ?thesis
    proof (cases "fd_dest t (tgid_of fs t pid, fd)")
      case None
      then show ?thesis using BindInode by (simp add: bind_inode_key key_put_inode_def known_dests_def)
    next
      case (Some info)
      then have "info \<in> ran (fd_dest t)" by (rule ranI)
      then show ?thesis using BindInode Some ran_upd_subset [of "inode_dest t" i info]
        by (auto simp: bind_inode_key key_put_inode_def known_dests_def)
    qed
  next
    case (Cleanup tid)
    then show ?thesis using cleanup_dests by fastforce
  qed (simp_all add: known_dests_cong [OF socket_exit_effect(1)] known_dests_cong [OF lookup_effect(1)]
      known_dests_cong [OF lookup_effect(3)] known_dests_cong [OF lookup_effect(5)])
qed

lemma run_ops_dests: "known_dests (run_ops ops t) \<subseteq> known_dests t \<union> event_dests (TracerLock ops)"
proof (induction ops arbitrary: t)
  case (Cons a ops)
  then show ?case using run_op_dests by (cases a) fastforce
qed simp

lemma stage_of_dest: "stage_dest (stage_of dest p) = Some x \<Longrightarrow> x = dest"
  by (auto simp: stage_of_def split: dialogue.splits sum.splits)

lemma task_poll_dest:
  "stage_dest (tk_stage (task_poll b64 net proxy fs t d ready tk)) = Some dest \<Longrightarrow>
     dest \<in> known_dests t \<or> stage_dest (tk_stage tk) = Some dest"
  by (auto simp: task_poll_def match_inode_known dest!: stage_of_dest
      split: stage.splits dialogue.splits prod.splits sum.splits option.splits if_splits)

definition asks_recorded :: "socket_addr set \<Rightarrow> 's proxy_system \<Rightarrow> bool" where
  "asks_recorded D S \<longleftrightarrow>
     known_dests (sy_table S) \<subseteq> D \<and> (\<forall>tk \<in> set (sy_tasks S). set_option (stage_dest (tk_stage tk)) \<subseteq> D)"

lemma asks_recorded_step:
  assumes "asks_recorded D S"
  shows "asks_recorded (D \<union> event_dests e) (system_step b64 net proxy e S)"
proof (cases e)
  case (TracerLock ops)
  then show ?thesis using assms run_ops_dests [of ops "sy_table S"]
    by (auto simp: asks_recorded_def simp del: event_dests.simps)
next
  case (Accepts a)
  have "stage_dest (tk_stage (task_new c)) = None" for c :: "'a accepted_client" by (cases c) simp
  then show ?thesis using assms Accepts
    by (auto simp: asks_recorded_def local_accept_def split: sum.splits)
next
  case (Poll i fs d ready)
  let ?tk = "task_poll b64 net proxy fs (sy_table S) d ready (sy_tasks S ! i)"
  have "set_option (stage_dest (tk_stage ?tk)) \<subseteq> D" if "i < length (sy_tasks S)"
    using task_poll_dest [of b64 net proxy fs "sy_table S" d ready "sy_tasks S ! i"] assms nth_mem [OF that]
    by (force simp: asks_recorded_def)
  then show ?thesis using assms Poll by (auto simp: asks_recorded_def dest!: set_update_subset_insert [THEN subsetD])
qed

lemma asks_recorded_run: "asks_recorded (recorded evs) (system_run b64 net proxy evs system_start)"
proof (induction evs rule: rev_induct)
  case Nil
  show ?case by (simp add: asks_recorded_def system_start_def known_dests_def tracker_new_def)
next
  case (snoc e evs)
  then show ?case using asks_recorded_step by fastforce
qed

section \<open>A task computes what \<open>handle_client\<close> computes\<close>

text \<open>A list of attempts, read as the views of \<open>handle_client\<close>.\<close>

definition view_of :: "proxy_view list \<Rightarrow> nat \<Rightarrow> proxy_view" where
  "view_of vs k = (if k < length vs then vs ! k else hd vs)"

lemma first_dest_append:
  "first_dest client server (vs @ ws) =
     (case first_dest client server vs of Some dest \<Rightarrow> Some dest | None \<Rightarrow> first_dest client server ws)"
  by (induction vs) (auto split: option.splits)

lemma view_of_attempts:
  "length vs \<le> 3 \<Longrightarrow> map (view_of vs) [0..<3] = vs @ replicate (3 - length vs) (hd vs)"
  by (rule nth_equalityI) (auto simp: view_of_def nth_append)

abbreviation view_table :: "proxy_view \<Rightarrow> tracker" where
  "view_table v \<equiv> snd (snd v)"

definition views_in :: "tracker set \<Rightarrow> (nat \<Rightarrow> proxy_view) \<Rightarrow> bool" where
  "views_in T views \<longleftrightarrow> (\<forall>k. view_table (views k) \<in> T)"

lemma views_in_view_of: "vs \<noteq> [] \<Longrightarrow> view_table ` set vs \<subseteq> T \<Longrightarrow> views_in T (view_of vs)"
  by (auto simp: views_in_def view_of_def image_subset_iff)

text \<open>The first \<open>n\<close> attempts found nothing.\<close>

definition tried :: "tracker set \<Rightarrow> socket_addr \<Rightarrow> socket_addr \<Rightarrow> nat \<Rightarrow> bool" where
  "tried T client server n \<longleftrightarrow>
     n < 3 \<and> (\<exists>vs. length vs = n \<and> view_table ` set vs \<subseteq> T \<and> first_dest client server vs = None)"

definition resolves :: "tracker set \<Rightarrow> io_error + socket_addr \<Rightarrow> socket_addr \<Rightarrow> socket_addr \<Rightarrow> bool" where
  "resolves T local_addr client dest \<longleftrightarrow>
     (\<exists>server views. local_addr = Inr server \<and> views_in T views \<and>
        first_dest client server (map views [0..<3]) = Some dest)"

text \<open>
  Where a task stands, with the tables it may have seen: \<open>None\<close> in
  \<open>computed\<close> is a handler that is still relaying.
\<close>

definition computed ::
  "(string \<Rightarrow> string) \<Rightarrow> 's tcp \<Rightarrow> proxy_config \<Rightarrow> tracker set \<Rightarrow> 's accepted_client \<Rightarrow> (error + unit) option \<Rightarrow> 's \<Rightarrow> bool" where
  "computed b64 net proxy T c r s' \<longleftrightarrow>
     (case c of (client, local_addr, s) \<Rightarrow>
        \<exists>views polls. views_in T views \<and>
          handle_client b64 net local_addr client views polls proxy s = (r, s'))"

definition task_inv ::
  "(string \<Rightarrow> string) \<Rightarrow> 's tcp \<Rightarrow> proxy_config \<Rightarrow> tracker set \<Rightarrow> 's accepted_client \<Rightarrow> 's task \<Rightarrow> bool" where
  "task_inv b64 net proxy T c tk \<longleftrightarrow>
     tk_client tk = fst c \<and> tk_local tk = fst (snd c) \<and>
     (case tk_stage tk of
        Accepted \<Rightarrow> tk_conn tk = snd (snd c)
      | Scanning server n \<Rightarrow>
          tk_local tk = Inr server \<and> tk_conn tk = snd (snd c) \<and> tried T (fst c) server n
      | Matching server n found \<Rightarrow>
          tk_local tk = Inr server \<and> tk_conn tk = snd (snd c) \<and> tried T (fst c) server n \<and>
          (\<exists>fs. found = scan_conn fs (fst c) server)
      | Dialling dest p \<Rightarrow>
          resolves T (fst (snd c)) (fst c) dest \<and>
          (\<exists>n. progress n (proxy_dial b64 net proxy dest) (snd (snd c)) = (p, tk_conn tk))
      | Relaying dest \<Rightarrow>
          resolves T (fst (snd c)) (fst c) dest \<and>
          (\<exists>polls. proxy_connection b64 net polls proxy dest (snd (snd c)) = (None, tk_conn tk))
      | Finished r \<Rightarrow> computed b64 net proxy T c (Some r) (tk_conn tk))"

lemma relay_snoc:
  "relay net polls s = (None, s1) \<Longrightarrow>
     relay net (polls @ [d]) s = (case tcp_copy net s1 d of (r, s2) \<Rightarrow> (map_option (Pair d) r, s2))"
  by (induction polls arbitrary: s) (auto split: prod.splits option.splits)

lemma proxy_connection_snoc:
  assumes "proxy_connection b64 net polls proxy dest s = (None, s1)"
  shows "proxy_connection b64 net (polls @ [d]) proxy dest s =
    (case tcp_copy net s1 d of (r, s2) \<Rightarrow> (map_option (\<lambda>_. Inr ()) r, s2))"
proof -
  obtain s0 where "dial b64 net proxy dest s = (Inr (), s0)" "relay net polls s0 = (None, s1)"
    using assms by (auto simp: proxy_connection_def split: prod.splits sum.splits)
  then show ?thesis using relay_snoc [of net polls s0 s1 d]
    by (simp add: proxy_connection_def option.map_comp comp_def split: prod.splits)
qed

lemma resolves_computed:
  "resolves T local_addr client dest \<Longrightarrow> proxy_connection b64 net polls proxy dest s = (r, s') \<Longrightarrow>
     computed b64 net proxy T (client, local_addr, s) r s'"
  by (force simp: resolves_def computed_def handle_client_def)

text \<open>One more attempt, the one that sees the table \<open>t\<close>.\<close>

lemma attempt:
  assumes "tried T client server n" and "t \<in> T"
  shows "match_inode fs t (scan_conn scan_fs client server) = Some dest \<Longrightarrow> resolves T (Inr server) client dest"
    and "match_inode fs t (scan_conn scan_fs client server) = None \<Longrightarrow> n < 2 \<Longrightarrow> tried T client server (n + 1)"
    and "match_inode fs t (scan_conn scan_fs client server) = None \<Longrightarrow> \<not> n < 2 \<Longrightarrow>
      computed b64 net proxy T (client, Inr server, s) (Some (Inr ())) s"
proof -
  obtain vs where vs: "length vs = n" "n < 3" "view_table ` set vs \<subseteq> T" "first_dest client server vs = None"
    using assms(1) by (auto simp: tried_def)
  let ?vs = "vs @ [(scan_fs, fs, t)]"
  have seen: "view_table ` set ?vs \<subseteq> T" using vs(3) assms(2) by auto
  have views: "views_in T (view_of ?vs)" using seen by (intro views_in_view_of) auto
  have all: "map (view_of ?vs) [0..<3] = ?vs @ replicate (2 - n) (hd ?vs)"
    using view_of_attempts [of ?vs] vs(1,2) by (simp add: Suc_diff_Suc)
  note fd = first_dest_append vs(4) lookup_dest_def
  show "resolves T (Inr server) client dest"
    if "match_inode fs t (scan_conn scan_fs client server) = Some dest"
    using that views unfolding resolves_def by (intro exI conjI refl) (auto simp: all fd)
  show "tried T client server (n + 1)"
    if "match_inode fs t (scan_conn scan_fs client server) = None" "n < 2"
    using that seen vs(1) unfolding tried_def by (intro conjI exI [of _ ?vs]) (simp_all add: fd)
  show "computed b64 net proxy T (client, Inr server, s) (Some (Inr ())) s"
    if "match_inode fs t (scan_conn scan_fs client server) = None" "\<not> n < 2"
    using that views vs(2) by (force simp: computed_def handle_client_def all fd)
qed

lemma task_inv_mono:
  assumes "T \<subseteq> T'" and "task_inv b64 net proxy T c tk"
  shows "task_inv b64 net proxy T' c tk"
proof -
  have v: "views_in T views \<Longrightarrow> views_in T' views" for views using assms(1) by (auto simp: views_in_def)
  then have r: "resolves T l cl dest \<Longrightarrow> resolves T' l cl dest" for l cl dest
    unfolding resolves_def by blast
  have "computed b64 net proxy T c q s \<Longrightarrow> computed b64 net proxy T' c q s" for q s
    unfolding computed_def using v by (cases c) auto
  moreover have "tried T cl sv n \<Longrightarrow> tried T' cl sv n" for cl sv n
    unfolding tried_def using assms(1) by blast
  ultimately show ?thesis using assms(2) r by (auto simp: task_inv_def split: stage.splits)
qed

text \<open>The dialogue goes on by one await.\<close>

lemma dial_end:
  assumes "progress n (proxy_dial b64 net proxy dest) s = (Done r, s1)"
  shows "proxy_connection b64 net [] proxy dest s = (case r of Inl e \<Rightarrow> Some (Inl e) | Inr _ \<Rightarrow> None, s1)"
  using progress_complete [OF assms]
  by (simp add: proxy_connection_def dial_def split: sum.splits)

lemma task_inv_stage_of:
  assumes tk: "tk_client tk = client" "tk_local tk = local_addr" "resolves T local_addr client dest"
    and pr: "progress n (proxy_dial b64 net proxy dest) s = (p, s1)"
  shows "task_inv b64 net proxy T (client, local_addr, s) (tk\<lparr>tk_stage := stage_of dest p, tk_conn := s1\<rparr>)"
proof (cases p)
  case (Done r)
  then show ?thesis
    using tk dial_end [of n b64 net proxy dest s r s1] pr resolves_computed [OF tk(3)]
    by (cases r) (auto simp: task_inv_def)
qed (use assms in \<open>auto simp: task_inv_def\<close>)

lemma task_inv_poll:
  assumes inv: "task_inv b64 net proxy T c tk" and t: "t \<in> T"
  shows "task_inv b64 net proxy T c (task_poll b64 net proxy fs t d ready tk)"
proof -
  obtain client local_addr s where c: "c = (client, local_addr, s)" by (cases c)
  have fields: "tk_client tk = client" "tk_local tk = local_addr" using inv by (simp_all add: task_inv_def c)
  show ?thesis
  proof (cases "tk_stage tk")
    case Accepted
    have "views_in T (\<lambda>k. (fs, fs, t))" using t by (simp add: views_in_def)
    then show ?thesis using inv Accepted
      by (auto simp: task_inv_def task_poll_def c tried_def computed_def handle_client_def
          split: sum.splits)
  next
    case (Scanning server n)
    then show ?thesis using inv by (auto simp: task_inv_def task_poll_def c)
  next
    case (Matching server n found)
    then obtain scan_fs where m: "local_addr = Inr server" "tk_conn tk = s" "tried T client server n"
      "found = scan_conn scan_fs client server"
      using inv fields by (auto simp: task_inv_def c)
    show ?thesis
    proof (cases "match_inode fs t found")
      case None
      then show ?thesis using attempt [OF m(3) t] Matching fields m
        by (auto simp: task_inv_def task_poll_def c)
    next
      case (Some dest)
      then have "resolves T (Inr server) client dest" using attempt(1) [OF m(3) t] m(4) by blast
      from task_inv_stage_of [of tk client "Inr server" T dest 0 b64 net proxy s, OF fields(1) _ this] show ?thesis
        using Some Matching fields(2) m(1,2) by (simp add: task_poll_def c task_same_conn)
    qed
  next
    case (Dialling dest p)
    then obtain n where dl: "resolves T local_addr client dest"
      "progress n (proxy_dial b64 net proxy dest) s = (p, tk_conn tk)"
      using inv by (auto simp: task_inv_def c)
    show ?thesis
    proof (cases p)
      case (Done r)
      then show ?thesis using Dialling task_inv_stage_of [OF fields dl] by (simp add: task_poll_def c)
    next
      case (Await step "next")
      then show ?thesis
        using Dialling inv task_inv_stage_of [OF fields dl(1) progress_snoc [OF dl(2) [unfolded Await]]]
        by (simp add: task_poll_def c)
    qed
  next
    case (Relaying dest)
    then obtain polls where rl: "resolves T local_addr client dest"
      "proxy_connection b64 net polls proxy dest s = (None, tk_conn tk)"
      using inv by (auto simp: task_inv_def c)
    obtain r s1 where poll: "tcp_copy net (tk_conn tk) d = (r, s1)" by fastforce
    have "proxy_connection b64 net (polls @ [d]) proxy dest s = (map_option (\<lambda>_. Inr ()) r, s1)"
      using proxy_connection_snoc [OF rl(2), of d] poll by simp
    then show ?thesis using Relaying rl(1) poll fields resolves_computed [OF rl(1)]
      by (cases r) (auto simp: task_inv_def task_poll_def c)
  next
    case (Finished r)
    then show ?thesis using inv by (simp add: task_poll_Finished)
  qed
qed

text \<open>The clients that \<open>run\<close> starts a task for: those accepted before the first error.\<close>

fun accepted :: "'s proxy_event list \<Rightarrow> 's accepted_client list" where
  "accepted [] = []"
| "accepted (e # evs) =
     (case e of
        Accepts (Inl err) \<Rightarrow> []
      | Accepts (Inr c) \<Rightarrow> c # accepted evs
      | _ \<Rightarrow> accepted evs)"

fun is_accept_error :: "'s proxy_event \<Rightarrow> bool" where
  "is_accept_error (Accepts (Inl err)) = True"
| "is_accept_error _ = False"

lemma accepted_snoc:
  "accepted (evs @ [e]) =
     (if \<exists>x \<in> set evs. is_accept_error x then accepted evs else accepted evs @ accepted [e])"
  by (induction evs) (auto split: proxy_event.splits sum.splits)

text \<open>The states the table goes through.\<close>

definition tables ::
  "(string \<Rightarrow> string) \<Rightarrow> 's tcp \<Rightarrow> proxy_config \<Rightarrow> 's proxy_event list \<Rightarrow> tracker set" where
  "tables b64 net proxy evs =
     (\<lambda>xs. sy_table (system_run b64 net proxy xs system_start)) ` {xs. prefix xs evs}"

lemma tables_snoc: "tables b64 net proxy evs \<subseteq> tables b64 net proxy (evs @ [e])"
  by (auto simp: tables_def intro!: imageI)

lemma tables_now: "sy_table (system_run b64 net proxy evs system_start) \<in> tables b64 net proxy evs"
  by (auto simp: tables_def)

definition system_inv ::
  "(string \<Rightarrow> string) \<Rightarrow> 's tcp \<Rightarrow> proxy_config \<Rightarrow> 's proxy_event list \<Rightarrow> 's proxy_system \<Rightarrow> bool" where
  "system_inv b64 net proxy evs S \<longleftrightarrow>
     (sy_ended S \<noteq> None \<longleftrightarrow> (\<exists>x \<in> set evs. is_accept_error x)) \<and>
     list_all2 (task_inv b64 net proxy (tables b64 net proxy evs)) (accepted evs) (sy_tasks S)"

lemma task_inv_new: "task_inv b64 net proxy T c (task_new c)"
  by (cases c) (simp add: task_inv_def)

lemma system_inv_run: "system_inv b64 net proxy evs (system_run b64 net proxy evs system_start)"
proof (induction evs rule: rev_induct)
  case Nil
  show ?case by (simp add: system_inv_def system_start_def)
next
  case (snoc e evs)
  let ?S = "system_run b64 net proxy evs system_start" and ?T = "tables b64 net proxy (evs @ [e])"
  have ended: "sy_ended ?S \<noteq> None \<longleftrightarrow> (\<exists>x \<in> set evs. is_accept_error x)"
    using snoc by (simp add: system_inv_def)
  have tasks: "list_all2 (task_inv b64 net proxy ?T) (accepted evs) (sy_tasks ?S)"
    using snoc task_inv_mono [OF tables_snoc] unfolding system_inv_def
    by (auto elim!: list_all2_mono)
  have now: "sy_table ?S \<in> ?T" using tables_now tables_snoc by blast
  show ?case
  proof (cases e)
    case (Poll i fs d ready)
    let ?tk = "task_poll b64 net proxy fs (sy_table ?S) d ready (sy_tasks ?S ! i)"
    have "list_all2 (task_inv b64 net proxy ?T) (accepted evs) ((sy_tasks ?S)[i := ?tk])"
      if "i < length (sy_tasks ?S)"
    proof -
      have "task_inv b64 net proxy ?T (accepted evs ! i) ?tk"
        using list_all2_nthD2 [OF tasks that] by (rule task_inv_poll) (rule now)
      then show ?thesis using list_all2_update_cong [OF tasks, of "accepted evs ! i" ?tk i] by simp
    qed
    then show ?thesis using ended tasks Poll
      by (auto simp: system_inv_def accepted_snoc)
  qed (use ended tasks in \<open>auto simp: system_inv_def accepted_snoc local_accept_def task_inv_new
        simp del: task_new.simps intro!: list_all2_appendI split: sum.splits\<close>)
qed

section \<open>The client of a redirected connection\<close>

fun event_ops :: "'s proxy_event \<Rightarrow> (procfs \<times> tracker_op) list" where
  "event_ops (TracerLock ops) = ops"
| "event_ops _ = []"

definition tracer_ops :: "'s proxy_event list \<Rightarrow> (procfs \<times> tracker_op) list" where
  "tracer_ops evs = concat (map event_ops evs)"

lemma run_ops_append: "run_ops (xs @ ys) t = run_ops ys (run_ops xs t)"
  by (induction xs t rule: run_ops.induct) simp_all

lemma all_spare_append:
  "all_spare key i (xs @ ys) t \<longleftrightarrow> all_spare key i xs t \<and> all_spare key i ys (run_ops xs t)"
  by (induction key i xs t rule: all_spare.induct) auto

lemma system_run_table:
  "sy_table (system_run b64 net proxy evs S) = run_ops (tracer_ops evs) (sy_table S)"
proof (induction evs rule: rev_induct)
  case (snoc e evs)
  then show ?case by (cases e) (auto simp: tracer_ops_def run_ops_append local_accept_def split: sum.splits)
qed (simp add: tracer_ops_def)

text \<open>
  What the tracer does to the table is a sequence of its operations, in which the only destinations
  recorded are those it redirected.
\<close>

lemma recorded_tracer_ops:
  fixes evs :: "'s proxy_event list"
  shows "recorded evs = ops_dests (tracer_ops evs)"
proof -
  have "event_dests e = ops_dests (event_ops e)" for e :: "'s proxy_event" by (cases e) simp_all
  then show ?thesis by (simp add: recorded_def tracer_ops_def)
qed

lemma record_connect_ops:
  "\<exists>ops. record_connect fs pid fd info inode t = run_ops ops t \<and> ops_dests ops = {si_dest info}"
proof -
  obtain tracked t1 where q: "is_stream_socket_fd fs pid fd t = (tracked, t1)" by fastforce
  let ?ops = "(fs, IsStream pid fd) # (if tracked then [] else [(fs, MarkStream pid fd)]) @
    (fs, InsertDest pid fd info) # (case inode of None \<Rightarrow> [] | Some i \<Rightarrow> [(fs, BindInode pid fd i)])"
  have "record_connect fs pid fd info inode t = run_ops ?ops t"
    by (simp add: record_connect_def q Let_def run_ops_append split: option.splits)
  moreover have "ops_dests ?ops = {si_dest info}" by (auto split: option.splits)
  ultimately show ?thesis by blast
qed

lemma extend_ops:
  assumes "\<exists>ops. t = run_ops ops t0 \<and> ops_dests ops \<subseteq> D" and "u = run_ops us t" and "ops_dests us \<subseteq> E"
  shows "\<exists>ops. u = run_ops ops t0 \<and> ops_dests ops \<subseteq> E \<union> D"
proof -
  obtain ops where "t = run_ops ops t0" "ops_dests ops \<subseteq> D" using assms(1) by blast
  then show ?thesis using assms(2,3) by (intro exI [of _ "ops @ us"]) (auto simp: run_ops_append)
qed

lemma extend_op:
  assumes "\<exists>ops. t = run_ops ops t0 \<and> ops_dests ops \<subseteq> D" and "op_dests oper = {}"
  shows "\<exists>ops. run_op fs oper t = run_ops ops t0 \<and> ops_dests ops \<subseteq> D"
  using extend_ops [OF assms(1) refl, of "[(fs, oper)]" "{}"] assms(2) by simp

lemma tracer_run_ops: "tracer_run D t \<Longrightarrow> \<exists>ops. t = run_ops ops tracker_new \<and> ops_dests ops \<subseteq> D"
proof (induction rule: tracer_run.induct)
  case start
  show ?case by (rule exI [of _ "[]"]) simp
next
  case (socket_enter D t pid domain sock_type)
  show ?case using extend_op [OF socket_enter.IH, of "SocketEnter pid domain sock_type"] by (simp only: run_op.simps op_dests.simps simp_thms)
next
  case (socket_exit D t fs pid ret_fd)
  show ?case using extend_op [OF socket_exit.IH, of "SocketExit pid ret_fd" fs] by (simp only: run_op.simps op_dests.simps simp_thms)
next
  case (close D t fs pid fd)
  show ?case using extend_op [OF close.IH, of "CloseEnter pid fd" fs] by (simp only: run_op.simps op_dests.simps simp_thms)
next
  case (probe D t fs pid fd)
  show ?case using extend_op [OF probe.IH, of "IsStream pid fd" fs] by (simp only: run_op.simps op_dests.simps simp_thms)
next
  case (mark D t fs pid fd)
  show ?case using extend_op [OF mark.IH, of "MarkStream pid fd" fs] by (simp only: run_op.simps op_dests.simps simp_thms)
next
  case (connect D t info fs pid fd inode)
  obtain us where us: "record_connect fs pid fd info inode t = run_ops us t" "ops_dests us = {si_dest info}"
    using record_connect_ops [of fs pid fd info inode t] by (elim exE conjE)
  show ?case
    using extend_ops [OF connect.IH us(1) eq_refl [OF us(2)]] by (simp only: insert_is_Un [of _ D])
next
  case (cleanup D t fs pid)
  show ?case using extend_op [OF cleanup.IH, of "Cleanup pid" fs] by (simp only: run_op.simps op_dests.simps simp_thms)
qed

definition heads_for ::
  "(string \<Rightarrow> string) \<Rightarrow> 's tcp \<Rightarrow> proxy_config \<Rightarrow> socket_addr \<Rightarrow> string \<Rightarrow> socket_addr \<Rightarrow> 's \<Rightarrow> nat \<Rightarrow> 's task \<Rightarrow> bool" where
  "heads_for b64 net proxy server inode dest s n tk \<longleftrightarrow>
     (case tk_stage tk of
        Accepted \<Rightarrow> n = 0 \<and> tk_local tk = Inr server \<and> tk_conn tk = s
      | Scanning sv k \<Rightarrow> n \<le> 1 \<and> sv = server \<and> tk_conn tk = s
      | Matching sv k found \<Rightarrow> n \<le> 2 \<and> found = Some inode \<and> tk_conn tk = s
      | Dialling d p \<Rightarrow>
          d = dest \<and> (\<forall>r. p \<noteq> Done r) \<and>
          (\<exists>k. n \<le> 3 + k \<and> progress k (proxy_dial b64 net proxy dest) s = (p, tk_conn tk))
      | Relaying d \<Rightarrow>
          d = dest \<and> (\<exists>polls. proxy_connection b64 net polls proxy dest s = (None, tk_conn tk))
      | Finished r \<Rightarrow> \<exists>polls. proxy_connection b64 net polls proxy dest s = (Some r, tk_conn tk))"

lemma heads_for_stage_of:
  assumes "progress k (proxy_dial b64 net proxy dest) s = (p, s1)" and "n \<le> 3 + k"
  shows "heads_for b64 net proxy server inode dest s n (tk\<lparr>tk_stage := stage_of dest p, tk_conn := s1\<rparr>)"
proof (cases p)
  case (Done r)
  then show ?thesis using dial_end [of k b64 net proxy dest s r s1] assms(1)
    by (cases r) (auto simp: heads_for_def)
qed (use assms in \<open>auto simp: heads_for_def\<close>)

text \<open>Only a poll that does not find the task waiting counts.\<close>

lemma heads_for_poll:
  assumes inv: "heads_for b64 net proxy server inode dest s n tk" and "tk_client tk = client"
    and scan: "scan_conn fs client server = Some inode" and t: "get_by_inode t inode = Some \<lparr>si_dest = dest\<rparr>"
  shows "heads_for b64 net proxy server inode dest s (if ready then Suc n else n)
    (task_poll b64 net proxy fs t d ready tk)"
proof (cases "tk_stage tk")
  case (Matching sv k found)
  then have m: "n \<le> 2" "found = Some inode" "tk_conn tk = s" using inv by (auto simp: heads_for_def)
  then have "match_inode fs t found = Some dest" using t by (simp add: match_inode_def)
  then show ?thesis
    using Matching m heads_for_stage_of [of 0 b64 net proxy dest s _ s "if ready then Suc n else n" server inode tk]
    by (simp add: task_poll_def task_same_conn)
next
  case (Dialling x p)
  then obtain k where p: "x = dest" "\<forall>r. p \<noteq> Done r" "n \<le> 3 + k"
    "progress k (proxy_dial b64 net proxy dest) s = (p, tk_conn tk)"
    using inv by (auto simp: heads_for_def)
  then obtain step "next" where a: "p = Await step next" by (cases p) auto
  show ?thesis
    using Dialling inv p a heads_for_stage_of [OF progress_snoc [OF p(4) [unfolded a]], of "Suc n" server inode tk]
    by (cases ready) (simp_all add: task_poll_def)
next
  case (Relaying x)
  then obtain polls where x: "x = dest" "proxy_connection b64 net polls proxy dest s = (None, tk_conn tk)"
    using inv by (auto simp: heads_for_def)
  obtain r s1 where poll: "tcp_copy net (tk_conn tk) d = (r, s1)" by fastforce
  have "proxy_connection b64 net (polls @ [d]) proxy dest s = (map_option (\<lambda>_. Inr ()) r, s1)"
    using proxy_connection_snoc [OF x(2), of d] poll by simp
  then show ?thesis using Relaying x(1) poll by (cases r) (auto simp: heads_for_def task_poll_def)
qed (use assms in \<open>auto simp: heads_for_def task_poll_def match_inode_def split: sum.splits\<close>)

lemma heads_for_run:
  assumes found: "reg.resolvable key inode \<lparr>si_dest = dest\<rparr> (sy_table S)"
    and i: "i < length (sy_tasks S)" "sy_tasks S ! i = task_new (client, Inr server, s)"
  shows "all_spare key inode (tracer_ops evs) (sy_table S) \<Longrightarrow>
    (\<And>fs d ready. Poll i fs d ready \<in> set evs \<Longrightarrow> scan_conn fs client server = Some inode) \<Longrightarrow>
    tk_client (sy_tasks (system_run b64 net proxy evs S) ! i) = client \<and>
    heads_for b64 net proxy server inode dest s (polls_of i evs) (sy_tasks (system_run b64 net proxy evs S) ! i)"
proof (induction evs rule: rev_induct)
  case Nil
  then show ?case using i by (simp add: heads_for_def)
next
  case (snoc e evs)
  let ?S = "system_run b64 net proxy evs S"
  have spare: "all_spare key inode (tracer_ops evs) (sy_table S)"
    using snoc.prems(1) by (simp add: tracer_ops_def all_spare_append)
  have now: "tk_client (sy_tasks ?S ! i) = client"
    "heads_for b64 net proxy server inode dest s (polls_of i evs) (sy_tasks ?S ! i)"
    using snoc.IH [OF spare] snoc.prems(2) by auto
  have "reg.resolvable key inode \<lparr>si_dest = dest\<rparr> (sy_table ?S)"
    using run_ops_keeps [OF found spare] by (simp add: system_run_table)
  then have t: "get_by_inode (sy_table ?S) inode = Some \<lparr>si_dest = dest\<rparr>"
    by (simp add: reg.resolvable_def get_by_inode_def)
  have len: "i < length (sy_tasks ?S)" by (rule system_run_length [OF i(1)])
  have scan: "scan_conn fs client server = Some inode" if "e = Poll i fs d ready" for fs d ready
    using snoc.prems(2) [of fs d ready] that by simp
  show ?case
  proof (cases "\<exists>fs d ready. e = Poll i fs d ready")
    case True
    then obtain fs d ready where e: "e = Poll i fs d ready" by blast
    show ?thesis
      using now(1) heads_for_poll [OF now(2,1) scan [OF e] t, of ready d] system_step_task(2) [OF len, of b64 net proxy e]
      by (cases ready) (simp_all add: e del: system_step.simps)
  next
    case False
    then show ?thesis
      using now system_step_task(2) [OF len, of b64 net proxy e]
      by (cases e) (auto simp del: system_step.simps)
  qed
qed

section \<open>After an error of \<open>accept\<close>\<close>

fun is_accept :: "'s proxy_event \<Rightarrow> bool" where
  "is_accept (Accepts a) = True"
| "is_accept _ = False"

lemma ended_step:
  "system_step b64 net proxy ev (S\<lparr>sy_ended := Some x\<rparr>) =
     (if is_accept ev then S else system_step b64 net proxy ev S)\<lparr>sy_ended := Some x\<rparr>"
  by (cases ev) (simp_all add: local_accept_def)

lemma ended_run:
  "system_run b64 net proxy evs (S\<lparr>sy_ended := Some x\<rparr>) =
     (system_run b64 net proxy (filter (\<lambda>ev. \<not> is_accept ev) evs) S)\<lparr>sy_ended := Some x\<rparr>"
  by (induction evs arbitrary: S) (simp_all add: ended_step)

lemma no_accept_length:
  "\<forall>ev \<in> set evs. \<not> is_accept ev \<Longrightarrow> length (sy_tasks (system_run b64 net proxy evs S)) = length (sy_tasks S)"
proof (induction evs arbitrary: S)
  case (Cons ev evs)
  then show ?case by (cases ev) simp_all
qed simp

section \<open>Properties\<close>

text \<open>
  C2. Many clients at once compute what each would compute alone. For every sequence of accepted
  clients, polls of tasks and uses of the table by the tracer, there is one task per client that was
  accepted, and what it has done to its streams, and its result, are those of
  \<open>handle_client\<close> for that client, with attempts that saw states the table went through,
  and some order of polling the two copies of the relay. A task that dials stands at an await of the
  dialogue for its destination and has done what the awaits before it did; a task that has not
  dialled yet has not touched its streams.
\<close>

theorem tasks_refine_handle_client:
  "length (sy_tasks (system_run b64 net proxy evs system_start)) = length (accepted evs) \<and>
   (\<forall>i < length (accepted evs).
      case (accepted evs ! i, sy_tasks (system_run b64 net proxy evs system_start) ! i) of
        ((client, local_addr, s), tk) \<Rightarrow>
          (settled (tk_stage tk) \<longrightarrow>
             (\<exists>views polls.
                (\<forall>k. \<exists>xs. prefix xs evs \<and>
                   view_table (views k) = sy_table (system_run b64 net proxy xs system_start)) \<and>
                handle_client b64 net local_addr client views polls proxy s =
                  (case tk_stage tk of Finished r \<Rightarrow> Some r | _ \<Rightarrow> None, tk_conn tk))) \<and>
          (\<forall>dest p. tk_stage tk = Dialling dest p \<longrightarrow>
             (\<exists>n. progress n (proxy_dial b64 net proxy dest) s = (p, tk_conn tk))) \<and>
          (\<not> settled (tk_stage tk) \<and> (\<forall>dest p. tk_stage tk \<noteq> Dialling dest p) \<longrightarrow> tk_conn tk = s))"
proof -
  let ?T = "tables b64 net proxy evs" and ?S = "system_run b64 net proxy evs system_start"
  have inv: "list_all2 (task_inv b64 net proxy ?T) (accepted evs) (sy_tasks ?S)"
    using system_inv_run unfolding system_inv_def by blast
  have one: "(settled (tk_stage tk) \<longrightarrow> computed b64 net proxy ?T (client, local_addr, s)
         (case tk_stage tk of Finished r \<Rightarrow> Some r | _ \<Rightarrow> None) (tk_conn tk)) \<and>
      (\<forall>dest p. tk_stage tk = Dialling dest p \<longrightarrow>
         (\<exists>n. progress n (proxy_dial b64 net proxy dest) s = (p, tk_conn tk))) \<and>
      (\<not> settled (tk_stage tk) \<and> (\<forall>dest p. tk_stage tk \<noteq> Dialling dest p) \<longrightarrow> tk_conn tk = s)"
    if "task_inv b64 net proxy ?T (client, local_addr, s) tk" for client local_addr s tk
    using that by (auto simp: task_inv_def split: stage.splits intro: resolves_computed)
  have "views_in ?T views \<longleftrightarrow> (\<forall>k. \<exists>xs. prefix xs evs \<and>
      view_table (views k) = sy_table (system_run b64 net proxy xs system_start))" for views
    by (auto simp: views_in_def tables_def)
  then show ?thesis
    using inv one by (auto simp: list_all2_conv_all_nth computed_def split: prod.splits)
qed

text \<open>A client on port 40000, and the three steps up to the second lookup of its destination.\<close>

definition sample_client :: "script accepted_client" where
  "sample_client = (SockV4 0x7F000001 40000, Inr (SockV4 0x7F000001 9999), proxy_sends [])"

definition sample_socks :: proxy_config where
  "sample_socks = \<lparr>pc_protocol = Socks5, pc_addr = SockV4 0x0A000001 1080, pc_auth = None\<rparr>"

lemma sample_scan: "scan_conn sample_procfs (SockV4 0x7F000001 40000) (SockV4 0x7F000001 9999) = Some ''8812''"
  using scan_conn_rows [of sample_procfs "Inr ''header''" "[sample_tcp_text]" "[sample_tcp_row]" "0x7F000001" 40000
      "0x7F000001" 9999 sample_tcp_row] sample_tcp_fields
  by (simp add: sample_open_lines row_ok_def) (simp add: sample_tcp_row_def row_ok_def)

theorem tasks_refine_handle_client_witness:
  "\<exists>tk. sy_tasks (system_run (\<lambda>x. x) script_net sample_socks
       [Accepts (Inr sample_client), Poll 0 sample_procfs ToProxy True] system_start) = [tk] \<and>
     tk_conn tk = proxy_sends []"
proof -
  let ?evs = "[Accepts (Inr sample_client), Poll 0 sample_procfs ToProxy True]"
  let ?tks = "sy_tasks (system_run (\<lambda>x. x) script_net sample_socks ?evs system_start)"
  have acc: "accepted ?evs = [sample_client]" by simp
  have start: "tk_stage (?tks ! 0) = Scanning (SockV4 0x7F000001 9999) 0"
    by (simp add: system_start_def local_accept_def task_poll_def sample_client_def)
  note refines = tasks_refine_handle_client [of "\<lambda>x. x" script_net sample_socks ?evs]
  have "length ?tks = 1" using refines acc by simp
  moreover have "tk_conn (?tks ! 0) = proxy_sends []"
    using refines [THEN conjunct2, THEN spec [of _ 0]] start
    by (simp add: acc sample_client_def del: system_run_simps)
  ultimately show ?thesis by (intro exI [of _ "?tks ! 0"]) (auto simp: length_Suc_conv simp del: system_run_simps)
qed

text \<open>
  C3. The local proxy asks the upstream proxy for no destination but one that a traced program tried
  to connect to: in every reachable state of the system, with any number of clients, the destination
  a task dials or relays to is one the tracer has recorded before.
\<close>

theorem proxy_asks_recorded_only:
  assumes "tk \<in> set (sy_tasks (system_run b64 net proxy evs system_start))"
    and "stage_dest (tk_stage tk) = Some dest"
  shows "dest \<in> recorded evs"
  using asks_recorded_run [of evs b64 net proxy] assms by (force simp: asks_recorded_def)

theorem proxy_asks_recorded_only_witness:
  "SockV4 0x5DB8D822 443 \<in> recorded
     [TracerLock [(sample_procfs, InsertDest 12 5 \<lparr>si_dest = SockV4 0x5DB8D822 443\<rparr>),
        (sample_procfs, BindInode 12 5 ''8812'')],
      Accepts (Inr sample_client), Poll 0 sample_procfs ToProxy True, Poll 0 sample_procfs ToProxy True,
      Poll 0 sample_procfs ToProxy True]"
proof -
  let ?evs = "[TracerLock [(sample_procfs, InsertDest 12 5 \<lparr>si_dest = SockV4 0x5DB8D822 443\<rparr>),
        (sample_procfs, BindInode 12 5 ''8812'')],
      Accepts (Inr sample_client), Poll 0 sample_procfs ToProxy True, Poll 0 sample_procfs ToProxy True,
      Poll 0 sample_procfs ToProxy True]"
  let ?S = "system_run (\<lambda>x. x) script_net sample_socks ?evs system_start"
  have g: "tgid_of sample_procfs t 12 = 12" if "tid_to_tgid t = Map.empty \<or> tid_to_tgid t 12 = Some 12" for t
    using that by (auto simp: tgid_of_def resolve_tgid_def sample_tgid_12 Let_def)
  have "get_by_inode (run_ops (event_ops (hd ?evs)) tracker_new) ''8812'' = Some \<lparr>si_dest = SockV4 0x5DB8D822 443\<rparr>"
    by (simp add: insert_dest_key bind_inode_key key_defs get_by_inode_def g tracker_new_def)
  then have "stage_dest (tk_stage (sy_tasks ?S ! 0)) = Some (SockV4 0x5DB8D822 443)" "length (sy_tasks ?S) = 1"
    by (simp_all add: system_start_def local_accept_def task_poll_def sample_client_def sample_scan match_inode_def
        proxy_dial_def sample_socks_def socks5_dial_def await_pc_def del: run_ops.simps run_op.simps)
  then show ?thesis
    using proxy_asks_recorded_only [of "sy_tasks ?S ! 0" "\<lambda>x. x" script_net sample_socks ?evs "SockV4 0x5DB8D822 443"]
    by (simp del: system_run_simps)
qed

text \<open>
  The client of a redirected connection gets its destination. While the table resolves a socket's
  inode to a destination and the tracer's calls spare that socket, a client whose connection
  \<open>/proc/net/tcp\<close> shows with this inode dials the destination, whatever other clients
  and the tracer do in between: after twelve polls that do not find the task waiting, three up to the
  lookup and at most nine awaits, it has done what \<open>proxy_connection\<close> does for this
  destination.
\<close>

lemma redirected_client_dials:
  assumes "reg.resolvable key inode \<lparr>si_dest = dest\<rparr> (sy_table S)"
    and "all_spare key inode (tracer_ops evs) (sy_table S)"
    and "i < length (sy_tasks S)" and "sy_tasks S ! i = task_new (client, Inr server, s)"
    and "\<And>fs d ready. Poll i fs d ready \<in> set evs \<Longrightarrow> scan_conn fs client server = Some inode"
    and "tk = sy_tasks (system_run b64 net proxy evs S) ! i"
  shows "case tk_stage tk of
      Dialling d p \<Rightarrow> polls_of i evs < 12 \<and> d = dest
    | Relaying d \<Rightarrow> d = dest \<and> (\<exists>polls. proxy_connection b64 net polls proxy dest s = (None, tk_conn tk))
    | Finished r \<Rightarrow> \<exists>polls. proxy_connection b64 net polls proxy dest s = (Some r, tk_conn tk)
    | _ \<Rightarrow> polls_of i evs < 3"
proof -
  have heads: "heads_for b64 net proxy server inode dest s (polls_of i evs) tk"
    using heads_for_run [OF assms(1,3,4,2,5), where ?b64.0 = b64 and net = net and proxy = proxy] assms(6) by simp
  have "k < 9" if "progress k (proxy_dial b64 net proxy dest) s = (p, s1)" "\<forall>r. p \<noteq> Done r" for k p s1
    using progress_ends [OF proxy_dial_ends [of b64 net proxy dest], of k s] that by (cases "9 \<le> k") auto
  then show ?thesis using heads by (fastforce simp: heads_for_def split: stage.splits)
qed

text \<open>
  C14. When a client comes to its relay. A task needs at most sixteen polls that do not find it
  waiting, whatever the table, the proc file system and the upstream proxy show, to be relaying or to
  have ended; events of other tasks and of the tracer do not count and do not delay it. But nothing
  bounds the time for this: the dialogue with the upstream proxy has no timeout, so a task that
  stands at an await of it stays exactly where it is for as long as that await does not complete.
\<close>

theorem client_settles:
  assumes "i < length (sy_tasks S)" and "tk_stage (sy_tasks S ! i) = Accepted"
  shows "(16 \<le> polls_of i evs \<longrightarrow> settled (tk_stage (sy_tasks (system_run b64 net proxy evs S) ! i))) \<and>
    (\<forall>dest p more.
       tk_stage (sy_tasks (system_run b64 net proxy evs S) ! i) = Dialling dest p \<and> polls_of i more = 0 \<longrightarrow>
       sy_tasks (system_run b64 net proxy (evs @ more) S) ! i = sy_tasks (system_run b64 net proxy evs S) ! i)"
proof -
  have inv: "settles_within (16 - polls_of i evs) (tk_stage (sy_tasks (system_run b64 net proxy evs S) ! i))"
    using system_run_settles [OF assms(1), of 16] assms(2) by simp
  have "\<exists>step next. p = Await step next"
    if "tk_stage (sy_tasks (system_run b64 net proxy evs S) ! i) = Dialling dest p" for dest p
    using inv that by (cases p) auto
  then show ?thesis
    using inv system_run_pending [OF system_run_length [OF assms(1)]] settles_within_0 by fastforce
qed

theorem client_settles_witness:
  "settled (tk_stage (sy_tasks (system_run (\<lambda>x. x) script_net sample_socks
     (Accepts (Inr sample_client) # replicate 16 (Poll 0 sample_procfs ToProxy True)) system_start) ! 0))"
proof -
  let ?S = "system_step (\<lambda>x. x) script_net sample_socks (Accepts (Inr sample_client)) system_start"
  have "0 < length (sy_tasks ?S)" "tk_stage (sy_tasks ?S ! 0) = Accepted"
    by (simp_all add: local_accept_def system_start_def sample_client_def)
  then show ?thesis
    using client_settles [of 0 ?S "replicate 16 (Poll 0 sample_procfs ToProxy True)" "\<lambda>x. x" script_net sample_socks]
    by (simp add: polls_of_def del: system_step.simps)
qed

text \<open>
  C33. An error of \<open>accept\<close>, also a passing one such as a lack of descriptors, ends the
  local proxy for good: \<open>run\<close> returns it, and no client is handled after it. Everything
  else goes on: the tasks that were started and the table are, after any further events, what they
  are in the run without the accepts, where the listener stands still; what the tracer records for
  the connections it redirects to the proxy's address enters the table as before.
\<close>

theorem accept_error_is_final:
  assumes "sy_ended S = None"
  shows "sy_ended (system_run b64 net proxy (Accepts (Inl e) # evs) S) = Some (Io e) \<and>
    sy_tasks (system_run b64 net proxy (Accepts (Inl e) # evs) S) =
      sy_tasks (system_run b64 net proxy (filter (\<lambda>ev. \<not> is_accept ev) evs) S) \<and>
    length (sy_tasks (system_run b64 net proxy (Accepts (Inl e) # evs) S)) = length (sy_tasks S) \<and>
    sy_table (system_run b64 net proxy (Accepts (Inl e) # evs) S) = run_ops (tracer_ops evs) (sy_table S)"
proof -
  have "system_step b64 net proxy (Accepts (Inl e)) S = S\<lparr>sy_ended := Some (Io e)\<rparr>"
    using assms by (simp add: local_accept_def)
  then have run: "system_run b64 net proxy (Accepts (Inl e) # evs) S =
      (system_run b64 net proxy (filter (\<lambda>ev. \<not> is_accept ev) evs) S)\<lparr>sy_ended := Some (Io e)\<rparr>"
    by (simp only: system_run_simps ended_run)
  have "length (sy_tasks (system_run b64 net proxy (filter (\<lambda>ev. \<not> is_accept ev) evs) S)) = length (sy_tasks S)"
    by (rule no_accept_length) simp
  moreover have "sy_table (system_run b64 net proxy (Accepts (Inl e) # evs) S) = run_ops (tracer_ops evs) (sy_table S)"
    using system_run_table [of b64 net proxy "Accepts (Inl e) # evs" S] by (simp add: tracer_ops_def)
  ultimately show ?thesis using run by (simp del: system_run_simps)
qed

theorem accept_error_is_final_witness:
  "length (sy_tasks (system_run (\<lambda>x. x) script_net sample_socks
     [Accepts (Inl (Os_Error 24)), Accepts (Inr sample_client)] system_start)) = 0"
  using accept_error_is_final [of system_start "\<lambda>x. x" script_net sample_socks "Os_Error 24"
      "[Accepts (Inr sample_client)]"]
  by (simp add: system_start_def del: system_run_simps(2,3))

end
