(* ===== verification/Unit_Tests.thy ===== *)
theory Unit_Tests
  imports No_Proxy Tracker Upstream
begin

text \<open>
  The unit tests of the sources, run on the model: those of \<open>src/no_proxy.rs\<close>,
  \<open>src/proxy/socks5.rs\<close> and \<open>src/socket/tracker.rs\<close>. A test is a truth
  value; an \<open>unwrap\<close> that would panic makes it false. What a test takes from the machine
  it runs on, name resolution and the proc file system, are its arguments.
\<close>

section \<open>no_proxy.rs\<close>

definition bypass_test :: "no_proxy \<Rightarrow> string \<Rightarrow> bool option" where
  "bypass_test np dest = map_option (should_bypass np) (parse_socket_addr dest)"

definition parses_and_matches_ip_rules :: "(string \<Rightarrow> io_error + socket_addr list) \<Rightarrow> bool" where
  "parses_and_matches_ip_rules resolve =
     (case no_proxy_parse resolve
             [''localhost'', ''127.0.0.1'', ''192.168.0.0/16'', ''::1'', ''2001:db8::/32''] of
        Inl e \<Rightarrow> False
      | Inr np \<Rightarrow>
          bypass_test np ''127.0.0.1:8080'' = Some True \<and>
          bypass_test np ''192.168.1.20:443'' = Some True \<and>
          bypass_test np ''[::1]:8080'' = Some True \<and>
          bypass_test np ''[2001:db8::1]:443'' = Some True \<and>
          bypass_test np ''8.8.8.8:53'' = Some False)"

definition records_unsupported_host_patterns :: "(string \<Rightarrow> io_error + socket_addr list) \<Rightarrow> bool" where
  "records_unsupported_host_patterns resolve =
     (case no_proxy_parse resolve [''.example.com''] of
        Inl e \<Rightarrow> False
      | Inr np \<Rightarrow> unsupported_suffix_patterns np = [''.example.com''])"

definition resolves_concrete_hostnames :: "(string \<Rightarrow> io_error + socket_addr list) \<Rightarrow> bool" where
  "resolves_concrete_hostnames resolve =
     (case no_proxy_parse resolve [''localhost''] of
        Inl e \<Rightarrow> False
      | Inr np \<Rightarrow>
          bypass_test np ''127.0.0.1:8080'' = Some True \<and> bypass_test np ''[::1]:8080'' = Some True)"

definition records_unresolved_hostnames :: "(string \<Rightarrow> io_error + socket_addr list) \<Rightarrow> bool" where
  "records_unresolved_hostnames resolve =
     (case no_proxy_parse resolve [''nonexistent.invalid''] of
        Inl e \<Rightarrow> False
      | Inr np \<Rightarrow> unresolved_hostnames np = [''nonexistent.invalid''])"

section \<open>tracker.rs and socks5.rs\<close>

definition bind_inode_exposes_dest_lookup :: "procfs \<Rightarrow> i32 \<Rightarrow> bool" where
  "bind_inode_exposes_dest_lookup fs pid =
     (case parse_socket_addr ''1.2.3.4:443'' of
        None \<Rightarrow> False
      | Some dest \<Rightarrow>
          (let t = bind_inode fs pid 7 ''12345'' (insert_dest fs pid 7 \<lparr>si_dest = dest\<rparr> tracker_new)
           in map_option si_dest (get_by_inode t ''12345'') = Some dest \<and>
              get_by_inode (close_enter fs pid 7 t) ''12345'' = None))"

definition socks5_connect_ipv4_no_auth :: "socket_addr \<Rightarrow> bool" where
  "socks5_connect_ipv4_no_auth proxy_addr =
     (case parse_socket_addr ''142.250.72.14:443'' of
        None \<Rightarrow> False
      | Some dest \<Rightarrow>
          (case socks5_connect script_net proxy_addr dest None
                  (proxy_sends [SOCKS_VERSION, METHOD_NO_AUTH, SOCKS_VERSION, 0x00, 0x00, ATYP_IPV4,
                     127, 0, 0, 1, 0x12, 0x34]) of
             (r, s) \<Rightarrow>
               (let greeting = take 3 (sc_out s); req = take 10 (drop 3 (sc_out s))
                in r = Inr () \<and> greeting = [SOCKS_VERSION, 1, METHOD_NO_AUTH] \<and> length req = 10 \<and>
                   req ! 0 = SOCKS_VERSION \<and> req ! 1 = CMD_CONNECT \<and> req ! 3 = ATYP_IPV4)))"

section \<open>They pass\<close>

lemmas printing =
  show_ipv4_def v4_octets_def u32_to_be_bytes_def to_le_def upt_rec show_nat.simps show_hex.simps digit_char_def
  char_of_def bit_0 show_ipv6_def is_ipv4_mapped_def v6_segments_list show_groups_def

lemma printed:
  "show_socket_addr (SockV4 0x7F000001 8080) = ''127.0.0.1:8080''"
  "show_socket_addr (SockV4 0xC0A80114 443) = ''192.168.1.20:443''"
  "show_socket_addr (SockV4 0x08080808 53) = ''8.8.8.8:53''"
  "show_socket_addr (SockV4 0x01020304 443) = ''1.2.3.4:443''"
  "show_socket_addr (SockV4 0x8EFA480E 443) = ''142.250.72.14:443''"
  by (simp_all add: printing)

lemma printed_v6:
  "show_socket_addr (SockV6 1 8080 0 0) = ''[::1]:8080''"
  "show_socket_addr (SockV6 0x20010db8000000000000000000000001 443 0 0) = ''[2001:db8::1]:443''"
  by (simp_all add: printing)

lemma parsed:
  "parse_socket_addr ''127.0.0.1:8080'' = Some (SockV4 0x7F000001 8080)"
  "parse_socket_addr ''192.168.1.20:443'' = Some (SockV4 0xC0A80114 443)"
  "parse_socket_addr ''8.8.8.8:53'' = Some (SockV4 0x08080808 53)"
  "parse_socket_addr ''1.2.3.4:443'' = Some (SockV4 0x01020304 443)"
  "parse_socket_addr ''142.250.72.14:443'' = Some (SockV4 0x8EFA480E 443)"
  "parse_socket_addr ''[::1]:8080'' = Some (SockV6 1 8080 0 0)"
  "parse_socket_addr ''[2001:db8::1]:443'' = Some (SockV6 0x20010db8000000000000000000000001 443 0 0)"
  unfolding printed [symmetric] printed_v6 [symmetric] parse_show_socket_addr by simp_all

lemma rule_texts:
  "''127.0.0.1'' = show_ip_addr (IpV4 0x7F000001)" "''::1'' = show_ip_addr (IpV6 1)"
  "''192.168.0.0/16'' = cidr_text (IpV4 0xC0A80000) 16"
  "''2001:db8::/32'' = cidr_text (IpV6 0x20010db8000000000000000000000000) 32"
  by (simp_all add: cidr_text_def printing)

lemma lower_l: "to_ascii_lowercase c = CHR ''l'' \<Longrightarrow> (of_char c :: nat) \<in> {76, 108}"
  by (auto simp: to_ascii_lowercase_def Let_def split: if_splits dest: arg_cong [where f = "of_char :: char \<Rightarrow> nat"])

lemma parse_part_ip: "parse_part resolve np (show_ip_addr ip) = Inr (push_rule (IpExact ip) np)"
proof -
  have code: "46 \<le> (of_char c :: nat) \<and> (of_char c :: nat) \<le> 70 \<or> 97 \<le> (of_char c :: nat) \<and> (of_char c :: nat) \<le> 102"
    if "c \<in> set (show_ip_addr ip)" for c
    using show_ip_addr_chars [OF that] by (auto simp: is_digit_def to_digit_def Let_def split: if_splits)
  have plain: "plain_char c" if "c \<in> set (show_ip_addr ip)" for c
    using code [OF that] by (auto simp: plain_char_def is_whitespace_def)
  have lower: "to_ascii_lowercase c \<noteq> CHR ''l''" if "c \<in> set (show_ip_addr ip)" for c
    using code [OF that] lower_l [of c] by auto
  have "parse_ip_addr [] = None"
    using read_groups_stop [of "[]" 8 8 0] read_ipv4_no_dot [of "[]"]
    by (simp add: parse_ip_addr_def parse_with_def read_ip_addr_def read_ipv6_addr_def read_given_char_def
        groups_end_def group_end_def)
  then have ne: "show_ip_addr ip \<noteq> []" using parse_show_ip_addr [of ip] by auto
  have "show_ip_addr ip \<noteq> ''*''" using code [of "CHR ''*''"] by auto
  moreover have "CHR ''l'' \<notin> to_ascii_lowercase ` set (show_ip_addr ip)" using lower by fastforce
  then have "\<not> eq_ignore_ascii_case (show_ip_addr ip) ''localhost''"
    by (auto simp: eq_ignore_ascii_case_def to_ascii_lowercase_def dest: arg_cong [where f = set])
  ultimately show ?thesis
    using plain ne trim_plain [of "show_ip_addr ip"] by (simp add: parse_part_def Let_def parse_show_ip_addr)
qed

lemma parse_part_localhost: "parse_part resolve np ''localhost'' = Inr (push_rule Loopback np)"
  by (simp add: parse_part_def trim_plain plain_char_def is_whitespace_def eq_ignore_ascii_case_def Let_def)

lemma parse_ip_none:
  assumes "\<not> is_digit 16 c" and "c \<noteq> CHR '':''"
  shows "parse_ip_addr (c # s) = None"
proof -
  have "\<not> is_digit 10 c" using assms(1) by (auto simp: is_digit_def to_digit_def Let_def split: if_splits)
  then have v4: "read_ipv4_addr (c # s) = None"
    by (simp add: read_ipv4_addr_def eval_nat_numeral read_separator_def read_number_none)
  have "read_groups (Suc n) 8 0 (c # s) = ([], False, c # s)" for n
    using assms by (simp add: read_separator_def read_number_none v4)
  from this [of 7] have "read_groups 8 8 0 (c # s) = ([], False, c # s)" by simp
  then have "read_ipv6_addr (c # s) = None"
    using assms(2) by (simp add: read_ipv6_addr_def read_given_char_def)
  then show ?thesis by (simp add: parse_ip_addr_def parse_with_def read_ip_addr_def v4)
qed

text \<open>
  The unit tests of the repository hold of the model, the one on an unknown host name when name
  resolution does not know it.
\<close>

lemma unit_tests_pass:
  assumes "\<And>addrs. resolve ''nonexistent.invalid'' = Inr addrs \<Longrightarrow> addrs = []"
  shows "parses_and_matches_ip_rules resolve" and "records_unsupported_host_patterns resolve"
    and "resolves_concrete_hostnames resolve" and "records_unresolved_hostnames resolve"
    and "bind_inode_exposes_dest_lookup fs pid" and "socks5_connect_ipv4_no_auth proxy_addr"
proof -
  show "parses_and_matches_ip_rules resolve"
    by (simp add: parses_and_matches_ip_rules_def rule_texts no_proxy_parse_def parse_part_localhost parse_part_ip
        parse_part_cidr_text bypass_test_def parsed should_bypass_def push_rule_def empty_no_proxy_def
        net_contains_def contains_v4_def contains_v6_def v4_octets_nth mask_eq_exp_minus_1 Let_def
        del: show_ip_addr.simps)
  show "resolves_concrete_hostnames resolve"
    by (simp add: resolves_concrete_hostnames_def no_proxy_parse_def parse_part_localhost bypass_test_def parsed
        should_bypass_def push_rule_def empty_no_proxy_def is_loopback_v4_iff del: is_loopback.simps(1))
  show "records_unsupported_host_patterns resolve"
    by (simp add: records_unsupported_host_patterns_def no_proxy_parse_def parse_part_def trim_plain
        plain_char_def is_whitespace_def eq_ignore_ascii_case_def parse_ip_none is_digit_def to_digit_def empty_no_proxy_def Let_def)
  show "records_unresolved_hostnames resolve"
    using assms by (auto simp: records_unresolved_hostnames_def no_proxy_parse_def parse_part_def trim_plain
        plain_char_def is_whitespace_def eq_ignore_ascii_case_def to_ascii_lowercase_def parse_ip_none is_digit_def to_digit_def
        empty_no_proxy_def Let_def split: sum.splits)
  have "tid_to_tgid (cached fs pid tracker_new) pid = Some (tgid_of fs tracker_new pid)" by simp
  then show "bind_inode_exposes_dest_lookup fs pid"
    by (simp add: bind_inode_exposes_dest_lookup_def parsed Let_def insert_dest_key bind_inode_key close_enter_key
        key_defs get_by_inode_def tgid_of_known cached_known)
  show "socks5_connect_ipv4_no_auth proxy_addr"
    by (simp add: socks5_connect_ipv4_no_auth_def parsed socks5_connect_def socks5_dial_def await_pc_def socks5_greeting_def socks5_negotiate_def
        socks5_reply_def discard_bound_def socks_consts script_net_def proxy_sends_def Let_def v4_octets_def
        u32_to_be_bytes_def u16_to_be_bytes_def to_le_def upt_rec)
qed

end
