(* ===== verification/Spec2Isabelle.thy ===== *)
theory Spec2Isabelle
  imports Program Trace_Runs Proxy_Tasks Unit_Tests
begin

text \<open>
  \<^bold>\<open>proxec: a transparent proxy built on ptrace.\<close>

  proxec runs a command under \<open>ptrace\<close> and sends its outgoing TCP connections through an
  HTTP or SOCKS5 proxy. The tracer stops the traced threads at system calls; at a
  \<open>connect\<close> that is to be intercepted it records the original destination in a table and
  rewrites the socket address in the thread's memory to that of a local proxy; at the exit of the
  call it puts the original address back. The local proxy accepts the redirected connection, finds
  the socket's inode through \<open>/proc/net/tcp\<close>, looks the original destination up in the
  table and opens a tunnel to it through the upstream proxy. A seccomp filter limits the stops to the
  system calls that matter. The loop keeps account of the traced tasks, passes signals on, shuts the
  tasks down when it is told to, and ends with the status of the command.

  \<^bold>\<open>Theories and sources\<close> (all under \<open>src/src/\<close>).

  \<^item> \<open>Prelude\<close>, \<open>Rust_Strings\<close>, \<open>Net_Types\<close>: what the
    sources use of the language and its standard library. Machine integers are words of their width,
    \<open>Result\<close> is a sum with the error on the left (\<open>rbind\<close> is the question
    mark), strings are lists of their UTF-8 bytes as characters. Byte orders and address octets are
    instances of the locale \<open>byte_codec\<close>. Printing and parsing of numbers, IP addresses
    and socket addresses follow the standard library; \<open>Ipv6_Text\<close> shows that they are
    inverse, for every IPv4 and IPv6 address.
  \<^item> \<open>Errors\<close>: \<open>error.rs\<close> and the errors of the system,
    \<open>is_esrch_io\<close> and \<open>is_esrch_nix\<close>.
  \<^item> \<open>Procfs\<close>: the functions of \<open>socket/tracker.rs\<close> that read the
    proc file system, over a record of file contents and directory listings.
  \<^item> \<open>Kernel\<close>: the system calls as a record \<open>os\<close> of functions on an
    abstract state \<open>'k\<close>, a parameter of everything above it. What theorems rely on are
    named predicates on this record: \<open>tracee_memory\<close> (peek, poke and
    \<open>process_vm_readv\<close> act on one memory), \<open>tracee_regs\<close>,
    \<open>own_descriptors\<close>, \<open>pidfd_calls_keep\<close>, \<open>hash_order_ok\<close>
    (iteration of a hash set lists its elements once), \<open>finite_events\<close> (the traced
    programs produce finitely many events, the last of them that there is no child left),
    \<open>stop_reports\<close> (which reported stops are not answered yet),
    \<open>logs_signals\<close> (what \<open>kill\<close> and \<open>killpg\<close> have sent). The
    field \<open>wait_blocks\<close> tells the states in which a blocking \<open>waitpid\<close>
    never returns. \<open>Sample_Kernel\<close> is a concrete instance of all of them, on which
    witnesses are evaluated.
  \<^item> \<open>Arch\<close>: \<open>tracer/arch_x86_64.rs\<close>; \<open>Tracee_Memory\<close>:
    \<open>tracer/memory.rs\<close>; \<open>No_Proxy\<close>: \<open>no_proxy.rs\<close>.
  \<^item> \<open>Tracker\<close>: the table of \<open>socket/tracker.rs\<close>, each method a
    function on the record \<open>tracker\<close>.
  \<^item> \<open>Trace_Handlers\<close>: the handlers of system call entries and exits of
    \<open>tracer/trace_loop.rs\<close>, on the record \<open>hctx\<close> of kernel, table, thread
    state and statistics.
  \<^item> \<open>Trace_Loop\<close>: \<open>run\<close> of \<open>tracer/trace_loop.rs\<close> and
    the functions it calls; the local variables and the two atomics are the record
    \<open>tracer\<close>, each arm of the match on the wait status is a definition.
  \<^item> \<open>Trace_Runs\<close>: sequences of passes of that loop, with the state in which each
    handles its report.
  \<^item> \<open>Seccomp\<close>: \<open>tracer/seccomp.rs\<close>, with the filter as a list of
    instructions and the kernel's filter machine as a parameter (\<open>bpf_machine\<close>), of
    which \<open>bpf_run\<close> is an executable instance.
  \<^item> \<open>Upstream\<close>: \<open>proxy/config.rs\<close>, \<open>proxy/http.rs\<close>,
    \<open>proxy/socks5.rs\<close> over the record \<open>tcp\<close> of stream operations; the
    dialogue with the proxy is a value of the type \<open>dialogue\<close>, cut at its awaits, and
    \<open>complete\<close> is its run when every await completes; \<open>byte_stream\<close> is what
    is relied on of them.
  \<^item> \<open>Local_Proxy\<close>: \<open>handle_client\<close> and
    \<open>proxy_connection\<close> of \<open>proxy/local.rs\<close> for one client, with the relay,
    when the calls of its dialogue return; \<open>copies\<close> and \<open>two_streams\<close> are
    what is relied on of \<open>io::copy\<close> and of the two streams. \<open>Proxy_Tasks\<close>:
    \<open>run\<close> of \<open>proxy/local.rs\<close> with the tasks of all clients, the same code
    cut at the points where another thread can come in between; events are uses of the table by the
    tracer, accepted clients and polls of tasks, in any order; a poll says whether the await at which
    its task stands has completed.
  \<^item> \<open>Program\<close>: \<open>env.rs\<close>, \<open>cli.rs\<close>,
    \<open>main.rs\<close> and \<open>fork_exec\<close> of \<open>tracer/ptrace.rs\<close>.
    \<open>Unit_Tests\<close>: the unit tests of the sources, which hold of the model.

  \<^bold>\<open>Interfaces.\<close> \<open>byte_codec\<close> (encodings of fixed length),
  \<open>cidr_matcher\<close> (prefix matching as an interval, for 32 and 128 bits),
  \<open>dest_registry\<close> (the table as a map from descriptors and inodes to destinations),
  \<open>call_relation\<close> and its extensions \<open>poll_relation\<close>,
  \<open>task_relation\<close> and \<open>step_relation\<close> (what a relation on tracer states has
  to admit to hold over a pass of the loop). Each is interpreted on the definitions of the code.

  \<^bold>\<open>What is shown.\<close>
  \<^item> End to end (this theory): an intercepted connection reaches its original destination
    through a SOCKS5 or an HTTP proxy, and bytes are relayed in order both ways, for every
    interleaving of the client's task with other clients and with table operations that spare the
    socket; and the seccomp filter lets only calls pass that the handlers would leave alone, with two
    stated exceptions.
  \<^item> Handlers: the connect handler implements the policy \<open>connect_policy\<close>;
    interception is transparent to the program from entry to exit, over all passes of the loop in
    between; \<open>clone\<close> and \<open>clone3\<close> run without
    \<open>CLONE_UNTRACED\<close>; entries and exits alternate.
  \<^item> Table: its cache of thread groups is right and is used, so that it answers like a table
    that is told the group of every thread, also for threads whose status file is gone; it only ever
    holds destinations that were asked for; a recorded destination is found by inode and by
    descriptor until the descriptor is closed; the scope of a process's cleanup.
  \<^item> Loop: an invariant over all reachable states, with no destination in the table that the
    policy does not intercept; every stop that the blocking \<open>waitpid\<close> reports is
    answered, one that is found by polling is lost; it ends when the programs produce finitely many
    events and \<open>waitpid\<close> never blocks for ever; the exit status, with the case in which
    polling loses it; which signals a shutdown and its escalation send, and to whom; what happens to
    tasks that vanish.
  \<^item> Tracer and local proxy together: from an intercepted \<open>connect\<close> to the bytes
    of the tunnel, and that what the policy excepts is never asked of the upstream proxy, in every
    interleaving.
  \<^item> Local proxy and upstream: concurrent tasks compute what \<open>handle_client\<close>
    computes; no destination is asked for that no traced program wanted; a task comes to its relay or
    its end when the awaits of its dialogue complete, and stays where it is when one does not; after
    an error of \<open>accept\<close> no client is handled any more, while started tasks and the
    tracer go on; the relay loses nothing of the direction that ends first; the SOCKS5 dialogue
    succeeds exactly when the server grants the tunnel and is exact to the byte; messages decode;
    refusals and errors.
  \<^item> Rules, lookups and start: which no-proxy rules are malformed and what the others mean, the
    meaning of \<open>/proc/net/tcp\<close> rows and status files; the child makes each call only
    when those before have succeeded, the signal at the tracer's death excepted, so that the command
    never runs untraced; how the program ends.

  \<^bold>\<open>Bounds and termination.\<close> The loop is \<open>run_loop\<close>, a partial
  function in the option type: \<open>None\<close> is a loop that does not end. A pass may also hang
  in \<open>waitpid\<close>: \<open>wait_for_tracee\<close> is then \<open>None\<close>, the outcome
  of the pass is \<open>Hang\<close>, and the loop does not end either. That it ends is a theorem
  under \<open>finite_events\<close> and \<open>never_stuck\<close> (no state of the loop hangs);
  when no stop is unanswered and \<open>waitpid\<close> blocks only over one, a pass does not hang.
  The filter machine ends because jumps only go forward. A relay runs over a given list of polls and
  is \<open>None\<close> when it is not finished by then, as it may never be. The dialogue with the
  upstream proxy has no timeout: it is a value of the type \<open>dialogue\<close>, at most nine
  awaits, each of which may stay pending in \<open>Proxy_Tasks\<close>. Every other function is
  total.

  \<^bold>\<open>Where the code does not do what it means to\<close>, the theorems state what it
  does: the comparison that the filter makes in place of a bit test, \<open>socket\<close> calls that
  are never reported, the length argument of \<open>connect\<close> that is ignored, a vanished task
  at a seccomp stop that ends the tracer, running tasks that are given up at shutdown, stops and the
  exit status that are lost when they are found by polling, an upstream proxy that never answers and
  is waited for without a timeout, bytes that the HTTP client drops, the direction of a relay that is
  cut off when the other one ends, and the local proxy that an error of \<open>accept\<close> ends.

  \<^bold>\<open>Not modelled.\<close> Log messages, among them the final summary and
  \<open>entries\<close>, which is used for one only; the command line parser, which the
  \<open>clap\<close> library generates; the \<open>tokio\<close> runtime, in whose place stand all
  orders of polls, and \<open>io::copy\<close>, a parameter; a lock that a panic has poisoned; the
  kernel, the URL parser, name resolution and base64, which are parameters; module declarations.
\<close>

section \<open>From an intercepted connect to the upstream proxy\<close>

text \<open>The table after an intercepted \<open>connect\<close> and later operations that spare its descriptor.\<close>

lemma intercepted_resolvable:
  fixes h :: "'k hctx" and os :: "'k os" and pid :: i32
  defines "g \<equiv> tgid_of (proc_view os (kern h)) (trk h) pid"
  assumes mem: "tracee_memory os mem pid" and keep: "pidfd_calls_keep os mem"
    and r: "readable (mem (kern h) pid) (rsi regs) 32" and loc: "\<not> is_v6 (tc_local cfg)"
    and read: "read_sockaddr os (kern h) pid (rsi regs) (rdx regs) = Inr dest"
    and pol: "connect_policy cfg dest (stream_socket os pid (connect_fd regs) h) = Intercept"
    and enter: "handle_connect_enter os cfg pid regs h = (res, h')"
    and inode: "\<And>k. k \<in> {kern h, snd (probe_socket_is_stream os (kern h) pid (connect_fd regs))} \<Longrightarrow>
      read_socket_inode (proc_view os k) pid (connect_fd regs) = Some i"
    and fresh: "\<And>key. fd_inode (trk h) key = Some i \<Longrightarrow> key = (g, connect_fd regs)"
    and spare: "all_spare (g, connect_fd regs) i ops (trk h')"
  shows "reg.resolvable (g, connect_fd regs) i \<lparr>si_dest = dest\<rparr> (run_ops ops (trk h'))"
proof -
  obtain h2 :: "'k hctx" where "trk h' = record_connect (proc_view os (kern h2)) pid (connect_fd regs)
      \<lparr>si_dest = dest\<rparr> (read_socket_inode (proc_view os (kern h2)) pid (connect_fd regs)) (trk h2)"
    "kern h2 \<in> {kern h, snd (probe_socket_is_stream os (kern h) pid (connect_fd regs))}"
    "same_table (trk h2) (trk h)" "tid_to_tgid (trk h2) pid = Some g"
    using connect_enter_redirects [OF mem keep r loc read pol] enter unfolding g_def by auto
  then have h2: "trk h' = record_connect (proc_view os (kern h2)) pid (connect_fd regs)
      \<lparr>si_dest = dest\<rparr> (Some i) (trk h2)"
    "same_table (trk h2) (trk h)" "tid_to_tgid (trk h2) pid = Some g"
    using inode by simp_all
  have "tgid_of (proc_view os (kern h2)) (trk h2) pid = g" using h2(3) by (rule tgid_of_known)
  then have "reg.resolvable (g, connect_fd regs) i \<lparr>si_dest = dest\<rparr> (trk h')"
    using record_connect_resolvable [of "trk h2" i "proc_view os (kern h2)" pid "connect_fd regs"] fresh h2
    by (simp add: same_table_def)
  from run_ops_keeps [OF this spare] show ?thesis .
qed

text \<open>The connection table of the kernel shows a connection, of a socket with this inode.\<close>

definition shows_conn :: "procfs \<Rightarrow> ipv4 \<times> u16 \<Rightarrow> ipv4 \<times> u16 \<Rightarrow> string \<Rightarrow> bool" where
  "shows_conn fs client server i \<longleftrightarrow>
     (\<exists>header texts rows row.
        open_lines fs ''/proc/net/tcp'' = Some (header # map Inr texts) \<and>
        map split_whitespace texts = map row_fields rows \<and> list_all row_ok rows \<and>
        find (\<lambda>row. row_local row = client \<and> row_remote row = server \<and> row_inode row \<noteq> ''0'') rows = Some row \<and>
        row_inode row = i)"

lemma shows_conn_scan:
  "shows_conn fs (cip, cport) (sip, sport) i \<Longrightarrow> scan_conn fs (SockV4 cip cport) (SockV4 sip sport) = Some i"
  unfolding shows_conn_def using scan_conn_rows by blast

text \<open>From the intercepted \<open>connect\<close> to the task of the local proxy that has dialled.\<close>

lemma redirected_task:
  fixes h :: "'k hctx" and os :: "'k os" and pid :: i32 and S :: "'s proxy_system"
  defines "g \<equiv> tgid_of (proc_view os (kern h)) (trk h) pid"
  assumes mem: "tracee_memory os mem pid" and keep: "pidfd_calls_keep os mem"
    and r: "readable (mem (kern h) pid) (rsi regs) 32" and loc: "\<not> is_v6 (tc_local cfg)"
    and read: "read_sockaddr os (kern h) pid (rsi regs) (rdx regs) = Inr dest"
    and pol: "connect_policy cfg dest (stream_socket os pid (connect_fd regs) h) = Intercept"
    and enter: "handle_connect_enter os cfg pid regs h = (res, h')"
    and inode: "\<And>k. k \<in> {kern h, snd (probe_socket_is_stream os (kern h) pid (connect_fd regs))} \<Longrightarrow>
      read_socket_inode (proc_view os k) pid (connect_fd regs) = Some i"
    and fresh: "\<And>key. fd_inode (trk h) key = Some i \<Longrightarrow> key = (g, connect_fd regs)"
    and table: "sy_table S = run_ops ops (trk h')"
    and spare: "all_spare (g, connect_fd regs) i (ops @ tracer_ops evs) (trk h')"
    and client: "n < length (sy_tasks S)"
      "sy_tasks S ! n = task_new (SockV4 cip cport, Inr (SockV4 sip sport), s)"
    and conn: "\<And>fs d ready. Poll n fs d ready \<in> set evs \<Longrightarrow> shows_conn fs (cip, cport) (sip, sport) i"
    and polls: "12 \<le> polls_of n evs"
    and tk: "tk = sy_tasks (system_run enc net proxy evs S) ! n"
  shows "\<exists>r polls. proxy_connection enc net polls proxy dest s = (r, tk_conn tk) \<and>
    tk_stage tk = (case r of None \<Rightarrow> Relaying dest | Some x \<Rightarrow> Finished x)"
proof -
  have sp: "all_spare (g, connect_fd regs) i ops (trk h')"
    "all_spare (g, connect_fd regs) i (tracer_ops evs) (sy_table S)"
    using spare by (simp_all add: all_spare_append table)
  have found: "reg.resolvable (g, connect_fd regs) i \<lparr>si_dest = dest\<rparr> (sy_table S)"
    unfolding table g_def
    by (rule intercepted_resolvable [OF mem keep r loc read pol enter inode fresh [unfolded g_def]
          sp(1) [unfolded g_def]])
  have "case tk_stage tk of
      Dialling d p \<Rightarrow> polls_of n evs < 12 \<and> d = dest
    | Relaying d \<Rightarrow> d = dest \<and> (\<exists>polls. proxy_connection enc net polls proxy dest s = (None, tk_conn tk))
    | Finished r \<Rightarrow> \<exists>polls. proxy_connection enc net polls proxy dest s = (Some r, tk_conn tk)
    | _ \<Rightarrow> polls_of n evs < 3"
    by (rule redirected_client_dials [OF found sp(2) client _ tk]) (rule shows_conn_scan [OF conn])
  then show ?thesis using polls by (auto split: stage.splits)
qed

text \<open>
  C1. End to end, for a SOCKS5 upstream proxy. A traced thread calls \<open>connect\<close> on a
  stream socket for a destination that is to be intercepted; the tracer rewrites the call. The
  redirected connection reaches the local proxy, which has any other clients as well, and the
  kernel's connection table shows it with the socket's inode whenever its task is polled. The tracer
  goes on with any calls on the table that spare the socket. Then, in any interleaving, once twelve
  polls of the client's task did not find it waiting for a call of its dialogue or for its sleep, the
  upstream proxy has received exactly greeting, credentials if asked for, a request that decodes to
  the original address and port, and then first bytes of what the client sends; and the client has
  received first bytes of what the tunnel delivers.
\<close>

theorem redirected_connection_reaches_destination:
  fixes h :: "'k hctx" and os :: "'k os" and pid :: i32 and S :: "'s proxy_system"
  defines "g \<equiv> tgid_of (proc_view os (kern h)) (trk h) pid"
  assumes mem: "tracee_memory os mem pid" and keep: "pidfd_calls_keep os mem"
    and r: "readable (mem (kern h) pid) (rsi regs) 32" and loc: "\<not> is_v6 (tc_local cfg)"
    and read: "read_sockaddr os (kern h) pid (rsi regs) (rdx regs) = Inr dest"
    and pol: "connect_policy cfg dest (stream_socket os pid (connect_fd regs) h) = Intercept"
    and enter: "handle_connect_enter os cfg pid regs h = (res, h')"
    and inode: "\<And>k. k \<in> {kern h, snd (probe_socket_is_stream os (kern h) pid (connect_fd regs))} \<Longrightarrow>
      read_socket_inode (proc_view os k) pid (connect_fd regs) = Some i"
    and fresh: "\<And>key. fd_inode (trk h) key = Some i \<Longrightarrow> key = (g, connect_fd regs)"
    and table: "sy_table S = run_ops ops (trk h')"
    and spare: "all_spare (g, connect_fd regs) i (ops @ tracer_ops evs) (trk h')"
    and client: "n < length (sy_tasks S)"
      "sy_tasks S ! n = task_new (SockV4 cip cport, Inr (SockV4 sip sport), s)"
    and conn: "\<And>fs d ready. Poll n fs d ready \<in> set evs \<Longrightarrow> shows_conn fs (cip, cport) (sip, sport) i"
    and polls: "12 \<le> polls_of n evs"
    and tk: "tk = sy_tasks (system_run enc net proxy evs S) ! n"
    and io: "two_streams net src held dst" "\<And>d. held d s = []"
    and proto: "pc_protocol proxy = Socks5" "auth_fits (pc_auth proxy) m" "bound_addr atyp bnd"
    and server: "src ToClient s = server_hello m @ [5, 0, rsv, atyp] @ bnd @ tunnel"
  shows "tk_stage tk \<in> {Relaying dest, Finished (Inr ())} \<and>
    (\<exists>up. prefix up (src ToProxy s) \<and>
       dst ToProxy (tk_conn tk) = dst ToProxy s @
         (socks5_greeting (pc_auth proxy) @ client_auth (pc_auth proxy) m @ socks5_request dest) @ up) \<and>
    (\<exists>down. prefix down tunnel \<and> dst ToClient (tk_conn tk) = dst ToClient s @ down) \<and>
    decode_request (socks5_request dest) = Some (sa_ip dest, sa_port dest)"
proof -
  obtain r ps where pc: "proxy_connection enc net ps proxy dest s = (r, tk_conn tk)"
    "tk_stage tk = (case r of None \<Rightarrow> Relaying dest | Some x \<Rightarrow> Finished x)"
    by (rule exE [OF redirected_task [OF mem keep r loc read pol enter _ _ table
            spare [unfolded g_def] client _ polls tk]]) (use inode fresh [unfolded g_def] conn in blast)+
  have net: "byte_stream net (src ToClient) (dst ToProxy)" using io(1) by (simp add: two_streams_def)
  obtain s1 where "socks5_connect net (pc_addr proxy) dest (pc_auth proxy) s = (Inr (), s1)"
    and s1: "src ToClient s1 = tunnel" "dst ToProxy s1 = dst ToProxy s @
      socks5_greeting (pc_auth proxy) @ client_auth (pc_auth proxy) m @ socks5_request dest"
    using socks5_dialogue [OF net proto(2) server proto(3)] by blast
  then have "dial enc net proxy dest s = (Inr (), s1)" by (simp add: dial_cases proto(1))
  from tunnel_bytes [OF io(1) this s1 io(2) pc(1)] show ?thesis
    using pc(2) socks5_request_decodes [of dest] by auto
qed

text \<open>A thread of process 12 about to connect its descriptor 5, the socket with inode 8812.\<close>

definition sample_start :: "sample_kernel hctx" where
  "sample_start =
     sample_hctx\<lparr>kern := sample_connect_state\<lparr>sk_fs := sample_procfs\<rparr>,
       trk := tracker_new\<lparr>stream_fds := {(12, 5)}\<rparr>\<rparr>"

lemma sample_start_group: "tgid_of (proc_view sample_os (kern sample_start)) (trk sample_start) 7 = 12"
  by (simp add: sample_start_def tgid_of_def resolve_tgid_def tracker_new_def sample_os_def
      sample_tgid_12 Let_def)

lemma sample_start_stream: "known_stream sample_os 7 5 sample_start"
  unfolding known_stream_def sample_start_group by (simp add: sample_start_def)

abbreviation sample_enter :: "(error + unit) \<times> sample_kernel hctx" where
  "sample_enter \<equiv> handle_connect_enter sample_os sample_cfg 7 sample_connect_regs sample_start"

lemma sample_intercept:
  "read_sockaddr sample_os (kern sample_start) 7 (rsi sample_connect_regs) (rdx sample_connect_regs) = Inr sample_dest"
  "connect_policy sample_cfg sample_dest
     (stream_socket sample_os 7 (connect_fd sample_connect_regs) sample_start) = Intercept"
  "k \<in> {kern sample_start,
      snd (probe_socket_is_stream sample_os (kern sample_start) 7 (connect_fd sample_connect_regs))} \<Longrightarrow>
    read_socket_inode (proc_view sample_os k) 7 (connect_fd sample_connect_regs) = Some ''8812''"
  "readable (sk_mem (kern sample_start) 7) (rsi sample_connect_regs) 32"
  "fd_inode (trk sample_start) key = None" "\<not> is_v6 (tc_local sample_cfg)"
proof -
  let ?r = sample_connect_regs
  have regs: "rsi ?r = 4096" "connect_fd ?r = 5" by (simp_all add: sample_connect_regs_def)
  have mem: "sk_mem (kern sample_start) = sk_mem sample_connect_state" by (simp add: sample_start_def)
  show "read_sockaddr sample_os (kern sample_start) 7 (rsi ?r) (rdx ?r) = Inr sample_dest"
    using read_sockaddr_stored [OF sample_memory, of "kern sample_start" 7 "page_at 4096" 4096 sample_dest]
      sample_connect_mem readable_page [of 28 4096] by (simp add: mem regs sample_dest_def)
  show "connect_policy sample_cfg sample_dest (stream_socket sample_os 7 (connect_fd ?r) sample_start) = Intercept"
    using sample_start_stream sample_policy by (simp add: stream_socket_def regs)
  show "read_socket_inode (proc_view sample_os k) 7 (connect_fd ?r) = Some ''8812''"
    if "k \<in> {kern sample_start, snd (probe_socket_is_stream sample_os (kern sample_start) 7 (connect_fd ?r))}"
    using that probe_keeps [OF sample_pidfd_fs, of "kern sample_start" 7 "connect_fd ?r"] sample_socket_inode
    by (auto simp: sample_os_def regs sample_start_def)
  show "readable (sk_mem (kern sample_start) 7) (rsi ?r) 32" using sample_connect_readable by (simp add: mem regs)
qed (simp_all add: sample_start_def tracker_new_def sample_cfg_def)

lemma sample_shows_conn: "shows_conn sample_procfs (0x7F000001, 40000) (0x7F000001, 9999) ''8812''"
  unfolding shows_conn_def
  by (rule exI [of _ "Inr ''header''"], rule exI [of _ "[sample_tcp_text]"], rule exI [of _ "[sample_tcp_row]"],
      rule exI [of _ sample_tcp_row])
    (auto simp: sample_open_lines sample_tcp_fields, auto simp: sample_tcp_row_def row_ok_def)

definition sample_session :: "u8 list \<Rightarrow> script proxy_system" where
  "sample_session answers =
     \<lparr>sy_table = trk (snd sample_enter),
      sy_tasks = [task_new (SockV4 0x7F000001 40000, Inr (SockV4 0x7F000001 9999), proxy_sends answers)],
      sy_ended = None\<rparr>"

abbreviation script_src :: "copy_dir \<Rightarrow> script \<Rightarrow> u8 list" where
  "script_src d \<equiv> (case d of ToProxy \<Rightarrow> sc_client_in | ToClient \<Rightarrow> sc_in)"

abbreviation script_dst :: "copy_dir \<Rightarrow> script \<Rightarrow> u8 list" where
  "script_dst d \<equiv> (case d of ToProxy \<Rightarrow> sc_out | ToClient \<Rightarrow> sc_client_out)"

theorem redirected_connection_reaches_destination_witness:
  "\<exists>down. prefix down [22, 3] \<and>
     sc_client_out (tk_conn (sy_tasks (system_run (\<lambda>x. x) script_net sample_socks
       (replicate 12 (Poll 0 sample_procfs ToClient True))
       (sample_session ([5, 0] @ [5, 0, 0, 1] @ [127, 0, 0, 1, 18, 52] @ [22, 3]))) ! 0)) = down"
proof -
  let ?ans = "[5, 0] @ [5, 0, 0, 1] @ [127, 0, 0, 1, 18, 52] @ [22, 3] :: u8 list"
  let ?evs = "replicate 12 (Poll 0 sample_procfs ToClient True) :: script proxy_event list"
  have "event_ops e = []" if "e \<in> set ?evs" for e using that by simp
  then have ops: "tracer_ops ?evs = []" by (simp add: tracer_ops_def)
  show ?thesis
    using redirected_connection_reaches_destination [OF sample_memory sample_pidfd_calls sample_intercept(4,6,1,2)
        prod.collapse [symmetric] sample_intercept(3), where ops = "[]" and S = "sample_session ?ans"
        and evs = ?evs and n = 0 and cip = "0x7F000001" and cport = 40000 and sip = "0x7F000001" and sport = 9999
        and net = script_net and src = script_src and held = "\<lambda>d s. []" and dst = script_dst
        and s = "proxy_sends ?ans" and proxy = sample_socks and m = 0 and atyp = 1 and bnd = "[127, 0, 0, 1, 18, 52]"
        and rsv = 0 and tunnel = "[22, 3]" and enc = "\<lambda>x. x", OF _ _ _ _ _ _ _ _ refl script_two_streams refl]
      sample_shows_conn
    by (auto simp: sample_session_def sample_intercept(5) sample_socks_def auth_fits_def bound_addr_def
        server_hello_def ops polls_of_def proxy_sends_def simp del: replicate.simps)
qed

text \<open>
  C13. End to end, for an HTTP upstream proxy: as for SOCKS5, when the proxy's answer arrives in one
  read and its first line contains 200. The proxy has then received exactly the CONNECT request,
  whose target parses back to the original destination, less its flow information, and first bytes of
  what the client sends; and the client has received first bytes of what the tunnel delivers.
\<close>

theorem redirected_connection_through_http:
  fixes h :: "'k hctx" and os :: "'k os" and pid :: i32 and S :: "'s proxy_system"
  defines "g \<equiv> tgid_of (proc_view os (kern h)) (trk h) pid"
  assumes mem: "tracee_memory os mem pid" and keep: "pidfd_calls_keep os mem"
    and r: "readable (mem (kern h) pid) (rsi regs) 32" and loc: "\<not> is_v6 (tc_local cfg)"
    and read: "read_sockaddr os (kern h) pid (rsi regs) (rdx regs) = Inr dest"
    and pol: "connect_policy cfg dest (stream_socket os pid (connect_fd regs) h) = Intercept"
    and enter: "handle_connect_enter os cfg pid regs h = (res, h')"
    and inode: "\<And>k. k \<in> {kern h, snd (probe_socket_is_stream os (kern h) pid (connect_fd regs))} \<Longrightarrow>
      read_socket_inode (proc_view os k) pid (connect_fd regs) = Some i"
    and fresh: "\<And>key. fd_inode (trk h) key = Some i \<Longrightarrow> key = (g, connect_fd regs)"
    and table: "sy_table S = run_ops ops (trk h')"
    and spare: "all_spare (g, connect_fd regs) i (ops @ tracer_ops evs) (trk h')"
    and client: "n < length (sy_tasks S)"
      "sy_tasks S ! n = task_new (SockV4 cip cport, Inr (SockV4 sip sport), s)"
    and conn: "\<And>fs d ready. Poll n fs d ready \<in> set evs \<Longrightarrow> shows_conn fs (cip, cport) (sip, sport) i"
    and polls: "12 \<le> polls_of n evs"
    and tk: "tk = sy_tasks (system_run enc net proxy evs S) ! n"
    and io: "two_streams net src held dst" "\<And>d. held d s = []"
    and proto: "pc_protocol proxy = HttpConnect"
    and server: "src ToClient s = response @ tunnel" "contains_str ''200'' (status_line response)"
    and one_read: "\<And>s1. src ToClient s1 = response @ tunnel \<Longrightarrow> fst (tcp_read net s1 1024) = Inr response"
  shows "tk_stage tk \<in> {Relaying dest, Finished (Inr ())} \<and>
    (\<exists>up. prefix up (src ToProxy s) \<and>
       dst ToProxy (tk_conn tk) = dst ToProxy s @ as_bytes (http_request enc dest (pc_auth proxy)) @ up) \<and>
    (\<exists>down. prefix down tunnel \<and> dst ToClient (tk_conn tk) = dst ToClient s @ down) \<and>
    prefix (''CONNECT '' @ show_socket_addr dest @ '' '') (http_request enc dest (pc_auth proxy)) \<and>
    parse_socket_addr (show_socket_addr dest) = Some (without_flowinfo dest)"
proof -
  obtain r ps where pc: "proxy_connection enc net ps proxy dest s = (r, tk_conn tk)"
    "tk_stage tk = (case r of None \<Rightarrow> Relaying dest | Some x \<Rightarrow> Finished x)"
    by (rule exE [OF redirected_task [OF mem keep r loc read pol enter _ _ table
            spare [unfolded g_def] client _ polls tk]]) (use inode fresh [unfolded g_def] conn in blast)+
  have net: "byte_stream net (src ToClient) (dst ToProxy)" using io(1) by (simp add: two_streams_def)
  obtain s1 where "http_connect enc net (pc_addr proxy) dest (pc_auth proxy) s = (Inr (), s1)"
    and s1: "src ToClient s1 = tunnel" "dst ToProxy s1 = dst ToProxy s @ as_bytes (http_request enc dest (pc_auth proxy))"
    using http_dialogue [OF net server(1) one_read server(2)] by blast
  then have "dial enc net proxy dest s = (Inr (), s1)" by (simp add: dial_cases proto)
  from tunnel_bytes [OF io(1) this s1 io(2) pc(1)] show ?thesis
    using pc(2) parse_show_socket_addr [of dest] by (auto simp: http_request_def Let_def simp del: show_socket_addr.simps)
qed

theorem redirected_connection_through_http_witness:
  "tk_stage (sy_tasks (system_run (\<lambda>x. x) script_net (sample_socks\<lparr>pc_protocol := HttpConnect\<rparr>)
     (replicate 12 (Poll 0 sample_procfs ToClient True)) (sample_session (as_bytes ''HTTP/1.1 200 OK''))) ! 0) \<in>
   {Relaying sample_dest, Finished (Inr ())}"
proof -
  let ?ans = "as_bytes ''HTTP/1.1 200 OK''"
  let ?evs = "replicate 12 (Poll 0 sample_procfs ToClient True) :: script proxy_event list"
  have "event_ops e = []" if "e \<in> set ?evs" for e using that by simp
  then have ops: "tracer_ops ?evs = []" by (simp add: tracer_ops_def)
  have ok: "contains_str ''200'' (status_line ?ans)" by code_simp
  have one: "fst (tcp_read script_net s1 1024) = Inr ?ans" if "script_src ToClient s1 = ?ans @ []" for s1
    using that by (simp add: script_net_def)
  show ?thesis
    using redirected_connection_through_http [OF sample_memory sample_pidfd_calls sample_intercept(4,6,1,2)
        prod.collapse [symmetric] sample_intercept(3), where ops = "[]" and S = "sample_session ?ans"
        and evs = ?evs and n = 0 and cip = "0x7F000001" and cport = 40000 and sip = "0x7F000001" and sport = 9999
        and net = script_net and src = script_src and held = "\<lambda>d s. []" and dst = script_dst
        and s = "proxy_sends ?ans" and proxy = "sample_socks\<lparr>pc_protocol := HttpConnect\<rparr>" and response = ?ans
        and tunnel = "[]" and enc = "\<lambda>x. x", OF _ _ _ _ _ _ _ _ refl script_two_streams refl]
      sample_shows_conn ok one
    by (auto simp: sample_session_def sample_intercept(5) ops polls_of_def proxy_sends_def
        simp del: replicate.simps)
qed

section \<open>The tracer and the local proxy side by side\<close>

text \<open>
  C5. What the policy excepts never reaches the upstream proxy, with the tracer and any number of
  clients side by side. Every state of the tracer's table is the outcome of a sequence of operations
  on it such that, however accepted clients and polls of their tasks are interleaved with these
  operations, the shared table ends in this state, and no task has asked or asks the upstream proxy
  for a loopback or unspecified address, port 0, a destination under a no-proxy rule, an IPv6
  destination when IPv6 is disabled, or the upstream proxy itself.
\<close>

theorem excepted_never_asked:
  assumes "reached os k tracker_new cfg st"
  shows "\<exists>ops. t_trk st = run_ops ops tracker_new \<and>
    (\<forall>evs. tracer_ops evs = ops \<longrightarrow>
       sy_table (system_run enc net proxy evs system_start) = t_trk st \<and>
       (\<forall>tk \<in> set (sy_tasks (system_run enc net proxy evs system_start)). \<forall>dest.
          stage_dest (tk_stage tk) = Some dest \<longrightarrow>
            \<not> is_loopback (sa_ip dest) \<and> \<not> is_unspecified (sa_ip dest) \<and> sa_port dest \<noteq> 0 \<and>
            \<not> should_bypass (tc_no_proxy cfg) dest \<and> \<not> (is_v6 dest \<and> tc_disable_ipv6 cfg) \<and>
            dest \<noteq> tc_proxy cfg))"
proof -
  from reached_inv [OF assms tracer_run.start] obtain D
    where D: "D \<subseteq> intercepted cfg" and run: "tracer_run D (t_trk st)"
    by (auto dest: loop_inv_run)
  obtain ops where ops: "t_trk st = run_ops ops tracker_new" "ops_dests ops \<subseteq> D"
    using tracer_run_ops [OF run] by (elim exE conjE)
  have table: "sy_table (system_run enc net proxy evs system_start) = t_trk st" if "tracer_ops evs = ops" for evs
    using that ops(1) by (simp add: system_run_table system_start_def)
  have ask: "connect_policy cfg dest True = Intercept"
    if "tracer_ops evs = ops" and "tk \<in> set (sy_tasks (system_run enc net proxy evs system_start))"
      and "stage_dest (tk_stage tk) = Some dest" for evs tk dest
  proof -
    have "dest \<in> recorded evs"
      using asks_recorded_run [of evs enc net proxy] that(2,3) by (force simp: asks_recorded_def)
    then show ?thesis
      using that(1) ops(2) D by (auto simp: recorded_tracer_ops intercepted_def)
  qed
  have except: "\<not> is_loopback (sa_ip dest) \<and> \<not> is_unspecified (sa_ip dest) \<and> sa_port dest \<noteq> 0 \<and>
      \<not> should_bypass (tc_no_proxy cfg) dest \<and> \<not> (is_v6 dest \<and> tc_disable_ipv6 cfg) \<and> dest \<noteq> tc_proxy cfg"
    if "connect_policy cfg dest True = Intercept" for dest
    using that by (auto simp: connect_policy_def split: if_splits)
  show ?thesis
    by (rule exI [of _ ops]) (use ops(1) table ask except in blast)
qed

theorem excepted_never_asked_witness:
  "\<exists>ops. t_trk (outcome_state (loop_step sample_os sample_cfg sample_launched)) = run_ops ops tracker_new \<and>
     sy_table (system_run (\<lambda>x. x) script_net sample_socks [TracerLock ops, Accepts (Inr sample_client)] system_start) =
       t_trk (outcome_state (loop_step sample_os sample_cfg sample_launched))"
proof -
  obtain ops where "t_trk (outcome_state (loop_step sample_os sample_cfg sample_launched)) = run_ops ops tracker_new"
    and all: "\<And>evs. tracer_ops evs = ops \<Longrightarrow>
      sy_table (system_run (\<lambda>x. x) script_net sample_socks evs system_start) =
        t_trk (outcome_state (loop_step sample_os sample_cfg sample_launched))"
    using excepted_never_asked [OF reached.pass [OF sample_launch], of "\<lambda>x. x" script_net sample_socks] by blast
  moreover have "tracer_ops [TracerLock ops, Accepts (Inr sample_client)] = ops" by (simp add: tracer_ops_def)
  ultimately show ?thesis by blast
qed

text \<open>
  C17. The seccomp filter and the handlers agree on what matters, with two exceptions. A call that
  the filter lets pass without a stop is one whose entry the tracer would leave alone if it saw it,
  unless it is a \<open>socket\<close> call, or a \<open>clone\<close> call in whose flags
  \<open>CLONE_UNTRACED\<close> is the only bit of the lower half.
\<close>

theorem filter_skips_only_idle_calls:
  assumes run: "bpf_machine run"
    and nr: "orig_rax regs = ucast (sd_nr d)" and arg: "sd_args d ! 0 = rdi regs"
    and allowed: "run seccomp_filter d 0 0 = 0x7fff0000"
    and not_socket: "get_syscall_nr regs \<noteq> SYS_SOCKET"
    and not_bare: "get_syscall_nr regs = SYS_CLONE \<Longrightarrow> low_half (rdi regs) \<noteq> 0x00800000"
  shows "handle_syscall_enter os cfg pid regs h = (Inr (), h)"
proof -
  have skip: "\<not> filter_traces d" using filter_run [OF run, of d] allowed by (auto split: if_splits)
  have n: "(orig_rax regs = ucast (v :: u32)) = (sd_nr d = v)" for v
    unfolding nr by (metis ucast_up_u32_inj)
  have num: "orig_rax regs = 3 \<longleftrightarrow> sd_nr d = 3" "orig_rax regs = 42 \<longleftrightarrow> sd_nr d = 42"
    "orig_rax regs = 56 \<longleftrightarrow> sd_nr d = 56" "orig_rax regs = 435 \<longleftrightarrow> sd_nr d = 435"
    using n [of 3] n [of 42] n [of 56] n [of 435] by simp_all
  have "sd_nr d \<noteq> 3" "sd_nr d \<noteq> 42" "sd_nr d \<noteq> 435" using skip by (auto simp: filter_traces_def)
  moreover have "rdi regs AND CLONE_UNTRACED = 0" if "sd_nr d = 56"
    using filter_traces_clone [OF that] skip not_bare that num(3)
    by (auto simp: arg CLONE_UNTRACED_def get_syscall_nr_def syscall_numbers)
  ultimately show ?thesis
    using not_socket num
    by (simp add: handle_syscall_enter_def handle_clone_enter_def get_syscall_nr_def syscall_numbers)
qed

theorem filter_skips_only_idle_calls_witness:
  "handle_syscall_enter sample_os sample_cfg 7 (sample_connect_regs\<lparr>orig_rax := 0\<rparr>) sample_hctx =
     (Inr (), sample_hctx)"
proof -
  let ?d = "\<lparr>sd_nr = 0, sd_arch = 0, sd_ip = 0, sd_args = [5]\<rparr>"
  have "bpf_run seccomp_filter ?d 0 0 = 0x7fff0000"
    using filter_run [OF bpf_run_machine, of ?d] by (simp add: filter_traces_def)
  then show ?thesis
    using filter_skips_only_idle_calls [OF bpf_run_machine, of "sample_connect_regs\<lparr>orig_rax := 0\<rparr>" ?d]
    by (simp add: get_syscall_nr_def syscall_numbers sample_connect_regs_def)
qed

end
